(* ===== verification/Prelude.thy ===== *)
theory Prelude
  imports Main "HOL-Library.Word"
begin

unbundle bit_operations_syntax

text \<open>
  Shared vocabulary of the development: the machine integers the C++ code uses, the result
  type of code that may abort, bit fields of a machine word, and the little-endian byte images
  that \<open>memcpy\<close> to and from an integer produces.
\<close>

section \<open>Machine integers\<close>

type_synonym u8 = "8 word"
type_synonym u16 = "16 word"
type_synonym u32 = "32 word"
type_synonym u64 = "64 word"

named_theorems bf_simps "reading and writing bit fields"
named_theorems res_simps "case analysis of results"

lemma unat_of_nat_small: "n < 2 ^ LENGTH('a) \<Longrightarrow> unat (of_nat n :: 'a::len word) = n"
  by (simp add: unsigned_of_nat take_bit_nat_eq_self)

lemma unat_ucast_up:
  "LENGTH('a) \<le> LENGTH('b) \<Longrightarrow> unat (ucast a :: 'b::len word) = unat (a :: 'a::len word)"
proof -
  assume "LENGTH('a) \<le> LENGTH('b)"
  then have "unat a < 2 ^ LENGTH('b)"
    using unsigned_less[of a] by (meson less_le_trans one_le_numeral power_increasing)
  then show ?thesis by (simp add: unsigned_ucast_eq take_bit_nat_eq_self)
qed

section \<open>Results of code that may abort\<close>

text \<open>
  The emulator aborts on a failing \<open>assert\<close>; an access outside an array, or a read of a
  variable nobody wrote, has no defined result; \<open>Exit\<close> is a call of \<open>exit\<close>. These are values of the result type, so that
  every theorem about a returned value also says that the code returned.
\<close>

datatype crash = AssertFail | Undefined | Exit

type_synonym 'a res = "crash + 'a"

definition bnd :: "'a res \<Rightarrow> ('a \<Rightarrow> 'b res) \<Rightarrow> 'b res" where
  "bnd m f = (case m of Inl e \<Rightarrow> Inl e | Inr x \<Rightarrow> f x)"

definition guard :: "bool \<Rightarrow> 'a res \<Rightarrow> 'a res" where
  "guard b m = (if b then m else Inl AssertFail)"

definition returns :: "'a res \<Rightarrow> bool" where
  "returns m \<longleftrightarrow> (case m of Inl _ \<Rightarrow> False | Inr _ \<Rightarrow> True)"

lemma bnd_Inr [simp, res_simps]: "bnd (Inr x) f = f x"
  by (simp add: bnd_def)

lemma bnd_Inl [simp, res_simps]: "bnd (Inl e) f = Inl e"
  by (simp add: bnd_def)

lemma bnd_eq_Inr [res_simps]: "bnd m f = Inr y \<longleftrightarrow> (\<exists>x. m = Inr x \<and> f x = Inr y)"
  by (cases m) simp_all

lemma Inr_eq_bnd: "Inr y = bnd m f \<longleftrightarrow> (\<exists>x. m = Inr x \<and> f x = Inr y)"
  by (cases m) auto

lemma bnd_eq_Inl [res_simps]:
  "bnd m f = Inl e \<longleftrightarrow> m = Inl e \<or> (\<exists>x. m = Inr x \<and> f x = Inl e)"
  by (cases m) simp_all

lemma bnd_assoc: "bnd (bnd m f) g = bnd m (\<lambda>x. bnd (f x) g)"
  by (cases m) simp_all

lemma guard_True [simp]: "guard True m = m"
  by (simp add: guard_def)

lemma guard_eq_Inr [res_simps]: "guard b m = Inr y \<longleftrightarrow> b \<and> m = Inr y"
  by (simp add: guard_def)

lemma returns_Inr [simp]: "returns (Inr x)"
  by (simp add: returns_def)

lemma returns_Inl [simp]: "\<not> returns (Inl e)"
  by (simp add: returns_def)

lemma returns_iff: "returns m \<longleftrightarrow> (\<exists>x. m = Inr x)"
  by (cases m) simp_all

lemma returns_bnd: "returns (bnd m f) \<longleftrightarrow> (\<exists>x. m = Inr x \<and> returns (f x))"
  by (cases m) simp_all

text \<open>A result satisfies \<open>P\<close> whenever the code returns one.\<close>

definition post :: "('a \<Rightarrow> bool) \<Rightarrow> 'a res \<Rightarrow> bool" where
  "post P m \<longleftrightarrow> (case m of Inl _ \<Rightarrow> True | Inr x \<Rightarrow> P x)"

lemma post_Inr [simp]: "post P (Inr x) = P x"
  by (simp add: post_def)

lemma post_Inl [simp]: "post P (Inl e)"
  by (simp add: post_def)

lemma post_bnd [intro]: "post (\<lambda>x. post P (f x)) m \<Longrightarrow> post P (bnd m f)"
  by (cases m) simp_all

lemma post_guard [simp]: "post P (guard b m) \<longleftrightarrow> (b \<longrightarrow> post P m)"
  by (simp add: guard_def)

lemma post_mono: "post P m \<Longrightarrow> (\<And>x. P x \<Longrightarrow> Q x) \<Longrightarrow> post Q m"
  by (cases m) simp_all

lemma postD: "post P m \<Longrightarrow> m = Inr x \<Longrightarrow> P x"
  by simp

lemma postI: "(\<And>x. m = Inr x \<Longrightarrow> P x) \<Longrightarrow> post P m"
  by (cases m) simp_all

section \<open>Bit fields\<close>

text \<open>
  A C++ bit field of width \<open>n\<close> at offset \<open>lo\<close> of the enclosing word. Assigning to it
  keeps the low \<open>n\<close> bits of the value and every other bit of the word.
\<close>

definition bf_get :: "nat \<Rightarrow> nat \<Rightarrow> 'a::len word \<Rightarrow> 'a word" where
  "bf_get lo n w = take_bit n (drop_bit lo w)"

definition bf_set :: "nat \<Rightarrow> nat \<Rightarrow> 'a::len word \<Rightarrow> 'a word \<Rightarrow> 'a word" where
  "bf_set lo n v w = (w AND NOT (push_bit lo (mask n))) OR push_bit lo (take_bit n v)"

lemma bit_bf_get: "bit (bf_get lo n w) i \<longleftrightarrow> i < n \<and> bit w (lo + i)" for w :: "'a::len word"
  by (auto simp: bf_get_def bit_simps add.commute)

lemma bit_bf_set:
  "bit (bf_set lo n v w) i \<longleftrightarrow> i < LENGTH('a) \<and> (if lo \<le> i \<and> i < lo + n then bit v (i - lo) else bit w i)"
  for w :: "'a::len word"
  by (auto simp: bf_set_def bit_simps dest: bit_imp_le_length)

lemma bf_get_set_same [bf_simps]:
  "lo + n \<le> LENGTH('a) \<Longrightarrow> bf_get lo n (bf_set lo n v w) = take_bit n v" for w :: "'a::len word"
  by (rule bit_word_eqI) (auto simp: bit_bf_get bit_bf_set bit_simps)

lemma bf_get_set_other [bf_simps]:
  "lo + n \<le> lo' \<or> lo' + n' \<le> lo \<Longrightarrow> bf_get lo n (bf_set lo' n' v w) = bf_get lo n w"
  for w :: "'a::len word"
  by (rule bit_word_eqI) (auto simp: bit_bf_get bit_bf_set dest: bit_imp_le_length)

lemma bf_set_set_same [bf_simps]: "bf_set lo n v (bf_set lo n v' w) = bf_set lo n v w"
  for w :: "'a::len word"
  by (rule bit_word_eqI) (auto simp: bit_bf_set)

lemma bf_set_get_self [bf_simps]: "bf_set lo n (bf_get lo n w) w = w" for w :: "'a::len word"
  by (rule bit_word_eqI) (auto simp: bit_bf_set bit_bf_get dest: bit_imp_le_length)

lemma bf_get_lt: "n < LENGTH('a) \<Longrightarrow> unat (bf_get lo n w) < 2 ^ n" for w :: "'a::len word"
  by (simp add: bf_get_def unsigned_take_bit_eq take_bit_nat_less_exp)

lemma bf_get_0 [simp]: "bf_get lo n 0 = 0"
  by (simp add: bf_get_def)

definition bool_word :: "bool \<Rightarrow> 'a::len word" where
  "bool_word b = (if b then 1 else 0)"

lemma bool_word_simps [simp]: "bool_word True = 1" "bool_word False = 0"
  by (simp_all add: bool_word_def)

section \<open>Enumerations\<close>

text \<open>
  An enumeration with explicit values: reading a number as a member finds the constant that has this
  value. A \<open>switch\<close> on a number that is no member takes its default case.
\<close>

definition enum_of :: "('e \<Rightarrow> 'a word) \<Rightarrow> 'e list \<Rightarrow> 'a::len word \<Rightarrow> 'e option" where
  "enum_of val members w = List.find (\<lambda>c. val c = w) members"

lemma enum_of_SomeD: "enum_of val members w = Some c \<Longrightarrow> val c = w"
  by (auto simp: enum_of_def find_Some_iff)

section \<open>Byte images of integers\<close>

definition bytes_of :: "nat \<Rightarrow> 'a::len word \<Rightarrow> u8 list" where
  "bytes_of n w = map (\<lambda>i. ucast (drop_bit (8 * i) w)) [0..<n]"

fun word_of_bytes :: "u8 list \<Rightarrow> 'a::len word" where
  "word_of_bytes [] = 0"
| "word_of_bytes (b # bs) = ucast b OR push_bit 8 (word_of_bytes bs)"

lemma length_bytes_of [simp]: "length (bytes_of n w) = n"
  by (simp add: bytes_of_def)

lemma bytes_of_nth [simp]: "i < n \<Longrightarrow> bytes_of n w ! i = ucast (drop_bit (8 * i) w)"
  by (simp add: bytes_of_def)

lemma bytes_of_Suc: "bytes_of (Suc n) w = ucast w # bytes_of n (drop_bit 8 w)"
  by (rule nth_equalityI) (auto simp: nth_Cons' algebra_simps)

lemma bit_word_of_bytes:
  "bit (word_of_bytes bs :: 'a::len word) i
     \<longleftrightarrow> i < LENGTH('a) \<and> i div 8 < length bs \<and> bit (bs ! (i div 8)) (i mod 8)"
proof (induction bs arbitrary: i)
  case (Cons b bs)
  show ?case
  proof (cases "i < 8")
    case True
    then show ?thesis by (auto simp: bit_simps)
  next
    case False
    then have "i div 8 = Suc ((i - 8) div 8)" and "i mod 8 = (i - 8) mod 8"
      by (auto simp: le_div_geq le_mod_geq)
    with False show ?thesis
      by (auto simp: bit_simps Cons.IH dest: bit_imp_le_length)
  qed
qed simp

lemma word_of_bytes_bytes_of:
  "word_of_bytes (bytes_of n w) = (take_bit (8 * n) w :: 'a::len word)"
proof (rule bit_word_eqI)
  fix i assume "i < LENGTH('a)"
  moreover have "i div 8 < n \<longleftrightarrow> i < 8 * n" by auto
  moreover have "8 * (i div 8) + i mod 8 = i" by simp
  ultimately show "bit (word_of_bytes (bytes_of n w) :: 'a word) i = bit (take_bit (8 * n) w) i"
    by (auto simp: bit_word_of_bytes bit_simps)
qed

lemma bytes_of_word_of_bytes:
  assumes "8 * length bs \<le> LENGTH('a)"
  shows "bytes_of (length bs) (word_of_bytes bs :: 'a::len word) = bs"
proof (rule nth_equalityI)
  fix i assume i: "i < length (bytes_of (length bs) (word_of_bytes bs :: 'a word))"
  show "bytes_of (length bs) (word_of_bytes bs :: 'a word) ! i = bs ! i"
  proof (rule bit_word_eqI)
    fix j :: nat assume j: "j < LENGTH(8)"
    then have "(8 * i + j) div 8 = i" "(8 * i + j) mod 8 = j" "8 * i + j < LENGTH('a)"
      using i assms by auto
    then show "bit (bytes_of (length bs) (word_of_bytes bs :: 'a word) ! i) j = bit (bs ! i) j"
      using i j by (simp add: bit_simps bit_word_of_bytes)
  qed
qed simp

section \<open>Arrays of bytes\<close>

text \<open>
  \<open>memcpy\<close> out of and into an array of bytes. An access that leaves the array is undefined
  behaviour, a result of its own.
\<close>

definition mem_read :: "u8 list \<Rightarrow> nat \<Rightarrow> nat \<Rightarrow> u8 list res" where
  "mem_read m i n = (if i + n \<le> length m then Inr (take n (drop i m)) else Inl Undefined)"

definition mem_write :: "u8 list \<Rightarrow> nat \<Rightarrow> u8 list \<Rightarrow> u8 list res" where
  "mem_write m i bs =
     (if i + length bs \<le> length m then Inr (take i m @ bs @ drop (i + length bs) m) else Inl Undefined)"

lemma mem_read_length: "mem_read m i n = Inr bs \<Longrightarrow> length bs = n"
  by (auto simp: mem_read_def split: if_splits)

lemma mem_write_length: "mem_write m i bs = Inr m' \<Longrightarrow> length m' = length m"
  by (auto simp: mem_write_def split: if_splits)

lemma mem_read_write_same: "mem_write m i bs = Inr m' \<Longrightarrow> mem_read m' i (length bs) = Inr bs"
  by (auto simp: mem_write_def mem_read_def split: if_splits)

lemma mem_write_nth:
  "mem_write m i bs = Inr m' \<Longrightarrow> j < length m \<Longrightarrow>
     m' ! j = (if i \<le> j \<and> j < i + length bs then bs ! (j - i) else m ! j)"
  by (auto simp: mem_write_def nth_append min_def split: if_splits)

lemma mem_read_nth: "mem_read m i n = Inr bs \<Longrightarrow> j < n \<Longrightarrow> bs ! j = m ! (i + j)"
  by (auto simp: mem_read_def split: if_splits)

lemma mem_read_write_other:
  assumes w: "mem_write m i bs = Inr m'" and d: "j + n \<le> i \<or> i + length bs \<le> j"
  shows "mem_read m' j n = mem_read m j n"
proof (cases "j + n \<le> length m")
  case True
  note len = mem_write_length[OF w]
  have "take n (drop j m') = take n (drop j m)"
    using w d True len by (intro nth_equalityI) (auto simp: mem_write_nth)
  with True len show ?thesis by (simp add: mem_read_def)
next
  case False
  with mem_write_length[OF w] show ?thesis by (simp add: mem_read_def)
qed

lemma mem_read_returns [simp]: "returns (mem_read m i n) \<longleftrightarrow> i + n \<le> length m"
  by (simp add: mem_read_def)

lemma mem_write_returns [simp]: "returns (mem_write m i bs) \<longleftrightarrow> i + length bs \<le> length m"
  by (simp add: mem_write_def)

section \<open>Register arrays as bytes\<close>

text \<open>An array of integers seen as the bytes it occupies, \<open>k\<close> bytes each, and the way back.\<close>

definition bytes_of_list :: "nat \<Rightarrow> 'a::len word list \<Rightarrow> u8 list" where
  "bytes_of_list k ws = concat (map (bytes_of k) ws)"

fun words_of_bytes :: "nat \<Rightarrow> nat \<Rightarrow> u8 list \<Rightarrow> 'a::len word list" where
  "words_of_bytes k 0 bs = []"
| "words_of_bytes k (Suc n) bs = word_of_bytes (take k bs) # words_of_bytes k n (drop k bs)"

lemma length_bytes_of_list [simp]: "length (bytes_of_list k ws) = k * length ws"
  by (induction ws) (auto simp: bytes_of_list_def)

lemma bytes_of_list_Cons: "bytes_of_list k (w # ws) = bytes_of k w @ bytes_of_list k ws"
  by (simp add: bytes_of_list_def)

lemma words_of_bytes_of_list:
  "8 * k = LENGTH('a) \<Longrightarrow> words_of_bytes k (length ws) (bytes_of_list k ws) = (ws :: 'a::len word list)"
  by (induction ws) (auto simp: bytes_of_list_Cons word_of_bytes_bytes_of bytes_of_list_def)

lemma length_words_of_bytes [simp]: "length (words_of_bytes k n bs) = n"
  by (induction k n bs rule: words_of_bytes.induct) auto

lemma bytes_of_list_update:
  "h < length ws \<Longrightarrow> length bs = k \<Longrightarrow> 8 * k = LENGTH('a) \<Longrightarrow>
     take (k * h) (bytes_of_list k ws) @ bs @ drop (k * h + k) (bytes_of_list k ws)
       = bytes_of_list k ((ws :: 'a::len word list)[h := word_of_bytes bs])"
proof (induction ws arbitrary: h)
  case (Cons w ws)
  have r: "bytes_of k (word_of_bytes bs :: 'a word) = bs"
    using Cons.prems bytes_of_word_of_bytes[where bs = bs and 'a = 'a] by simp
  show ?case
    using Cons r by (cases h) (auto simp: bytes_of_list_Cons algebra_simps)
qed simp

lemma bytes_of_list_slice:
  "h < length ws \<Longrightarrow> take k (drop (k * h) (bytes_of_list k ws)) = bytes_of k (ws ! h)"
  by (induction ws arbitrary: h) (auto simp: bytes_of_list_Cons nth_Cons' less_Suc_eq_0_disj)

section \<open>Arrays and counted loops\<close>

definition arr_get :: "'a list \<Rightarrow> nat \<Rightarrow> 'a res" where
  "arr_get xs i = (if i < length xs then Inr (xs ! i) else Inl Undefined)"

definition arr_set :: "'a list \<Rightarrow> nat \<Rightarrow> 'a \<Rightarrow> 'a list res" where
  "arr_set xs i v = (if i < length xs then Inr (xs[i := v]) else Inl Undefined)"

lemma replicate_2: "replicate 2 x = [x, x]"
  by (simp add: numeral_2_eq_2)

text \<open>\<open>for (x : xs) s = f(x, s)\<close>, stopping at the first abort.\<close>

fun for_each :: "('x \<Rightarrow> 's \<Rightarrow> 's res) \<Rightarrow> 'x list \<Rightarrow> 's \<Rightarrow> 's res" where
  "for_each f [] s = Inr s"
| "for_each f (x # xs) s = bnd (f x s) (for_each f xs)"

lemma arr_get_eq_Inr [res_simps]: "arr_get xs i = Inr v \<longleftrightarrow> i < length xs \<and> v = xs ! i"
  by (auto simp: arr_get_def)

lemma arr_get_in [simp]: "i < length xs \<Longrightarrow> arr_get xs i = Inr (xs ! i)"
  by (simp add: arr_get_def)

lemma arr_get_out [simp]: "length xs \<le> i \<Longrightarrow> arr_get xs i = Inl Undefined"
  by (simp add: arr_get_def)

lemma arr_set_eq_Inr [res_simps]: "arr_set xs i v = Inr ys \<longleftrightarrow> i < length xs \<and> ys = xs[i := v]"
  by (auto simp: arr_set_def)

lemma arr_set_in [simp]: "i < length xs \<Longrightarrow> arr_set xs i v = Inr (xs[i := v])"
  by (simp add: arr_set_def)

lemma arr_set_out [simp]: "length xs \<le> i \<Longrightarrow> arr_set xs i v = Inl Undefined"
  by (simp add: arr_set_def)

lemma for_each_append: "for_each f (xs @ ys) s = bnd (for_each f xs s) (for_each f ys)"
  by (induction xs arbitrary: s) (auto simp: bnd_def split: sum.splits)

lemma for_each_total:
  "(\<And>x s. x \<in> set xs \<Longrightarrow> f x s = Inr (g x s)) \<Longrightarrow> for_each f xs s = Inr (fold g xs s)"
  by (induction xs arbitrary: s) auto

lemma for_each_invariant:
  "for_each f xs s = Inr s' \<Longrightarrow> I s \<Longrightarrow>
     (\<And>x s s'. x \<in> set xs \<Longrightarrow> I s \<Longrightarrow> f x s = Inr s' \<Longrightarrow> I s') \<Longrightarrow> I s'"
  by (induction xs arbitrary: s) (auto simp: bnd_eq_Inr)

end
