(* ===== verification/DevIf.thy ===== *)
theory DevIf
  imports Prelude
begin

text \<open>
  The device interfaces of \<open>include/sdk/interface/dev_if.h\<close>: feedback codes, the virtual
  functions of a slave device, and the reservation that \<open>SlaveAtomic_I\<close> keeps for
  load-reserved and store-conditional. A C++ object with virtual functions is a state
  together with a record of its operations; a caller that holds a pointer to the base class takes that record
  as an argument. The two locales at the end are the contract a caller relies on.
\<close>

section \<open>Feedback codes\<close>

definition FB_SUCCESS :: u32 where "FB_SUCCESS = 0"
definition FB_OUT_OF_RANGE :: u32 where "FB_OUT_OF_RANGE = 1"
definition FB_DEV_NOT_FOUND :: u32 where "FB_DEV_NOT_FOUND = 2"
definition FB_MISALIGNED :: u32 where "FB_MISALIGNED = 3"
definition FB_UNKNOWN_ERR :: u32 where "FB_UNKNOWN_ERR = 4"

lemmas FB_defs = FB_SUCCESS_def FB_OUT_OF_RANGE_def FB_DEV_NOT_FOUND_def FB_MISALIGNED_def
  FB_UNKNOWN_ERR_def

section \<open>Slaves\<close>

text \<open>
  \<open>load\<close> writes its answer through a pointer. The model returns \<open>Some bs\<close> when the
  buffer was written with \<open>bs\<close> and \<open>None\<close> when the function returned without touching it,
  which is a different thing: the caller then still sees what the buffer held before.
\<close>

type_synonym 's load_fn = "'s \<Rightarrow> u64 \<Rightarrow> u64 \<Rightarrow> (u32 \<times> u8 list option \<times> 's) res"
type_synonym 's store_fn = "'s \<Rightarrow> u64 \<Rightarrow> u8 list \<Rightarrow> (u32 \<times> 's) res"

record 's slave_io =
  io_load :: "'s load_fn"
  io_store :: "'s store_fn"

record 's slave_atomic_io = "'s slave_io" +
  io_reserve :: "'s \<Rightarrow> u64 \<Rightarrow> u64 \<Rightarrow> u64 \<Rightarrow> 's"
  io_check :: "'s \<Rightarrow> u64 \<Rightarrow> u64 \<Rightarrow> u64 \<Rightarrow> bool \<times> 's"

section \<open>The reservation of a \<open>SlaveAtomic_I\<close>\<close>

record slave_atomic =
  reservationValid :: bool
  reserveForHart :: u64
  reserveBeginAddr :: u64
  reserveLen :: u64

definition no_reservation :: slave_atomic where
  "no_reservation = \<lparr>reservationValid = False, reserveForHart = 0, reserveBeginAddr = 0, reserveLen = 0\<rparr>"

definition reserve :: "'z slave_atomic_scheme \<Rightarrow> u64 \<Rightarrow> u64 \<Rightarrow> u64 \<Rightarrow> 'z slave_atomic_scheme" where
  "reserve r begin_addr len hart_id =
     r\<lparr>reserveBeginAddr := begin_addr, reserveLen := len, reserveForHart := hart_id,
       reservationValid := True\<rparr>"

definition check :: "'z slave_atomic_scheme \<Rightarrow> u64 \<Rightarrow> u64 \<Rightarrow> u64 \<Rightarrow> bool \<times> 'z slave_atomic_scheme" where
  "check r begin_addr len hart_id =
     (if \<not> reservationValid r then (False, r)
      else (begin_addr = reserveBeginAddr r \<and> hart_id = reserveForHart r \<and> len = reserveLen r,
            r\<lparr>reservationValid := False\<rparr>))"

lemma check_reserve [simp]:
  "check (reserve r a n h) a' n' h' =
     (a' = a \<and> h' = h \<and> n' = n, (reserve r a n h)\<lparr>reservationValid := False\<rparr>)"
  by (simp add: check_def reserve_def)

lemma check_consumes [simp]: "\<not> reservationValid (snd (check r a n h))"
  by (simp add: check_def)

lemma check_True_D: "fst (check r a n h) \<Longrightarrow> reservationValid r \<and> reserveForHart r = h
     \<and> reserveBeginAddr r = a \<and> reserveLen r = n"
  by (simp add: check_def split: if_splits)

section \<open>Interrupt lines\<close>

text \<open>
  \<open>struct IntStatus\<close> holds four flags. The interrupt controllers keep raw pointers, to a whole
  \<open>IntStatus\<close> (\<open>CLInt\<close>) or to one \<open>bool\<close> (\<open>PLIC\<close>), and write through them. The flags live in a
  store: \<open>Meip i\<close> names the \<open>meip\<close> field of the \<open>i\<close>-th \<open>IntStatus\<close> object, \<open>Loose i\<close> a
  \<open>bool\<close> that belongs to none.
\<close>

datatype irq_wire = Meip nat | Msip nat | Mtip nat | Seip nat | Loose nat

type_synonym irq_store = "irq_wire \<Rightarrow> bool"

section \<open>Contracts\<close>

text \<open>
  What a caller relies on: an operation on a well-formed device returns a well-formed device, and a
  buffer that is written is written in full. \<open>returns\<close> is not part of the contract: a
  device may abort.
\<close>

locale slave =
  fixes load :: "'s load_fn" and store :: "'s store_fn" and wf :: "'s \<Rightarrow> bool"
  assumes load_wf: "wf s \<Longrightarrow> load s a n = Inr (fb, b, s') \<Longrightarrow> wf s'"
    and store_wf: "wf s \<Longrightarrow> store s a bs = Inr (fb, s') \<Longrightarrow> wf s'"
    and load_length: "wf s \<Longrightarrow> load s a n = Inr (fb, Some bs, s') \<Longrightarrow> length bs = unat n"
begin

text \<open>A sequence of accesses, as a list of (address, length) loads and (address, bytes) stores.\<close>

fun run_ops :: "(u64 \<times> u64 + u64 \<times> u8 list) list \<Rightarrow> 's \<Rightarrow> 's res" where
  "run_ops [] s = Inr s"
| "run_ops (Inl (a, n) # xs) s = bnd (load s a n) (\<lambda>(fb, b, s'). run_ops xs s')"
| "run_ops (Inr (a, bs) # xs) s = bnd (store s a bs) (\<lambda>(fb, s'). run_ops xs s')"

lemma run_ops_wf: "wf s \<Longrightarrow> run_ops xs s = Inr s' \<Longrightarrow> wf s'"
  by (induction xs s rule: run_ops.induct)
     (auto simp: bnd_eq_Inr intro: load_wf store_wf)

end

text \<open>A memory: a successful store is what the next load of the same range returns.\<close>

locale memory_slave = slave +
  assumes store_load: "wf s \<Longrightarrow> store s a bs = Inr (FB_SUCCESS, s') \<Longrightarrow> length bs < 2 ^ 64 \<Longrightarrow>
            load s' a (of_nat (length bs)) = Inr (FB_SUCCESS, Some bs, s')"
    and load_pure: "wf s \<Longrightarrow> load s a n = Inr (fb, b, s') \<Longrightarrow> s' = s"
begin

lemma load_twice: "wf s \<Longrightarrow> load s a n = Inr (fb, b, s') \<Longrightarrow> load s' a n = Inr (fb, b, s')"
  using load_pure by blast

end

text \<open>
  A slave with reservations, seen by a core: \<open>reserved\<close> is the reservation that is held, as address, length and
  hart. A check succeeds exactly for the held one and leaves the slave without it, otherwise as it was; loads keep it; a
  store keeps it or drops it.
\<close>

locale atomic_slave =
  fixes vt :: "'b slave_atomic_io" and reserved :: "'b \<Rightarrow> (u64 \<times> u64 \<times> u64) option" and unreserved :: "'b \<Rightarrow> 'b"
  assumes reserve_sets: "reserved (io_reserve vt b a n h) = Some (a, n, h)"
    and check_is: "io_check vt b a n h = (reserved b = Some (a, n, h), unreserved b)"
    and drops: "reserved (unreserved b) = None"
    and none_dropped: "reserved b = None \<Longrightarrow> unreserved b = b"
    and load_keeps: "io_load vt b a n = Inr (fb, x, b') \<Longrightarrow> reserved b' = reserved b"
    and store_keeps: "io_store vt b a bs = Inr (fb, b') \<Longrightarrow> reserved b' = reserved b \<or> reserved b' = None"
begin

lemma check_twice: "io_check vt (snd (io_check vt b a n h)) a' n' h' = (False, snd (io_check vt b a n h))"
  by (simp add: check_is drops none_dropped)

lemma check_reserved: "fst (io_check vt (io_reserve vt b a n h) a n h)"
  by (simp add: check_is reserve_sets)

end

end
