(* ===== verification/MemDev.thy ===== *)
theory MemDev
  imports DevIf
begin

text \<open>
  The memory device \<open>Mem\<close> of \<open>modules/device/mem/include/Mem.h\<close>: an array of bytes and its
  size. Reading the initial image from a file is outside the model: the constructor takes the
  file's bytes.
\<close>

record mem_dev =
  mem :: "u8 list"
  memSize :: u64

text \<open>
  The constructor allocates an uninitialised array, here \<open>junk\<close>, and copies the
  initial image over its beginning, cut to the size of the array.
\<close>

definition mem_new :: "u8 list \<Rightarrow> u8 list option \<Rightarrow> mem_dev" where
  "mem_new junk init =
     (let sz = length junk;
          file = (case init of None \<Rightarrow> [] | Some f \<Rightarrow> take (min sz (length f)) f)
      in \<lparr>mem = file @ drop (length file) junk, memSize = of_nat sz\<rparr>)"

definition mem_load :: "mem_dev load_fn" where
  "mem_load m begin_addr len =
     (if begin_addr + len - 1 < memSize m
      then bnd (mem_read (mem m) (unat begin_addr) (unat len)) (\<lambda>bs. Inr (FB_SUCCESS, Some bs, m))
      else Inr (FB_OUT_OF_RANGE, None, m))"

definition mem_store :: "mem_dev store_fn" where
  "mem_store m begin_addr bs =
     (if begin_addr + of_nat (length bs) - 1 < memSize m
      then bnd (mem_write (mem m) (unat begin_addr) bs) (\<lambda>mem'. Inr (FB_SUCCESS, m\<lparr>mem := mem'\<rparr>))
      else Inr (FB_OUT_OF_RANGE, m))"

definition mem_wf :: "mem_dev \<Rightarrow> bool" where
  "mem_wf m \<longleftrightarrow> length (mem m) = unat (memSize m)"

lemma mem_new_wf: "length junk < 2 ^ 64 \<Longrightarrow> mem_wf (mem_new junk init)"
  by (auto simp: mem_wf_def mem_new_def Let_def unat_of_nat_small split: option.splits)

lemma mem_load_same: "mem_load m a n = Inr (fb, b, m') \<Longrightarrow> m' = m"
  by (auto simp: mem_load_def bnd_eq_Inr dest: mem_read_length split: if_splits)

lemma mem_store_wf: "mem_wf m \<Longrightarrow> mem_store m a bs = Inr (fb, m') \<Longrightarrow> mem_wf m'"
  by (auto simp: mem_store_def mem_wf_def bnd_eq_Inr dest: mem_write_length split: if_splits)

lemma mem_store_load:
  assumes "mem_store m a bs = Inr (FB_SUCCESS, m')" and "length bs < 2 ^ 64"
  shows "mem_load m' a (of_nat (length bs)) = Inr (FB_SUCCESS, Some bs, m')"
proof -
  from assms(1) obtain mem' where "a + of_nat (length bs) - 1 < memSize m"
    and w: "mem_write (mem m) (unat a) bs = Inr mem'" and "m' = m\<lparr>mem := mem'\<rparr>"
    by (auto simp: mem_store_def bnd_eq_Inr FB_defs split: if_splits)
  then show ?thesis
    using assms(2) mem_read_write_same[OF w] by (simp add: mem_load_def unat_of_nat_small)
qed

interpretation md: memory_slave mem_load mem_store mem_wf
proof unfold_locales
  fix s s' a n fb b
  assume "mem_wf s" "mem_load s a n = Inr (fb, b, s')"
  then show "mem_wf s'" using mem_load_same by blast
next
  fix s s' a n fb bs
  assume "mem_load s a n = Inr (fb, Some bs, s')"
  then show "length bs = unat n"
    by (auto simp: mem_load_def bnd_eq_Inr dest: mem_read_length split: if_splits)
qed (auto intro: mem_store_wf mem_store_load mem_load_same)

lemma mem_in_range:
  assumes "mem_wf m" and "0 < n" and "unat a + n < 2 ^ 64"
  shows "a + of_nat n - 1 < memSize m \<longleftrightarrow> unat a + n \<le> length (mem m)"
proof -
  have "unat (a + of_nat n) = unat a + n"
    using assms(3) by (simp add: unat_word_ariths unat_of_nat_small)
  moreover from this have "a + of_nat n \<noteq> 0"
    using assms(2) by (metis add_is_0 less_not_refl unat_0)
  ultimately have "unat (a + of_nat n - 1) = unat a + n - 1"
    by (simp add: unat_minus_one)
  then show ?thesis
    using assms(1,2) by (auto simp: mem_wf_def word_less_nat_alt)
qed

text \<open>
  C40. The bounds check of \<open>Mem\<close> is exact for every access of at least one byte whose
  end does not wrap: inside the array the store replaces exactly these bytes and the load
  returns them, outside it both are refused with \<open>FB_OUT_OF_RANGE\<close> and the device is
  unchanged; memory out of bounds is never touched.
\<close>

theorem mem_access_bounds:
  assumes "mem_wf m" and "bs \<noteq> []" and "unat a + length bs < 2 ^ 64"
  shows "mem_store m a bs =
           (if unat a + length bs \<le> length (mem m)
            then Inr (FB_SUCCESS, m\<lparr>mem := take (unat a) (mem m) @ bs @ drop (unat a + length bs) (mem m)\<rparr>)
            else Inr (FB_OUT_OF_RANGE, m))
       \<and> mem_load m a (of_nat (length bs)) =
           (if unat a + length bs \<le> length (mem m)
            then Inr (FB_SUCCESS, Some (take (length bs) (drop (unat a) (mem m))), m)
            else Inr (FB_OUT_OF_RANGE, None, m))"
proof -
  have "unat (of_nat (length bs) :: u64) = length bs"
    using assms(3) by (simp add: unat_of_nat_small)
  then show ?thesis
    using mem_in_range[OF assms(1) _ assms(3)] assms(2)
    by (simp add: mem_store_def mem_write_def mem_load_def mem_read_def)
qed

theorem mem_access_bounds_witness:
  "mem_store (mem_new [0, 0, 0, 0] None) 1 [7, 8]
     = Inr (FB_SUCCESS, \<lparr>mem = [0, 7, 8, 0], memSize = 4\<rparr>)
   \<and> mem_load (mem_new [0, 0, 0, 0] None) 3 2 = Inr (FB_OUT_OF_RANGE, None, mem_new [0, 0, 0, 0] None)"
  using mem_access_bounds [of "mem_new [0, 0, 0, 0] None" "[7, 8]" 1]
    mem_access_bounds [of "mem_new [0, 0, 0, 0] None" "[7, 8]" 3]
  by (simp add: mem_wf_def mem_new_def)

text \<open>
  Outside that range the check is not enough: the sum \<open>begin_addr + len - 1\<close> wraps, so
  a two byte access at the last address of the 64-bit space passes it and leaves the array.
\<close>

theorem mem_wrap_out_of_bounds:
  "0 < memSize m \<Longrightarrow> mem_wf m \<Longrightarrow> memSize m < - 1 \<Longrightarrow>
     mem_load m (- 1) 2 = Inl Undefined \<and> mem_store m (- 1) [x, y] = Inl Undefined"
  by (simp add: mem_load_def mem_store_def mem_read_def mem_write_def mem_wf_def word_less_nat_alt)

theorem mem_wrap_out_of_bounds_witness:
  "mem_load (mem_new [0, 0, 0, 0] None) (- 1) 2 = Inl Undefined"
  using mem_wrap_out_of_bounds [of "mem_new [0, 0, 0, 0] None"]
  by (simp add: mem_wf_def mem_new_def)

end
