(* ===== verification/AddrBus.thy ===== *)
theory AddrBus
  imports DevIf
begin

text \<open>
  The system bus \<open>AddrBus\<close> of \<open>include/sdk/base/AddrBus.hpp\<close>: main memory, checked first, and
  the devices in a \<open>std::map\<close> from base address to device handle, searched with
  \<open>upper_bound\<close>. The device objects are shared with the rest of the system (the interrupt
  controllers are ticked, the UART is fed), so the bus holds handles and the objects live in a
  store \<open>'h\<close> that is passed along; \<open>vt\<close> gives the virtual functions behind a handle.
\<close>

section \<open>The sorted map of devices\<close>

text \<open>\<open>m[k] = v\<close> of a \<open>std::map\<close>, which keeps its entries in increasing key order.\<close>

fun map_assign :: "u64 \<Rightarrow> 'k \<Rightarrow> (u64 \<times> 'k) list \<Rightarrow> (u64 \<times> 'k) list" where
  "map_assign k v [] = [(k, v)]"
| "map_assign k v ((k', v') # m) =
     (if k < k' then (k, v) # (k', v') # m
      else if k = k' then (k, v) # m
      else (k', v') # map_assign k v m)"

text \<open>
  The entry before \<open>upper_bound(a)\<close>: the last of the entries with a key not above \<open>a\<close>, if there
  is any.
\<close>

definition before_upper_bound :: "u64 \<Rightarrow> (u64 \<times> 'k) list \<Rightarrow> (u64 \<times> 'k) option" where
  "before_upper_bound a m =
     (case takeWhile (\<lambda>(k, _). k \<le> a) m of [] \<Rightarrow> None | x # xs \<Rightarrow> Some (last (x # xs)))"

definition keys_sorted :: "(u64 \<times> 'k) list \<Rightarrow> bool" where
  "keys_sorted m \<longleftrightarrow> sorted_wrt (<) (map fst m)"

lemma map_assign_keys: "fst ` set (map_assign k v m) = insert k (fst ` set m)"
  by (induction k v m rule: map_assign.induct) auto

lemma map_assign_sorted: "keys_sorted m \<Longrightarrow> keys_sorted (map_assign k v m)"
proof (induction k v m rule: map_assign.induct)
  case (2 k v k' v' m)
  have "\<And>x. x \<in> set (map_assign k v m) \<Longrightarrow> fst x = k \<or> x \<in> set m \<or> fst x \<in> fst ` set m"
    using map_assign_keys[of k v m] by force
  with 2 show ?case
    using map_assign_keys[of k v m] by (auto simp: keys_sorted_def)
qed (simp add: keys_sorted_def)

lemma map_assign_set:
  "keys_sorted m \<Longrightarrow> set (map_assign k v m) = insert (k, v) {e \<in> set m. fst e \<noteq> k}"
  by (induction k v m rule: map_assign.induct) (auto simp: keys_sorted_def)

lemma before_upper_bound_Nil [simp]: "before_upper_bound a [] = None"
  by (simp add: before_upper_bound_def)

lemma before_upper_bound_Cons:
  "before_upper_bound a ((k, v) # m) =
     (if k \<le> a then (case before_upper_bound a m of None \<Rightarrow> Some (k, v) | Some e \<Rightarrow> Some e) else None)"
  by (auto simp: before_upper_bound_def split: list.splits)

lemma before_upper_bound_None:
  "keys_sorted m \<Longrightarrow> before_upper_bound a m = None \<longleftrightarrow> (\<forall>e \<in> set m. a < fst e)"
  by (cases m) (force simp: before_upper_bound_Cons keys_sorted_def not_le split: option.splits if_splits)+

lemma before_upper_bound_Some:
  "keys_sorted m \<Longrightarrow> before_upper_bound a m = Some e \<Longrightarrow>
     e \<in> set m \<and> fst e \<le> a \<and> (\<forall>e' \<in> set m. fst e' \<le> a \<longrightarrow> fst e' \<le> fst e)"
proof (induction m)
  case (Cons x m)
  obtain k v where x: "x = (k, v)" by (cases x)
  have s: "keys_sorted m" and lt: "\<forall>e' \<in> set m. k < fst e'"
    using Cons.prems(1) x by (auto simp: keys_sorted_def)
  show ?case
  proof (cases "before_upper_bound a m")
    case None
    with Cons.prems(2) x have "e = (k, v)" "k \<le> a"
      by (auto simp: before_upper_bound_Cons split: if_splits)
    moreover have "\<forall>e' \<in> set m. a < fst e'"
      using None before_upper_bound_None[OF s] by blast
    ultimately show ?thesis using x by fastforce
  next
    case (Some e')
    with Cons.prems(2) x have "e' = e" by (auto simp: before_upper_bound_Cons split: if_splits)
    with Some Cons.IH[OF s] have "e \<in> set m \<and> fst e \<le> a \<and> (\<forall>e' \<in> set m. fst e' \<le> a \<longrightarrow> fst e' \<le> fst e)"
      by blast
    with lt x show ?thesis by fastforce
  qed
qed simp

section \<open>The bus\<close>

record 'k addr_bus = slave_atomic +
  mainMem :: "u8 list option"
  memBeginAddr :: u64
  memEndAddr :: u64
  devices :: "(u64 \<times> 'k) list"

definition addrbus_new :: "'k addr_bus" where
  "addrbus_new = slave_atomic.extend no_reservation
     (addr_bus.fields None 0 0 [])"

definition addDev :: "'k addr_bus \<Rightarrow> 'k \<Rightarrow> u64 \<Rightarrow> 'k addr_bus" where
  "addDev b io_handle begin_addr = b\<lparr>devices := map_assign begin_addr io_handle (devices b)\<rparr>"

text \<open>
  \<open>setMem\<close> allocates \<open>main_mem_size\<close> bytes, whose contents are those of \<open>junk\<close>, and copies
  the initial image over the beginning, cut to the size of the memory.
\<close>

definition setMem :: "'k addr_bus \<Rightarrow> u64 \<Rightarrow> u8 list \<Rightarrow> u8 list option \<Rightarrow> 'k addr_bus" where
  "setMem b begin_addr junk init =
     (let file = (case init of None \<Rightarrow> [] | Some f \<Rightarrow> take (min (length junk) (length f)) f)
      in b\<lparr>mainMem := Some (file @ drop (length file) junk), memBeginAddr := begin_addr,
           memEndAddr := begin_addr + of_nat (length junk)\<rparr>)"

definition findDev :: "'k addr_bus \<Rightarrow> u64 \<Rightarrow> (u64 \<times> 'k) option" where
  "findDev b addr = before_upper_bound addr (devices b)"

definition in_main_mem :: "'k addr_bus \<Rightarrow> u64 \<Rightarrow> u8 list option" where
  "in_main_mem b addr =
     (case mainMem b of None \<Rightarrow> None
      | Some m \<Rightarrow> if memBeginAddr b \<le> addr \<and> addr \<le> memEndAddr b then Some m else None)"

definition addrbus_load :: "('k \<Rightarrow> 'h slave_io) \<Rightarrow> ('k addr_bus \<times> 'h) load_fn" where
  "addrbus_load vt st begin_addr len =
     (let (b, h) = st in
      case in_main_mem b begin_addr of
        Some m \<Rightarrow> bnd (mem_read m (unat (begin_addr - memBeginAddr b)) (unat len))
                    (\<lambda>bs. Inr (FB_SUCCESS, Some bs, (b, h)))
      | None \<Rightarrow>
          (case before_upper_bound begin_addr (devices b) of
             None \<Rightarrow> Inr (FB_DEV_NOT_FOUND, None, (b, h))
           | Some (base, k) \<Rightarrow>
               bnd (io_load (vt k) h (begin_addr - base) len)
                 (\<lambda>(fb, buf, h'). Inr (fb, buf, (b, h')))))"

definition kill_reservation :: "'k addr_bus \<Rightarrow> u64 \<Rightarrow> u64 \<Rightarrow> 'k addr_bus" where
  "kill_reservation b begin_addr len =
     (if reservationValid b \<and> begin_addr \<le> reserveBeginAddr b
         \<and> reserveBeginAddr b + reserveLen b \<le> begin_addr + len
      then b\<lparr>reservationValid := False\<rparr> else b)"

definition addrbus_store :: "('k \<Rightarrow> 'h slave_io) \<Rightarrow> ('k addr_bus \<times> 'h) store_fn" where
  "addrbus_store vt st begin_addr bs =
     (let (b0, h) = st; b = kill_reservation b0 begin_addr (of_nat (length bs)) in
      case in_main_mem b begin_addr of
        Some m \<Rightarrow> bnd (mem_write m (unat (begin_addr - memBeginAddr b)) bs)
                    (\<lambda>m'. Inr (FB_SUCCESS, (b\<lparr>mainMem := Some m'\<rparr>, h)))
      | None \<Rightarrow>
          (case before_upper_bound begin_addr (devices b) of
             None \<Rightarrow> Inr (FB_DEV_NOT_FOUND, (b, h))
           | Some (base, k) \<Rightarrow>
               bnd (io_store (vt k) h (begin_addr - base) bs)
                 (\<lambda>(fb, h'). Inr (fb, (b, h')))))"

definition addrbus_io :: "('k \<Rightarrow> 'h slave_io) \<Rightarrow> ('k addr_bus \<times> 'h) slave_atomic_io" where
  "addrbus_io vt =
     \<lparr>io_load = addrbus_load vt, io_store = addrbus_store vt,
      io_reserve = (\<lambda>(b, h) a n hart. (reserve b a n hart, h)),
      io_check = (\<lambda>(b, h) a n hart. (let (ok, b') = check b a n hart in (ok, (b', h))))\<rparr>"

definition bus_wf :: "'k addr_bus \<Rightarrow> bool" where
  "bus_wf b \<longleftrightarrow> keys_sorted (devices b) \<and>
     (case mainMem b of None \<Rightarrow> True
      | Some m \<Rightarrow> unat (memBeginAddr b) + length m < 2 ^ 64
                  \<and> memEndAddr b = memBeginAddr b + of_nat (length m))"

lemma kill_reservation_simps [simp]:
  "mainMem (kill_reservation b a n) = mainMem b"
  "memBeginAddr (kill_reservation b a n) = memBeginAddr b"
  "memEndAddr (kill_reservation b a n) = memEndAddr b"
  "devices (kill_reservation b a n) = devices b"
  "in_main_mem (kill_reservation b a n) x = in_main_mem b x"
  by (simp_all add: kill_reservation_def in_main_mem_def split: option.splits)

lemma addrbus_new_wf: "bus_wf addrbus_new"
  by (simp add: bus_wf_def addrbus_new_def keys_sorted_def addr_bus.defs slave_atomic.defs)

lemma addDev_wf: "bus_wf b \<Longrightarrow> bus_wf (addDev b k a)"
  by (auto simp: bus_wf_def addDev_def map_assign_sorted split: option.splits)

lemma setMem_wf: "bus_wf b \<Longrightarrow> unat a + length junk < 2 ^ 64 \<Longrightarrow> bus_wf (setMem b a junk init)"
  by (auto simp: bus_wf_def setMem_def Let_def min_def split: option.splits)

lemma addrbus_load_bus: "addrbus_load vt (b, h) a n = Inr (fb, buf, (b', h')) \<Longrightarrow> b' = b"
  by (auto simp: addrbus_load_def bnd_eq_Inr split: option.splits prod.splits)

lemma bus_wf_update:
  "bus_wf b \<Longrightarrow> mainMem b = Some m \<Longrightarrow> length m' = length m \<Longrightarrow> bus_wf (b\<lparr>mainMem := Some m'\<rparr>)"
  by (simp add: bus_wf_def)

lemma bus_wf_kill: "bus_wf b \<Longrightarrow> bus_wf (kill_reservation b a n)"
  by (simp add: bus_wf_def split: option.splits)

lemma in_main_mem_Some: "in_main_mem b a = Some m \<Longrightarrow> mainMem b = Some m"
  by (auto simp: in_main_mem_def split: option.splits if_splits)

lemma addrbus_store_wf: "bus_wf b \<Longrightarrow> addrbus_store vt (b, h) a bs = Inr (fb, (b', h')) \<Longrightarrow> bus_wf b'"
  by (auto simp: addrbus_store_def Let_def bnd_eq_Inr bus_wf_kill dest!: in_main_mem_Some
      split: option.splits prod.splits
      intro: bus_wf_update[OF bus_wf_kill] mem_write_length)


text \<open>Whatever the devices behind the handles keep, the bus in front of them keeps.\<close>

locale device_family =
  fixes vt :: "'k \<Rightarrow> 'h slave_io" and wf :: "'h \<Rightarrow> bool"
  assumes device: "slave (io_load (vt k)) (io_store (vt k)) wf"
begin

lemma bus_load_wf:
  assumes "wf h" and "addrbus_load vt (b, h) a n = Inr (fb, buf, (b', h'))"
  shows "wf h'"
  using assms slave.load_wf[OF device]
  by (auto simp: addrbus_load_def bnd_eq_Inr split: option.splits prod.splits)

lemma bus_load_length:
  assumes "wf h" and "addrbus_load vt (b, h) a n = Inr (fb, Some bs, (b', h'))"
  shows "length bs = unat n"
  using assms slave.load_length[OF device]
  by (auto simp: addrbus_load_def bnd_eq_Inr dest: mem_read_length split: option.splits prod.splits)

lemma bus_store_wf:
  assumes "wf h" and "addrbus_store vt (b, h) a bs = Inr (fb, (b', h'))"
  shows "wf h'"
  using assms slave.store_wf[OF device]
  by (auto simp: addrbus_store_def Let_def bnd_eq_Inr split: option.splits prod.splits)

end

sublocale device_family \<subseteq> bus: slave "addrbus_load vt" "addrbus_store vt" "\<lambda>(b, h). bus_wf b \<and> wf h"
proof unfold_locales
  fix s s' and a n fb b
  assume "case s of (b, h) \<Rightarrow> bus_wf b \<and> wf h" "addrbus_load vt s a n = Inr (fb, b, s')"
  then show "case s' of (b, h) \<Rightarrow> bus_wf b \<and> wf h"
    using bus_load_wf addrbus_load_bus by (cases s; cases s') fastforce
next
  fix s s' and a fb bs
  assume "case s of (b, h) \<Rightarrow> bus_wf b \<and> wf h" "addrbus_store vt s a bs = Inr (fb, s')"
  then show "case s' of (b, h) \<Rightarrow> bus_wf b \<and> wf h"
    using bus_store_wf addrbus_store_wf by (cases s; cases s') fastforce
next
  fix s s' and a n fb bs
  assume "case s of (b, h) \<Rightarrow> bus_wf b \<and> wf h" "addrbus_load vt s a n = Inr (fb, Some bs, s')"
  then show "length bs = unat n"
    using bus_load_length by (cases s; cases s') fastforce
qed

text \<open>The reservation that the bus holds.\<close>

definition bus_reserved :: "'k addr_bus \<times> 'h \<Rightarrow> (u64 \<times> u64 \<times> u64) option" where
  "bus_reserved st = (let (b, h) = st in
     if reservationValid b then Some (reserveBeginAddr b, reserveLen b, reserveForHart b) else None)"

lemma bus_reserved_store:
  assumes "addrbus_store vt (b, h) a bs = Inr (fb, (b', h'))"
  shows "bus_reserved (b', h') = bus_reserved (b, h) \<or> bus_reserved (b', h') = None"
proof -
  have "bus_reserved (b', h') = bus_reserved (kill_reservation b a (of_nat (length bs)), h)"
    using assms by (auto simp: addrbus_store_def Let_def bnd_eq_Inr bus_reserved_def
        split: option.splits prod.splits)
  then show ?thesis by (simp add: bus_reserved_def kill_reservation_def)
qed

definition bus_unreserved :: "'k addr_bus \<times> 'h \<Rightarrow> 'k addr_bus \<times> 'h" where
  "bus_unreserved st = (let (b, h) = st in (b\<lparr>reservationValid := False\<rparr>, h))"

interpretation ab: atomic_slave "addrbus_io vt" bus_reserved bus_unreserved for vt
proof
  fix b :: "'a addr_bus \<times> 'b" and a n h
  show "bus_reserved (io_reserve (addrbus_io vt) b a n h) = Some (a, n, h)"
    by (cases b) (simp add: addrbus_io_def bus_reserved_def reserve_def)
  show "io_check (addrbus_io vt) b a n h = (bus_reserved b = Some (a, n, h), bus_unreserved b)"
    by (cases b) (auto simp: addrbus_io_def bus_reserved_def bus_unreserved_def check_def)
  show "bus_reserved (bus_unreserved b) = None"
    by (cases b) (simp add: bus_reserved_def bus_unreserved_def)
  assume "bus_reserved b = None"
  then show "bus_unreserved b = b"
    by (cases b) (simp add: bus_reserved_def bus_unreserved_def split: if_splits)
next
  fix b b' :: "'a addr_bus \<times> 'b" and a n fb x
  assume "io_load (addrbus_io vt) b a n = Inr (fb, x, b')"
  then show "bus_reserved b' = bus_reserved b"
    by (cases b; cases b') (auto simp: addrbus_io_def bus_reserved_def dest!: addrbus_load_bus)
next
  fix b b' :: "'a addr_bus \<times> 'b" and a fb bs
  assume "io_store (addrbus_io vt) b a bs = Inr (fb, b')"
  then show "bus_reserved b' = bus_reserved b \<or> bus_reserved b' = None"
    by (cases b; cases b') (auto simp: addrbus_io_def dest!: bus_reserved_store)
qed

section \<open>Properties of the bus\<close>

text \<open>
  Device lookup is exact: on a well-formed bus \<open>findDev\<close> returns an entry exactly when it
  is registered with a base not above the address and no registered base lies between the two, and it finds nothing
  exactly when every base is above the address; registering a device makes it the answer at its base.
\<close>

theorem findDev_greatest_base:
  assumes "bus_wf b"
  shows "(findDev b a = Some e \<longleftrightarrow>
            e \<in> set (devices b) \<and> fst e \<le> a \<and> (\<forall>e' \<in> set (devices b). fst e' \<le> a \<longrightarrow> fst e' \<le> fst e))
       \<and> (findDev b a = None \<longleftrightarrow> (\<forall>e' \<in> set (devices b). a < fst e'))
       \<and> findDev (addDev b k a) a = Some (a, k)"
proof -
  have s: "keys_sorted (devices b)" using assms by (simp add: bus_wf_def)
  \<comment> \<open>the keys are distinct\<close>
  have distinct: "e \<in> set m \<Longrightarrow> e' \<in> set m \<Longrightarrow> fst e = fst e' \<Longrightarrow> e = e'"
    if "keys_sorted m" for m and e e' :: "u64 \<times> 'a"
    using that by (induction m) (auto simp: keys_sorted_def)
  have some: "before_upper_bound a m = Some e \<longleftrightarrow>
      e \<in> set m \<and> fst e \<le> a \<and> (\<forall>e' \<in> set m. fst e' \<le> a \<longrightarrow> fst e' \<le> fst e)"
    if m: "keys_sorted m" for m and e :: "u64 \<times> 'a"
  proof
    assume e: "e \<in> set m \<and> fst e \<le> a \<and> (\<forall>e' \<in> set m. fst e' \<le> a \<longrightarrow> fst e' \<le> fst e)"
    then obtain x where x: "before_upper_bound a m = Some x"
      using before_upper_bound_None[OF m] by (cases "before_upper_bound a m") auto
    with before_upper_bound_Some[OF m x] e distinct[OF m] show "before_upper_bound a m = Some e"
      by (metis dual_order.antisym)
  qed (use before_upper_bound_Some[OF m] in blast)
  have "before_upper_bound a (map_assign a k (devices b)) = Some (a, k)"
    unfolding some[OF map_assign_sorted[OF s]] map_assign_set[OF s] by simp
  then have "findDev (addDev b k a) a = Some (a, k)"
    by (simp add: findDev_def addDev_def)
  then show ?thesis
    unfolding findDev_def by (intro conjI some[OF s] before_upper_bound_None[OF s])
qed

theorem findDev_greatest_base_witness:
  "findDev (addDev (addDev addrbus_new ''plic'' 0xc000000) ''clint'' 0x2000000) 0x2000000
     = Some (0x2000000, ''clint'')"
proof -
  have "bus_wf (addDev addrbus_new ''plic'' 0xc000000)"
    by (intro addDev_wf addrbus_new_wf)
  then show ?thesis
    by (rule findDev_greatest_base [THEN conjunct2, THEN conjunct2])
qed

lemma main_mem_index:
  assumes "bus_wf b" and "mainMem b = Some m" and "memBeginAddr b \<le> a"
    and "unat (a - memBeginAddr b) \<le> length m"
  shows "in_main_mem b a = Some m"
proof -
  have m: "unat (memBeginAddr b) + length m < 2 ^ 64" "memEndAddr b = memBeginAddr b + of_nat (length m)"
    using assms(1,2) by (auto simp: bus_wf_def)
  then have "unat (memEndAddr b) = unat (memBeginAddr b) + length m"
    by (simp add: unat_word_ariths unat_of_nat_small)
  moreover have "unat (a - memBeginAddr b) = unat a - unat (memBeginAddr b)"
    using assms(3) by (simp add: unat_sub)
  ultimately have "a \<le> memEndAddr b"
    using assms(3,4) by (simp add: word_le_nat_alt)
  with assms(2,3) show ?thesis by (simp add: in_main_mem_def)
qed

text \<open>
  Main memory is a memory: a store that lies inside it succeeds without touching any
  device, the next load of the same range returns the stored bytes, and a load of a range that does
  not overlap returns what it returned before.
\<close>

theorem addrbus_main_mem_roundtrip:
  assumes "bus_wf b" and "mainMem b = Some m" and "memBeginAddr b \<le> a"
    and fits: "unat (a - memBeginAddr b) + length bs \<le> length m"
  shows "\<exists>b'. addrbus_store vt (b, h) a bs = Inr (FB_SUCCESS, (b', h))
       \<and> addrbus_load vt (b', h) a (of_nat (length bs)) = Inr (FB_SUCCESS, Some bs, (b', h))
       \<and> (\<forall>c n. in_main_mem b c = Some m \<longrightarrow> unat n < 2 ^ 64 \<longrightarrow>
             (let i = unat (a - memBeginAddr b); j = unat (c - memBeginAddr b) in
               j + unat n \<le> i \<or> i + length bs \<le> j) \<longrightarrow>
             map_sum id (\<lambda>(fb, buf, _). (fb, buf)) (addrbus_load vt (b', h) c n)
               = map_sum id (\<lambda>(fb, buf, _). (fb, buf)) (addrbus_load vt (b, h) c n))"
proof -
  let ?i = "unat (a - memBeginAddr b)"
  have mm: "in_main_mem b a = Some m"
    using main_mem_index[OF assms(1-3)] fits by simp
  obtain m' where w: "mem_write m ?i bs = Inr m'"
    using fits by (simp add: mem_write_def)
  let ?b = "(kill_reservation b a (of_nat (length bs)))\<lparr>mainMem := Some m'\<rparr>"
  have "length bs < 2 ^ 64"
    using fits assms(1,2) by (auto simp: bus_wf_def)
  then have len: "unat (of_nat (length bs) :: u64) = length bs"
    by (simp add: unat_of_nat_small)
  have mm': "in_main_mem ?b c = (case in_main_mem b c of None \<Rightarrow> None | Some _ \<Rightarrow> Some m')" for c
    using assms(2) by (auto simp: in_main_mem_def)
  have "addrbus_store vt (b, h) a bs = Inr (FB_SUCCESS, (?b, h))"
    using mm w by (simp add: addrbus_store_def Let_def)
  moreover have "addrbus_load vt (?b, h) a (of_nat (length bs)) = Inr (FB_SUCCESS, Some bs, (?b, h))"
    using mm len mem_read_write_same[OF w] by (simp add: addrbus_load_def mm')
  moreover have "map_sum id (\<lambda>(fb, buf, _). (fb, buf)) (addrbus_load vt (?b, h) c n)
      = map_sum id (\<lambda>(fb, buf, _). (fb, buf)) (addrbus_load vt (b, h) c n)"
    if "in_main_mem b c = Some m" "unat (c - memBeginAddr b) + unat n \<le> ?i
        \<or> ?i + length bs \<le> unat (c - memBeginAddr b)" for c n
    using that mem_read_write_other[OF w that(2)]
    by (cases "mem_read m (unat (c - memBeginAddr b)) (unat n)") (simp_all add: addrbus_load_def mm')
  ultimately show ?thesis by (metis (no_types, lifting))
qed

theorem addrbus_main_mem_roundtrip_witness:
  "\<exists>b'. addrbus_store (\<lambda>_ :: unit. undefined) (setMem addrbus_new 0x80000000 [0, 0, 0, 0] None, ()) 0x80000001 [5, 6]
         = Inr (FB_SUCCESS, (b', ()))
      \<and> addrbus_load (\<lambda>_ :: unit. undefined) (b', ()) 0x80000001 2 = Inr (FB_SUCCESS, Some [5, 6], (b', ()))"
proof -
  let ?b = "setMem addrbus_new 0x80000000 [0, 0, 0, 0] None :: unit addr_bus"
  have "bus_wf ?b" by (rule setMem_wf[OF addrbus_new_wf]) simp
  then show ?thesis
    using addrbus_main_mem_roundtrip [of ?b "[0, 0, 0, 0]" "0x80000001" "[5, 6]"
        "\<lambda>_. undefined" "()"]
    by (simp add: setMem_def) blast
qed

text \<open>
  Reservations on the bus: between a load-reserved and its store-conditional, one store
  makes the check fail exactly when the stored range covers the whole reserved range. A store that
  overlaps the range only in part leaves the reservation valid.
\<close>

theorem addrbus_reservation_killed_by_cover:
  assumes "addrbus_store vt (reserve b a n hart, h) c bs = Inr (fb, st)"
  shows "fst (io_check (addrbus_io vt) st a n hart)
           \<longleftrightarrow> \<not> (c \<le> a \<and> a + n \<le> c + of_nat (length bs))"
proof -
  obtain b' h' where st: "st = (b', h')" by (cases st)
  have "slave_atomic.truncate b' = slave_atomic.truncate (kill_reservation (reserve b a n hart) c (of_nat (length bs)))"
    using assms st by (auto simp: addrbus_store_def Let_def bnd_eq_Inr slave_atomic.defs
        split: option.splits prod.splits)
  then have "reservationValid b' = reservationValid (kill_reservation (reserve b a n hart) c (of_nat (length bs)))"
    and "reserveForHart b' = hart" "reserveBeginAddr b' = a" "reserveLen b' = n"
    by (auto simp: slave_atomic.defs kill_reservation_def reserve_def split: if_splits)
  then show ?thesis
    using st by (simp add: addrbus_io_def check_def kill_reservation_def reserve_def)
qed

theorem addrbus_reservation_killed_by_cover_witness:
  "\<exists>st. addrbus_store (\<lambda>_ :: unit. undefined) (reserve (setMem addrbus_new 0 [1, 2, 3, 4, 5, 6, 7, 8] None) 0 8 3, ()) 4 [9, 9, 9, 9]
          = Inr (FB_SUCCESS, st)
      \<and> fst (io_check (addrbus_io (\<lambda>_ :: unit. undefined)) st 0 8 3)"
proof -
  obtain st where st: "addrbus_store (\<lambda>_ :: unit. undefined) (reserve (setMem addrbus_new 0 [1, 2, 3, 4, 5, 6, 7, 8] None) 0 8 3, ()) 4 [9, 9, 9, 9]
          = Inr (FB_SUCCESS, st)"
    by (simp add: addrbus_store_def setMem_def Let_def in_main_mem_def reserve_def kill_reservation_def
        mem_write_def)
  then show ?thesis using addrbus_reservation_killed_by_cover [OF st] by auto
qed

text \<open>
  The address one past main memory still counts as main memory, so every load or store of
  at least one byte there leaves the array, whatever device is mapped at that address.
\<close>

theorem addrbus_end_out_of_bounds:
  assumes "bus_wf b" and "mainMem b = Some m" and "0 < n" and "bs \<noteq> []"
  shows "addrbus_load vt (b, h) (memEndAddr b) n = Inl Undefined
       \<and> addrbus_store vt (b, h) (memEndAddr b) bs = Inl Undefined"
proof -
  have m: "unat (memBeginAddr b) + length m < 2 ^ 64" "memEndAddr b = memBeginAddr b + of_nat (length m)"
    using assms(1,2) by (auto simp: bus_wf_def)
  then have "unat (memEndAddr b - memBeginAddr b) = length m"
    by (simp add: unat_of_nat_small)
  moreover have "memBeginAddr b \<le> memEndAddr b"
    using m by (simp add: word_le_nat_alt unat_word_ariths unat_of_nat_small)
  ultimately show ?thesis
    using assms(2-4) main_mem_index[OF assms(1,2)]
    by (auto simp: addrbus_load_def addrbus_store_def Let_def mem_read_def mem_write_def
        word_less_nat_alt)
qed

theorem addrbus_end_out_of_bounds_witness:
  "addrbus_load (\<lambda>_ :: unit. undefined) (addDev (setMem addrbus_new 0x100 [1, 2, 3, 4] None) () 0x104, ()) 0x104 1
     = Inl Undefined"
proof -
  let ?b = "addDev (setMem addrbus_new 0x100 [1, 2, 3, 4] None) () 0x104"
  have "bus_wf ?b" by (intro addDev_wf setMem_wf addrbus_new_wf) simp
  then show ?thesis
    using addrbus_end_out_of_bounds [of ?b "[1, 2, 3, 4]" 1 "[0]" "\<lambda>_. undefined" "()"]
    by (simp add: setMem_def addDev_def)
qed

end
