(* ===== verification/Clint.thy ===== *)
theory Clint
  imports DevIf
begin

text \<open>
  The core-local interruptor \<open>CLInt\<close> of \<open>modules/platform/rvcore_simple/include/CLInt.h\<close>: the
  registers \<open>mtime\<close>, \<open>mtimecmp[nr_hart]\<close> and \<open>msip[nr_hart]\<close>, accessed as bytes, and the
  \<open>tick\<close> that drives the software and timer interrupt lines of each hart.
\<close>

record clint =
  nr_hart :: nat
  mtime :: u64
  mtimecmp :: "u64 list"
  msip :: "u32 list"
  clint_intContexts :: "nat option list"

text \<open>\<open>intContexts\<close> is not initialised: \<open>None\<close> stands for the pointer nobody has set yet.\<close>

definition clint_new :: "nat \<Rightarrow> clint" where
  "clint_new n =
     \<lparr>nr_hart = n, mtime = 0, mtimecmp = replicate n 0, msip = replicate n 0,
      clint_intContexts = replicate n None\<rparr>"

definition do_read :: "clint \<Rightarrow> u64 \<Rightarrow> u64 \<Rightarrow> u8 list option res" where
  "do_read c start_addr len =
     (if 0x4000 \<le> start_addr then
        if 0xbff8 \<le> start_addr \<and> start_addr + len \<le> 0xc000 then
          map_sum id Some (mem_read (bytes_of 8 (mtime c)) (unat (start_addr - 0xbff8)) (unat len))
        else if 0x4000 \<le> start_addr \<and> start_addr + len \<le> 0x4000 + 8 * of_nat (nr_hart c) then
          map_sum id Some (mem_read (bytes_of_list 8 (mtimecmp c)) (unat (start_addr - 0x4000)) (unat len))
        else Inr None
      else if start_addr + len \<le> 4 * of_nat (nr_hart c) then
        map_sum id Some (mem_read (bytes_of_list 4 (msip c)) (unat start_addr) (unat len))
      else Inr None)"

definition do_write :: "clint \<Rightarrow> u64 \<Rightarrow> u8 list \<Rightarrow> (bool \<times> clint) res" where
  "do_write c start_addr buffer =
     (let len = of_nat (length buffer) in
      if 0x4000 \<le> start_addr then
        if 0xbff8 \<le> start_addr \<and> start_addr + len \<le> 0xc000 then
          bnd (mem_write (bytes_of 8 (mtime c)) (unat (start_addr - 0xbff8)) buffer)
            (\<lambda>bs. Inr (True, c\<lparr>mtime := word_of_bytes bs\<rparr>))
        else if 0x4000 \<le> start_addr \<and> start_addr + len \<le> 0x4000 + 8 * of_nat (nr_hart c) then
          bnd (mem_write (bytes_of_list 8 (mtimecmp c)) (unat (start_addr - 0x4000)) buffer)
            (\<lambda>bs. Inr (True, c\<lparr>mtimecmp := words_of_bytes 8 (nr_hart c) bs\<rparr>))
        else Inr (False, c)
      else if start_addr + len \<le> 4 * of_nat (nr_hart c) then
        bnd (mem_write (bytes_of_list 4 (msip c)) (unat start_addr) buffer)
          (\<lambda>bs. Inr (True, c\<lparr>msip := map (\<lambda>w. w AND 1) (words_of_bytes 4 (nr_hart c) bs)\<rparr>))
      else Inr (False, c))"

definition m_s_irq :: "clint \<Rightarrow> nat \<Rightarrow> bool res" where
  "m_s_irq c hart_id =
     (if nr_hart c \<le> hart_id then Inl AssertFail
      else bnd (arr_get (msip c) hart_id) (\<lambda>v. Inr (v AND 1 \<noteq> 0)))"

definition m_t_irq :: "clint \<Rightarrow> nat \<Rightarrow> bool res" where
  "m_t_irq c hart_id =
     (if nr_hart c \<le> hart_id then Inl AssertFail
      else bnd (arr_get (mtimecmp c) hart_id) (\<lambda>v. Inr (mtime c > v)))"

definition clint_load :: "clint load_fn" where
  "clint_load c begin_addr len =
     bnd (do_read c (begin_addr mod 0x10000) len)
       (\<lambda>r. case r of Some bs \<Rightarrow> Inr (FB_SUCCESS, Some bs, c) | None \<Rightarrow> Inr (FB_OUT_OF_RANGE, None, c))"

definition clint_store :: "clint store_fn" where
  "clint_store c begin_addr buffer =
     bnd (do_write c (begin_addr mod 0x10000) buffer)
       (\<lambda>(ok, c'). Inr (if ok then FB_SUCCESS else FB_OUT_OF_RANGE, c'))"

definition clint_setInt :: "clint \<Rightarrow> u32 \<Rightarrow> bool \<Rightarrow> clint res" where
  "clint_setInt c int_id triggered = Inl AssertFail"

definition clint_regIntContext :: "clint \<Rightarrow> nat \<Rightarrow> nat \<Rightarrow> clint res" where
  "clint_regIntContext c hart_id ptr =
     guard (hart_id < nr_hart c)
       (bnd (arr_set (clint_intContexts c) hart_id (Some ptr)) (\<lambda>ctxs. Inr (c\<lparr>clint_intContexts := ctxs\<rparr>)))"

definition clint_drive :: "clint \<Rightarrow> nat \<Rightarrow> irq_store \<Rightarrow> irq_store res" where
  "clint_drive c i w =
     bnd (arr_get (clint_intContexts c) i) (\<lambda>ctx.
       case ctx of None \<Rightarrow> Inl Undefined
       | Some p \<Rightarrow> bnd (m_s_irq c i) (\<lambda>s. bnd (m_t_irq c i) (\<lambda>t.
           Inr (w(Msip p := s, Mtip p := t)))))"

definition clint_tick :: "clint \<Rightarrow> irq_store \<Rightarrow> (clint \<times> irq_store) res" where
  "clint_tick c w =
     bnd (for_each (clint_drive c) [0..<nr_hart c] w) (\<lambda>w'. Inr (c\<lparr>mtime := mtime c + 1\<rparr>, w'))"

definition clint_wf :: "clint \<Rightarrow> bool" where
  "clint_wf c \<longleftrightarrow> length (mtimecmp c) = nr_hart c \<and> length (msip c) = nr_hart c
     \<and> length (clint_intContexts c) = nr_hart c \<and> nr_hart c < 2 ^ 10
     \<and> (\<forall>v \<in> set (msip c). v AND 1 = v)"

section \<open>Well-formedness\<close>

lemma clint_new_wf: "n < 2 ^ 10 \<Longrightarrow> clint_wf (clint_new n)"
  by (simp add: clint_wf_def clint_new_def)

lemma do_write_wf: "clint_wf c \<Longrightarrow> do_write c a bs = Inr (ok, c') \<Longrightarrow> clint_wf c' \<and> nr_hart c' = nr_hart c"
  by (auto simp: do_write_def Let_def bnd_eq_Inr clint_wf_def word_bw_assocs split: if_splits)

lemma clint_store_wf: "clint_wf c \<Longrightarrow> clint_store c a bs = Inr (fb, c') \<Longrightarrow> clint_wf c'"
  by (auto simp: clint_store_def bnd_eq_Inr dest: do_write_wf)

lemma clint_load_same: "clint_load c a n = Inr (fb, b, c') \<Longrightarrow> c' = c"
  by (auto simp: clint_load_def bnd_eq_Inr split: option.splits)

lemma map_sum_Some: "map_sum id Some m = Inr r \<longleftrightarrow> (\<exists>x. m = Inr x \<and> r = Some x)"
  by (cases m) auto

lemma clint_load_length: "clint_load c a n = Inr (fb, Some bs, c') \<Longrightarrow> length bs = unat n"
  by (auto simp: clint_load_def do_read_def bnd_eq_Inr map_sum_Some dest: mem_read_length
      split: option.splits if_splits)

interpretation cl: slave clint_load clint_store clint_wf
proof unfold_locales
  fix s s' a n fb b
  assume "clint_wf s" "clint_load s a n = Inr (fb, b, s')"
  then show "clint_wf s'" using clint_load_same by blast
qed (auto intro: clint_store_wf clint_load_length)

lemma clint_tick_wf: "clint_wf c \<Longrightarrow> clint_tick c w = Inr (c', w') \<Longrightarrow> clint_wf c'"
  by (auto simp: clint_tick_def bnd_eq_Inr clint_wf_def)

section \<open>Properties\<close>

text \<open>The interrupt lines after the harts of a list have been driven.\<close>

lemma clint_drive_in:
  assumes "clint_wf c" and "i < nr_hart c" and "clint_intContexts c ! i = Some p"
  shows "clint_drive c i w = Inr (w(Msip p := msip c ! i AND 1 \<noteq> 0, Mtip p := mtime c > mtimecmp c ! i))"
  using assms by (simp add: clint_drive_def clint_wf_def m_s_irq_def m_t_irq_def)

definition lines_driven :: "clint \<Rightarrow> (nat \<Rightarrow> nat) \<Rightarrow> nat \<Rightarrow> irq_store \<Rightarrow> irq_store \<Rightarrow> bool" where
  "lines_driven c p n w w' \<longleftrightarrow>
     (\<forall>i < n. w' (Msip (p i)) = (msip c ! i AND 1 \<noteq> 0) \<and> w' (Mtip (p i)) = (mtime c > mtimecmp c ! i))
     \<and> (\<forall>x. (\<forall>i < n. x \<noteq> Msip (p i) \<and> x \<noteq> Mtip (p i)) \<longrightarrow> w' x = w x)"

lemma clint_drive_upto:
  assumes "clint_wf c" and "inj_on p {..<nr_hart c}"
    and "\<And>i. i < nr_hart c \<Longrightarrow> clint_intContexts c ! i = Some (p i)"
  shows "n \<le> nr_hart c \<Longrightarrow> \<exists>w'. for_each (clint_drive c) [0..<n] w = Inr w' \<and> lines_driven c p n w w'"
proof (induction n)
  case (Suc n)
  then obtain w' where w': "for_each (clint_drive c) [0..<n] w = Inr w'" "lines_driven c p n w w'"
    by auto
  have "p i \<noteq> p n" if "i < n" for i
    using inj_onD[OF assms(2), of i n] that Suc.prems by auto
  then show ?case
    using Suc.prems w' clint_drive_in[OF assms(1) _ assms(3)]
    by (auto simp: for_each_append lines_driven_def less_Suc_eq)
qed (simp add: lines_driven_def)

lemma clint_tick_spec:
  assumes "clint_wf c" and "inj_on p {..<nr_hart c}"
    and "\<forall>i < nr_hart c. clint_intContexts c ! i = Some (p i)"
  shows "\<exists>w'. clint_tick c w = Inr (c\<lparr>mtime := mtime c + 1\<rparr>, w')
     \<and> (\<forall>i < nr_hart c. w' (Msip (p i)) = (msip c ! i = 1) \<and> w' (Mtip (p i)) = (mtime c > mtimecmp c ! i))
     \<and> (\<forall>x. (\<forall>i < nr_hart c. x \<noteq> Msip (p i) \<and> x \<noteq> Mtip (p i)) \<longrightarrow> w' x = w x)"
proof -
  obtain w' where w': "for_each (clint_drive c) [0..<nr_hart c] w = Inr w'" "lines_driven c p (nr_hart c) w w'"
    using clint_drive_upto[OF assms(1,2), of "nr_hart c" w] assms(3) by auto
  have "msip c ! i AND 1 = msip c ! i" if "i < nr_hart c" for i
    using assms(1) that by (auto simp: clint_wf_def)
  moreover have "(v :: u32) AND 1 = 0 \<or> v AND 1 = 1" for v
    by (simp add: and_one_eq mod_2_eq_odd)
  ultimately have "(msip c ! i AND 1 \<noteq> 0) = (msip c ! i = 1)" if "i < nr_hart c" for i
    using that by (metis zero_neq_one)
  with w' show ?thesis
    by (auto simp: clint_tick_def lines_driven_def)
qed

text \<open>
  One \<open>tick\<close> of a CLINT whose harts all have their own \<open>IntStatus\<close> returns, drives for
  each hart the software line with its \<open>msip\<close> bit and the timer line with \<open>mtime > mtimecmp\<close>, both
  taken before the tick, touches no other line, and advances \<open>mtime\<close> by one, modulo 2 to the 64.
\<close>

theorem clint_tick_lines:
  assumes "clint_wf c" and "inj_on p {..<nr_hart c}"
    and "\<forall>i < nr_hart c. clint_intContexts c ! i = Some (p i)"
  shows "\<exists>w'. clint_tick c w = Inr (c\<lparr>mtime := mtime c + 1\<rparr>, w')
     \<and> (\<forall>i < nr_hart c. w' (Msip (p i)) = (msip c ! i = 1) \<and> w' (Mtip (p i)) = (mtime c > mtimecmp c ! i))
     \<and> (\<forall>x. (\<forall>i < nr_hart c. x \<noteq> Msip (p i) \<and> x \<noteq> Mtip (p i)) \<longrightarrow> w' x = w x)"
  by (rule clint_tick_spec[OF assms])

theorem clint_tick_lines_witness:
  "\<exists>w'. clint_tick \<lparr>nr_hart = 2, mtime = 9, mtimecmp = [8, 9], msip = [0, 1],
             clint_intContexts = [Some 4, Some 5]\<rparr> (\<lambda>_. False)
         = Inr (\<lparr>nr_hart = 2, mtime = 10, mtimecmp = [8, 9], msip = [0, 1],
             clint_intContexts = [Some 4, Some 5]\<rparr>, w')
      \<and> w' (Mtip 4) \<and> \<not> w' (Mtip 5) \<and> w' (Msip 5)"
proof -
  let ?c = "\<lparr>nr_hart = 2, mtime = 9, mtimecmp = [8, 9], msip = [0, 1],
             clint_intContexts = [Some 4, Some 5]\<rparr>"
  have "clint_wf ?c" by (simp add: clint_wf_def)
  moreover have "inj_on (\<lambda>i. i + 4) {..<nr_hart ?c}" by (simp add: inj_on_def)
  moreover have "\<forall>i < nr_hart ?c. clint_intContexts ?c ! i = Some (i + 4)"
    by (simp add: less_2_cases_iff all_conj_distrib disj_imp nth_Cons' )
  ultimately obtain w' where "clint_tick ?c (\<lambda>_. False) = Inr (?c\<lparr>mtime := mtime ?c + 1\<rparr>, w')"
    and w': "\<forall>i < nr_hart ?c. w' (Msip (i + 4)) = (msip ?c ! i = 1) \<and> w' (Mtip (i + 4)) = (mtime ?c > mtimecmp ?c ! i)"
    using clint_tick_lines [of ?c "\<lambda>i. i + 4" "\<lambda>_. False"] by blast
  then show ?thesis using w'[rule_format, of 0] w'[rule_format, of 1] by auto
qed

text \<open>
  Programming the timer: an 8-byte store to the \<open>mtimecmp\<close> register of hart \<open>h\<close>, at any
  alias of the device window, sets exactly that register to the stored little-endian value, and reading it
  back returns the same bytes.
\<close>

theorem clint_mtimecmp_roundtrip:
  assumes "clint_wf c" and "h < nr_hart c" and "length bs = 8"
    and "a mod 0x10000 = 0x4000 + 8 * of_nat h"
  shows "clint_store c a bs = Inr (FB_SUCCESS, c\<lparr>mtimecmp := (mtimecmp c)[h := word_of_bytes bs]\<rparr>)
    \<and> clint_load (c\<lparr>mtimecmp := (mtimecmp c)[h := word_of_bytes bs]\<rparr>) a 8
        = Inr (FB_SUCCESS, Some bs, c\<lparr>mtimecmp := (mtimecmp c)[h := word_of_bytes bs]\<rparr>)"
proof -
  let ?a = "0x4000 + 8 * of_nat h :: u64"
  have n: "nr_hart c < 1024" and len: "length (mtimecmp c) = nr_hart c"
    using assms(1) by (auto simp: clint_wf_def)
  have h1: "unat (of_nat h :: u64) = h"
    using n assms(2) by (simp add: unat_of_nat_small)
  have h: "unat (8 * of_nat h :: u64) = 8 * h" and hn: "unat (of_nat (nr_hart c) :: u64) = nr_hart c"
    using n assms(2) by (auto simp: unat_word_ariths unat_of_nat_small)
  then have a: "unat ?a = 0x4000 + 8 * h"
    using n assms(2) by (auto simp: unat_word_ariths)
  have cmp: "\<not> 0xbff8 \<le> ?a" "0x4000 \<le> ?a" "?a + 8 \<le> 0x4000 + 8 * of_nat (nr_hart c)"
    using a h1 n assms(2) hn by (auto simp: word_le_nat_alt unat_word_ariths)
  have w: "mem_write (bytes_of_list 8 (mtimecmp c)) (8 * h) bs
      = Inr (bytes_of_list 8 ((mtimecmp c)[h := word_of_bytes bs]))"
    using assms(2,3) len bytes_of_list_update[of h "mtimecmp c" bs 8]
    by (simp add: mem_write_def algebra_simps)
  have r: "mem_read (bytes_of_list 8 ((mtimecmp c)[h := word_of_bytes bs])) (8 * h) 8 = Inr bs"
    using mem_read_write_same[OF w] assms(3) by simp
  have "words_of_bytes 8 (nr_hart c) (bytes_of_list 8 ((mtimecmp c)[h := word_of_bytes bs]))
      = (mtimecmp c)[h := word_of_bytes bs]"
    using words_of_bytes_of_list[of 8 "(mtimecmp c)[h := word_of_bytes bs]"] len by simp
  then show ?thesis
    using cmp h w r assms(3,4)
    by (simp add: clint_store_def clint_load_def do_write_def do_read_def)
qed

theorem clint_mtimecmp_roundtrip_witness:
  "clint_store (clint_new 2) 0x2004008 [1, 2, 0, 0, 0, 0, 0, 0]
     = Inr (FB_SUCCESS, (clint_new 2)\<lparr>mtimecmp := [0, 0x201]\<rparr>)"
  using clint_mtimecmp_roundtrip [of "clint_new 2" 1 "[1, 2, 0, 0, 0, 0, 0, 0]" "0x2004008"]
  by (simp add: clint_new_def clint_wf_def replicate_2)

end
