(* ===== verification/Plic.thy ===== *)
theory Plic
  imports DevIf
begin

text \<open>
  The platform interrupt controller \<open>PLIC\<close> of \<open>modules/platform/rvcore_simple/include/PLIC.h\<close>.
  The template parameters are the fields \<open>nr_source\<close> and \<open>nr_context\<close>. Source ids start at 1. The
  bit arrays hold 32 sources per word.
\<close>

record plic =
  nr_source :: nat
  nr_context :: nat
  priority :: "u32 list"
  pending :: "u32 list"
  enable :: "u32 list list"
  threshold :: "u32 list"
  claim :: "u32 list"
  claimed :: "u32 list"
  plic_intContexts :: "irq_wire option list"

definition bit_words :: "nat \<Rightarrow> nat" where
  "bit_words sources = (sources + 1 + 31) div 32"

definition plic_new :: "nat \<Rightarrow> nat \<Rightarrow> plic" where
  "plic_new ns nc =
     \<lparr>nr_source = ns, nr_context = nc, priority = replicate (ns + 1) 0,
      pending = replicate (bit_words ns) 0, enable = replicate nc (replicate (bit_words ns) 0),
      threshold = replicate nc 0, claim = replicate nc 0, claimed = replicate (bit_words ns) 0,
      plic_intContexts = replicate nc None\<rparr>"

text \<open>\<open>w |= 1u << (i % 32)\<close>, \<open>w &= ~(1u << (i % 32))\<close> and \<open>(w >> (i % 32)) & 1\<close> on the word that holds bit \<open>i\<close>.\<close>

definition bit_at :: "u32 list \<Rightarrow> nat \<Rightarrow> bool res" where
  "bit_at ws i = bnd (arr_get ws (i div 32)) (\<lambda>w. Inr (drop_bit (i mod 32) w AND 1 \<noteq> 0))"

definition bit_on :: "u32 list \<Rightarrow> nat \<Rightarrow> u32 list res" where
  "bit_on ws i = bnd (arr_get ws (i div 32)) (\<lambda>w. arr_set ws (i div 32) (w OR push_bit (i mod 32) 1))"

definition bit_off :: "u32 list \<Rightarrow> nat \<Rightarrow> u32 list res" where
  "bit_off ws i = bnd (arr_get ws (i div 32)) (\<lambda>w. arr_set ws (i div 32) (w AND NOT (push_bit (i mod 32) 1)))"

definition plic_setInt :: "plic \<Rightarrow> u32 \<Rightarrow> bool \<Rightarrow> plic res" where
  "plic_setInt p source_id fired =
     (if fired then bnd (bit_on (pending p) (unat source_id)) (\<lambda>ws. Inr (p\<lparr>pending := ws\<rparr>)) else Inr p)"

text \<open>The guard of the loop body of \<open>get_int\<close>, evaluated left to right as \<open>&&\<close> does.\<close>

definition eligible :: "plic \<Rightarrow> nat \<Rightarrow> nat \<Rightarrow> bool res" where
  "eligible p context_id i =
     bnd (arr_get (priority p) i) (\<lambda>prio. bnd (arr_get (threshold p) context_id) (\<lambda>th.
       if \<not> th \<le> prio then Inr False else
       bnd (bit_at (pending p) i) (\<lambda>pe. if \<not> pe then Inr False else
       bnd (arr_get (enable p) context_id) (\<lambda>en. bnd (bit_at en i) (\<lambda>e. if \<not> e then Inr False else
       bnd (bit_at (claimed p) i) (\<lambda>c. Inr (\<not> c)))))))"

text \<open>The loop keeps \<open>max_priority\<close> and \<open>max_priority_int\<close>.\<close>

definition get_int_body :: "plic \<Rightarrow> nat \<Rightarrow> nat \<Rightarrow> u64 \<times> u64 \<Rightarrow> (u64 \<times> u64) res" where
  "get_int_body p context_id i m =
     (let (max_priority, max_priority_int) = m in
      bnd (eligible p context_id i) (\<lambda>ok.
        if ok then bnd (arr_get (priority p) i) (\<lambda>prio.
          Inr (if max_priority < ucast prio then (ucast prio, of_nat i) else m))
        else Inr m))"

definition get_int :: "plic \<Rightarrow> nat \<Rightarrow> (bool \<times> plic) res" where
  "get_int p context_id =
     bnd (for_each (get_int_body p context_id) [1..<nr_source p + 1] (0, 0))
       (\<lambda>(max_priority, max_priority_int).
          let v = (if max_priority_int \<noteq> 0 then ucast max_priority_int else 0) in
          bnd (arr_set (claim p) context_id v) (\<lambda>cl. Inr (v \<noteq> 0, p\<lparr>claim := cl\<rparr>)))"

text \<open>
  \<open>return false\<close> in these two functions is the feedback code 0, \<open>FB_SUCCESS\<close>.
\<close>

definition plic_load :: "plic load_fn" where
  "plic_load p addr len =
     (let start_addr = addr mod 0x4000000 in
      guard (len = 4)
      (if start_addr + len \<le> 0x1000 then
         if start_addr = 0 then Inr (FB_SUCCESS, None, p)
         else if 4 * of_nat (nr_source p) < start_addr \<or> 4 * (of_nat (nr_source p) + 1) < start_addr + len
           then Inr (FB_SUCCESS, None, p)
         else bnd (arr_get (priority p) (unat (start_addr div 4)))
                (\<lambda>v. Inr (FB_SUCCESS, Some (bytes_of 4 v), p))
       else if start_addr + len \<le> 0x1080 then
         let idx = (start_addr - 0x1000) div 4 in
         if of_nat (nr_source p) < idx then Inr (FB_SUCCESS, None, p)
         else bnd (arr_get (pending p) (unat idx)) (\<lambda>v. Inr (FB_SUCCESS, Some (bytes_of 4 v), p))
       else if start_addr + len \<le> 0x2000 then Inr (FB_OUT_OF_RANGE, None, p)
       else if start_addr + len \<le> 0x200000 then
         let context_id = (start_addr - 0x2000) div 0x80; pos = start_addr mod 0x80 in
         if of_nat (nr_context p) \<le> context_id then Inr (FB_SUCCESS, None, p)
         else if of_nat (nr_source p) < pos then Inr (FB_SUCCESS, None, p)
         else bnd (arr_get (enable p) (unat context_id)) (\<lambda>en. bnd (arr_get en (unat pos))
                (\<lambda>v. Inr (FB_SUCCESS, Some (bytes_of 4 v), p)))
       else
         let context_id = (start_addr - 0x200000) div 0x1000; offset = start_addr mod 0x1000 in
         if of_nat (nr_context p) < context_id then Inr (FB_SUCCESS, None, p)
         else if offset = 0 then
           bnd (arr_get (threshold p) (unat context_id)) (\<lambda>v. Inr (FB_SUCCESS, Some (bytes_of 4 v), p))
         else if offset = 4 then
           bnd (arr_get (claim p) (unat context_id)) (\<lambda>v.
           bnd (bit_on (claimed p) (unat v)) (\<lambda>ws.
             Inr (FB_SUCCESS, Some (bytes_of 4 v), p\<lparr>claimed := ws\<rparr>)))
         else Inr (FB_OUT_OF_RANGE, None, p)))"

text \<open>
  \<open>*((uint32_t *) buffer)\<close>: four bytes from the pointer, whatever length the caller passed. \<open>behind\<close> is what the object of the
  caller holds after these bytes: the rest of the register for a byte or halfword of a core, which stores from \<open>&GPR[rs2]\<close>. The
  interface does not tell, so it is an argument, and everything holds for any.
\<close>

definition buf_u32 :: "u8 list \<Rightarrow> u32 res" where
  "buf_u32 bs = bnd (mem_read bs 0 4) (\<lambda>b. Inr (word_of_bytes b))"

definition plic_store :: "u8 list \<Rightarrow> plic store_fn" where
  "plic_store behind p addr buffer =
     (let start_addr = addr mod 0x4000000; len = of_nat (length buffer) in
       if start_addr + len \<le> 0x1000 then
         if start_addr = 0 then Inr (FB_SUCCESS, p)
         else if 4 * of_nat (nr_source p) < start_addr \<or> 4 * (of_nat (nr_source p) + 1) < start_addr + len
           then Inr (FB_SUCCESS, p)
         else bnd (buf_u32 (buffer @ behind)) (\<lambda>v. bnd (arr_set (priority p) (unat (start_addr div 4)) v)
                (\<lambda>ws. Inr (FB_SUCCESS, p\<lparr>priority := ws\<rparr>)))
       else if start_addr + len \<le> 0x1080 then Inr (FB_SUCCESS, p)
       else if start_addr + len \<le> 0x2000 then Inr (FB_OUT_OF_RANGE, p)
       else if start_addr + len \<le> 0x200000 then
         let context_id = (start_addr - 0x2000) div 0x80; pos = start_addr mod 0x80 in
         if of_nat (nr_context p) \<le> context_id then Inr (FB_SUCCESS, p)
         else if of_nat (nr_source p) < pos then Inr (FB_SUCCESS, p)
         else bnd (buf_u32 (buffer @ behind)) (\<lambda>v. bnd (arr_get (enable p) (unat context_id)) (\<lambda>en.
                bnd (arr_set en (unat pos) v) (\<lambda>en'. bnd (arr_set (enable p) (unat context_id) en')
                (\<lambda>ens. Inr (FB_SUCCESS, p\<lparr>enable := ens\<rparr>)))))
       else
         let context_id = (start_addr - 0x200000) div 0x1000; offset = start_addr mod 0x1000 in
         if of_nat (nr_context p) < context_id then Inr (FB_SUCCESS, p)
         else if offset = 0 then
           bnd (buf_u32 (buffer @ behind)) (\<lambda>v. bnd (arr_set (threshold p) (unat context_id) v)
             (\<lambda>ws. Inr (FB_SUCCESS, p\<lparr>threshold := ws\<rparr>)))
         else if offset = 4 then
           bnd (buf_u32 (buffer @ behind)) (\<lambda>v. bnd (bit_off (claimed p) (unat v)) (\<lambda>cl.
           bnd (bit_off (pending p) (unat v)) (\<lambda>pe.
             Inr (FB_SUCCESS, p\<lparr>claimed := cl, pending := pe\<rparr>))))
         else Inr (FB_OUT_OF_RANGE, p))"

definition plic_drive :: "nat \<Rightarrow> plic \<times> irq_store \<Rightarrow> (plic \<times> irq_store) res" where
  "plic_drive i st =
     (let (p, w) = st in
      bnd (arr_get (plic_intContexts p) i) (\<lambda>ctx.
        bnd (get_int p i) (\<lambda>(v, p').
          case ctx of None \<Rightarrow> Inl Undefined | Some ptr \<Rightarrow> Inr (p', w(ptr := v)))))"

definition plic_tick :: "plic \<Rightarrow> irq_store \<Rightarrow> (plic \<times> irq_store) res" where
  "plic_tick p w = for_each plic_drive [0..<nr_context p] (p, w)"

definition plic_regIntContext :: "plic \<Rightarrow> nat \<Rightarrow> irq_wire \<Rightarrow> plic res" where
  "plic_regIntContext p ctx_id ptr =
     guard (ctx_id < nr_context p)
       (bnd (arr_set (plic_intContexts p) ctx_id (Some ptr)) (\<lambda>ctxs. Inr (p\<lparr>plic_intContexts := ctxs\<rparr>)))"

section \<open>Well-formedness and the pure reading of the bit arrays\<close>

definition plic_wf :: "plic \<Rightarrow> bool" where
  "plic_wf p \<longleftrightarrow> nr_source p < 1024 \<and> nr_context p < 15872
     \<and> length (priority p) = nr_source p + 1
     \<and> length (pending p) = bit_words (nr_source p) \<and> length (claimed p) = bit_words (nr_source p)
     \<and> length (enable p) = nr_context p \<and> (\<forall>en \<in> set (enable p). length en = bit_words (nr_source p))
     \<and> length (threshold p) = nr_context p \<and> length (claim p) = nr_context p
     \<and> length (plic_intContexts p) = nr_context p
     \<and> (\<forall>v \<in> set (claim p). unat v \<le> nr_source p)"

definition src_bit :: "u32 list \<Rightarrow> nat \<Rightarrow> bool" where
  "src_bit ws i = bit (ws ! (i div 32)) (i mod 32)"

lemma plic_new_wf: "ns < 1024 \<Longrightarrow> nc < 15872 \<Longrightarrow> plic_wf (plic_new ns nc)"
  by (auto simp: plic_wf_def plic_new_def)

lemma bit_words_bound: "i \<le> n \<Longrightarrow> i div 32 < bit_words n"
  by (auto simp: bit_words_def div_le_mono less_Suc_eq_le)

lemma and_one_bit: "(w AND 1 \<noteq> 0) = bit w 0" for w :: "'a::len word"
  by (simp add: and_one_eq mod_2_eq_odd bit_0)

lemma bit_at_in: "i div 32 < length ws \<Longrightarrow> bit_at ws i = Inr (src_bit ws i)"
  by (simp add: bit_at_def src_bit_def and_one_bit bit_drop_bit_eq)

lemma bit_on_in:
  "i div 32 < length ws \<Longrightarrow> bit_on ws i = Inr (ws[i div 32 := (ws ! (i div 32)) OR push_bit (i mod 32) 1])"
  by (simp add: bit_on_def)

lemma bit_off_in:
  "i div 32 < length ws \<Longrightarrow> bit_off ws i = Inr (ws[i div 32 := (ws ! (i div 32)) AND NOT (push_bit (i mod 32) 1)])"
  by (simp add: bit_off_def)

lemma src_bit_on:
  "i div 32 < length ws \<Longrightarrow>
     src_bit (ws[i div 32 := (ws ! (i div 32)) OR push_bit (i mod 32) 1]) j = (j = i \<or> src_bit ws j)"
  by (cases "j div 32 = i div 32"; cases "j mod 32 = i mod 32")
     (auto simp: src_bit_def bit_simps bit_1_iff, (metis div_mult_mod_eq)+)

lemma src_bit_off:
  "i div 32 < length ws \<Longrightarrow>
     src_bit (ws[i div 32 := (ws ! (i div 32)) AND NOT (push_bit (i mod 32) 1)]) j = (j \<noteq> i \<and> src_bit ws j)"
  by (cases "j div 32 = i div 32"; cases "j mod 32 = i mod 32")
     (auto simp: src_bit_def bit_simps bit_1_iff dest: bit_imp_le_length, (metis div_mult_mod_eq)+)

text \<open>A source the loop of \<open>get_int\<close> would pick if it were alone.\<close>

definition candidate :: "plic \<Rightarrow> nat \<Rightarrow> nat \<Rightarrow> bool" where
  "candidate p ctx i \<longleftrightarrow> 1 \<le> i \<and> i \<le> nr_source p \<and> threshold p ! ctx \<le> priority p ! i \<and> 0 < priority p ! i
     \<and> src_bit (pending p) i \<and> src_bit (enable p ! ctx) i \<and> \<not> src_bit (claimed p) i"

lemma eligible_in:
  assumes "plic_wf p" and "ctx < nr_context p" and "i \<le> nr_source p"
  shows "eligible p ctx i = Inr (threshold p ! ctx \<le> priority p ! i \<and> src_bit (pending p) i
           \<and> src_bit (enable p ! ctx) i \<and> \<not> src_bit (claimed p) i)"
proof -
  have "length (enable p ! ctx) = bit_words (nr_source p)"
    using assms(1,2) by (simp add: plic_wf_def)
  then show ?thesis
    using assms bit_words_bound[OF assms(3)] by (simp add: eligible_def plic_wf_def bit_at_in)
qed

definition best_upto :: "plic \<Rightarrow> nat \<Rightarrow> nat \<Rightarrow> nat \<Rightarrow> bool" where
  "best_upto p ctx n v \<longleftrightarrow>
     (if v = 0 then \<forall>j \<le> n. \<not> candidate p ctx j
      else candidate p ctx v \<and> v \<le> n
           \<and> (\<forall>j \<le> n. candidate p ctx j \<longrightarrow> priority p ! j \<le> priority p ! v)
           \<and> (\<forall>j < v. candidate p ctx j \<longrightarrow> priority p ! j < priority p ! v))"

lemma best_upto_Suc:
  assumes "best_upto p ctx n v"
  shows "best_upto p ctx (Suc n)
    (if candidate p ctx (Suc n) \<and> (v = 0 \<or> priority p ! v < priority p ! Suc n) then Suc n else v)"
  using assms by (auto simp: best_upto_def le_Suc_eq less_Suc_eq_le candidate_def split: if_splits; fastforce)

lemma of_nat_small_0: "n < 1024 \<Longrightarrow> 10 \<le> LENGTH('a) \<Longrightarrow> (of_nat n :: 'a::len word) = 0 \<longleftrightarrow> n = 0"
proof -
  assume n: "n < 1024" and "10 \<le> LENGTH('a)"
  then have "(2 :: nat) ^ 10 \<le> 2 ^ LENGTH('a)" by (intro power_increasing) auto
  with n have "unat (of_nat n :: 'a word) = n" by (intro unat_of_nat_small) simp
  then show ?thesis by (auto simp: word_unat_eq_iff)
qed

lemma ucast_of_nat_cut: "(ucast (of_nat n :: u64) :: u32) = of_nat n"
  by (rule bit_word_eqI) (simp add: bit_simps)

lemma get_int_loop:
  assumes "plic_wf p" and "ctx < nr_context p"
  shows "n \<le> nr_source p \<Longrightarrow>
    \<exists>v. best_upto p ctx n v \<and> for_each (get_int_body p ctx) [1..<n + 1] (0, 0)
          = Inr (if v = 0 then 0 else ucast (priority p ! v), of_nat v)"
proof (induction n)
  case 0
  show ?case by (auto simp: best_upto_def candidate_def intro!: exI[of _ 0])
next
  case (Suc n)
  then obtain v where v: "best_upto p ctx n v"
    "for_each (get_int_body p ctx) [1..<n + 1] (0, 0)
       = Inr (if v = 0 then 0 else ucast (priority p ! v), of_nat v)"
    by auto
  let ?v = "if candidate p ctx (Suc n) \<and> (v = 0 \<or> priority p ! v < priority p ! Suc n) then Suc n else v"
  have uc: "(ucast a :: u64) < ucast b \<longleftrightarrow> a < b" "(0 :: u64) < ucast b \<longleftrightarrow> 0 < b" for a b :: u32
    by (simp_all add: word_less_nat_alt unat_ucast_up)
  have pos: "a < b \<Longrightarrow> 0 < b" for a b :: u32
    by (simp add: word_less_nat_alt)
  have "length (priority p) = nr_source p + 1" using assms(1) by (simp add: plic_wf_def)
  then have "get_int_body p ctx (Suc n) (if v = 0 then 0 else ucast (priority p ! v), of_nat v)
      = Inr (if ?v = 0 then 0 else ucast (priority p ! ?v), of_nat ?v)"
    using Suc.prems eligible_in[OF assms Suc.prems]
    by (auto simp: get_int_body_def candidate_def uc dest: pos)
  with v show ?case
    using best_upto_Suc[OF v(1)] by (auto simp: for_each_append intro!: exI[of _ ?v])
qed

section \<open>The slave contract\<close>

lemma bit_on_length: "bit_on ws i = Inr ws' \<Longrightarrow> length ws' = length ws"
  by (auto simp: bit_on_def res_simps)

lemma bit_off_length: "bit_off ws i = Inr ws' \<Longrightarrow> length ws' = length ws"
  by (auto simp: bit_off_def res_simps)

lemma set_update_wf: "(\<forall>x \<in> set xs. Q x) \<Longrightarrow> Q y \<Longrightarrow> (\<forall>x \<in> set (xs[i := y]). Q x)"
  using set_update_subset_insert[of xs i y] by blast

lemma plic_load_step:
  "plic_load p a n = Inr (fb, b, p') \<Longrightarrow>
     (\<exists>cl. p' = p\<lparr>claimed := cl\<rparr> \<and> length cl = length (claimed p)) \<and> n = 4 \<and> (\<forall>bs. b = Some bs \<longrightarrow> length bs = 4)"
  by (auto simp: plic_load_def Let_def res_simps guard_def dest: bit_on_length split: if_splits)
     (rule exI[of _ "claimed p"], simp)+

lemma wf_priority: "plic_wf p \<Longrightarrow> plic_wf (p\<lparr>priority := (priority p)[i := v]\<rparr>)"
  by (simp add: plic_wf_def)

lemma wf_threshold: "plic_wf p \<Longrightarrow> plic_wf (p\<lparr>threshold := (threshold p)[i := v]\<rparr>)"
  by (simp add: plic_wf_def)

lemma wf_enable:
  "plic_wf p \<Longrightarrow> i < length (enable p) \<Longrightarrow> plic_wf (p\<lparr>enable := (enable p)[i := (enable p ! i)[j := v]]\<rparr>)"
  using set_update_wf[of "enable p" "\<lambda>en. length en = bit_words (nr_source p)" "(enable p ! i)[j := v]" i]
  unfolding plic_wf_def by auto

lemma wf_completed:
  "plic_wf p \<Longrightarrow> bit_off (claimed p) i = Inr cl \<Longrightarrow> bit_off (pending p) j = Inr pe \<Longrightarrow>
     plic_wf (p\<lparr>claimed := cl, pending := pe\<rparr>)"
  using bit_off_length[of "claimed p" i cl] bit_off_length[of "pending p" j pe] by (simp add: plic_wf_def)

lemma plic_store_wf: "plic_wf p \<Longrightarrow> plic_store behind p a bs = Inr (fb, p') \<Longrightarrow> plic_wf p'"
  by (simp add: plic_store_def Let_def res_simps split: if_splits)
     (elim exE conjE, hypsubst, (rule wf_priority wf_threshold wf_enable wf_completed; assumption))+

interpretation pl: slave plic_load "plic_store behind" plic_wf for behind
proof
  fix p a n fb b p' assume "plic_wf p" and "plic_load p a n = Inr (fb, b, p')"
  then show "plic_wf p'" by (auto simp: plic_wf_def dest!: plic_load_step)
next
  fix p a n fb bs p' assume "plic_load p a n = Inr (fb, Some bs, p')"
  then show "length bs = unat n" by (auto dest!: plic_load_step)
qed (rule plic_store_wf)

lemma get_int_spec:
  assumes "plic_wf p" and "ctx < nr_context p"
  shows "\<exists>v \<le> nr_source p. get_int p ctx = Inr (v \<noteq> 0, p\<lparr>claim := (claim p)[ctx := of_nat v]\<rparr>)
     \<and> (if v = 0 then \<forall>j \<le> nr_source p. \<not> candidate p ctx j
        else candidate p ctx v
           \<and> (\<forall>j \<le> nr_source p. candidate p ctx j \<longrightarrow> priority p ! j \<le> priority p ! v)
           \<and> (\<forall>j < v. candidate p ctx j \<longrightarrow> priority p ! j < priority p ! v))"
proof -
  obtain v where v: "best_upto p ctx (nr_source p) v"
    and loop: "for_each (get_int_body p ctx) [1..<nr_source p + 1] (0, 0)
       = Inr (if v = 0 then 0 else ucast (priority p ! v), of_nat v)"
    using get_int_loop[OF assms order.refl] by blast
  have le: "v \<le> nr_source p" using v by (auto simp: best_upto_def split: if_splits)
  with assms(1) have vs: "v < 1024" by (simp add: plic_wf_def)
  have z: "((of_nat v :: u64) = 0) = (v = 0)" "((of_nat v :: u32) = 0) = (v = 0)"
    by (rule of_nat_small_0[OF vs], simp)+
  have "get_int p ctx = bnd (arr_set (claim p) ctx (of_nat v)) (\<lambda>cl. Inr (v \<noteq> 0, p\<lparr>claim := cl\<rparr>))"
    unfolding get_int_def loop bnd_Inr prod.case Let_def ucast_of_nat_cut z
    by (cases "v = 0") (simp_all add: z del: word_of_nat_eq_0_iff)
  moreover have "arr_set (claim p) ctx (of_nat v) = Inr ((claim p)[ctx := of_nat v])"
    using assms by (simp add: plic_wf_def)
  ultimately have "get_int p ctx = Inr (v \<noteq> 0, p\<lparr>claim := (claim p)[ctx := of_nat v]\<rparr>)"
    by (simp only: bnd_Inr)
  then show ?thesis
    using v le unfolding best_upto_def by (intro exI[of _ v]) (cases "v = 0"; simp only: if_True if_False simp_thms; blast)
qed

lemma candidate_claim [simp]: "candidate (p\<lparr>claim := cl\<rparr>) = candidate p"
  by (simp add: candidate_def fun_eq_iff)

lemma plic_drive_spec:
  assumes "plic_wf p" and "i < nr_context p" and "plic_intContexts p ! i = Some q"
  shows "\<exists>v \<le> nr_source p. plic_drive i (p, w) = Inr (p\<lparr>claim := (claim p)[i := of_nat v]\<rparr>, w(q := v \<noteq> 0))
    \<and> (v \<noteq> 0 \<longleftrightarrow> (\<exists>j \<le> nr_source p. candidate p i j))"
proof -
  obtain v where v: "v \<le> nr_source p" "get_int p i = Inr (v \<noteq> 0, p\<lparr>claim := (claim p)[i := of_nat v]\<rparr>)"
    and c: "if v = 0 then \<forall>j \<le> nr_source p. \<not> candidate p i j else candidate p i v"
    using get_int_spec[OF assms(1,2)] by (metis (full_types))
  have "plic_drive i (p, w) = Inr (p\<lparr>claim := (claim p)[i := of_nat v]\<rparr>, w(q := v \<noteq> 0))"
    using assms v(2) by (simp add: plic_drive_def plic_wf_def)
  moreover have "v \<noteq> 0 \<longleftrightarrow> (\<exists>j \<le> nr_source p. candidate p i j)" using v(1) c by (cases "v = 0") auto
  ultimately show ?thesis using v(1) by blast
qed

lemma plic_claim_wf: "plic_wf p \<Longrightarrow> v \<le> nr_source p \<Longrightarrow> plic_wf (p\<lparr>claim := (claim p)[i := of_nat v]\<rparr>)"
proof -
  assume p: "plic_wf p" and v: "v \<le> nr_source p"
  then have "v < 2 ^ LENGTH(32)" by (simp add: plic_wf_def)
  then have "unat (of_nat v :: u32) \<le> nr_source p" using v by (subst unat_of_nat_small) simp_all
  then show ?thesis using p set_update_wf[of "claim p" "\<lambda>v. unat v \<le> nr_source p" "of_nat v" i] by (simp add: plic_wf_def)
qed

text \<open>
  After a tick the interrupt line of every context tells whether a source could be claimed in it, and nothing but
  the latched claims has changed.
\<close>

lemma plic_tick_spec:
  assumes wf: "plic_wf p" and reg: "\<And>i. i < nr_context p \<Longrightarrow> plic_intContexts p ! i = Some (q i)"
    and inj: "inj_on q {..<nr_context p}"
  shows "\<exists>cl w'. plic_tick p w = Inr (p\<lparr>claim := cl\<rparr>, w') \<and> plic_wf (p\<lparr>claim := cl\<rparr>)
    \<and> (\<forall>i < nr_context p. w' (q i) \<longleftrightarrow> (\<exists>j \<le> nr_source p. candidate p i j))
    \<and> (\<forall>x. x \<notin> q ` {..<nr_context p} \<longrightarrow> w' x = w x)"
proof -
  have "\<exists>cl w'. for_each plic_drive [0..<n] (p, w) = Inr (p\<lparr>claim := cl\<rparr>, w') \<and> plic_wf (p\<lparr>claim := cl\<rparr>)
    \<and> (\<forall>i < n. w' (q i) \<longleftrightarrow> (\<exists>j \<le> nr_source p. candidate p i j)) \<and> (\<forall>x. x \<notin> q ` {..<n} \<longrightarrow> w' x = w x)"
    if "n \<le> nr_context p" for n
    using that
  proof (induction n)
    case 0
    then show ?case using wf by (intro exI[of _ "claim p"] exI[of _ w]) simp
  next
    case (Suc n)
    then obtain cl w1 where ih: "for_each plic_drive [0..<n] (p, w) = Inr (p\<lparr>claim := cl\<rparr>, w1)" "plic_wf (p\<lparr>claim := cl\<rparr>)"
      "\<forall>i < n. w1 (q i) \<longleftrightarrow> (\<exists>j \<le> nr_source p. candidate p i j)" "\<forall>x. x \<notin> q ` {..<n} \<longrightarrow> w1 x = w x"
      by auto
    let ?p = "p\<lparr>claim := cl\<rparr>"
    have "\<exists>v \<le> nr_source p. plic_drive n (?p, w1) = Inr (p\<lparr>claim := cl[n := of_nat v]\<rparr>, w1(q n := v \<noteq> 0))
      \<and> (v \<noteq> 0 \<longleftrightarrow> (\<exists>j \<le> nr_source p. candidate p n j))"
      using plic_drive_spec[OF ih(2), of n "q n" w1] reg[of n] Suc.prems by simp
    then obtain v where v: "v \<le> nr_source p" "plic_drive n (?p, w1) = Inr (p\<lparr>claim := cl[n := of_nat v]\<rparr>, w1(q n := v \<noteq> 0))"
      "v \<noteq> 0 \<longleftrightarrow> (\<exists>j \<le> nr_source p. candidate p n j)"
      by blast
    have new: "q i \<noteq> q n" if "i < n" for i using inj_onD[OF inj, of i n] that Suc.prems by auto
    have "plic_wf (p\<lparr>claim := cl[n := of_nat v]\<rparr>)" using plic_claim_wf[OF ih(2), of v n] v(1) by simp
    moreover have "for_each plic_drive [0..<Suc n] (p, w) = Inr (p\<lparr>claim := cl[n := of_nat v]\<rparr>, w1(q n := v \<noteq> 0))"
      using ih(1) v(2) by (simp add: for_each_append)
    moreover have "\<forall>i < Suc n. (w1(q n := v \<noteq> 0)) (q i) \<longleftrightarrow> (\<exists>j \<le> nr_source p. candidate p i j)"
      using ih(3) v(3) new by (auto simp: less_Suc_eq simp del: upt_Suc)
    moreover have "\<forall>x. x \<notin> q ` {..<Suc n} \<longrightarrow> (w1(q n := v \<noteq> 0)) x = w x"
      using ih(4) by (auto simp: lessThan_Suc)
    ultimately show ?case by blast
  qed
  from this[OF order.refl] show ?thesis unfolding plic_tick_def .
qed

section \<open>Properties\<close>

text \<open>
  C36. Arbitration: for a context of a well-formed PLIC, \<open>get_int\<close> returns, latches in \<open>claim\<close>
  a source \<open>v\<close> that is pending, enabled for the context, unclaimed, of positive priority not
  below the threshold, with the highest such priority and the smallest id among those, and
  answers true; it latches 0 and answers false exactly when there is no such source. Nothing
  else changes.
\<close>

theorem get_int_highest_priority:
  assumes "plic_wf p" and "ctx < nr_context p"
  shows "\<exists>v \<le> nr_source p. get_int p ctx = Inr (v \<noteq> 0, p\<lparr>claim := (claim p)[ctx := of_nat v]\<rparr>)
     \<and> (if v = 0 then \<forall>j \<le> nr_source p. \<not> candidate p ctx j
        else candidate p ctx v
           \<and> (\<forall>j \<le> nr_source p. candidate p ctx j \<longrightarrow> priority p ! j \<le> priority p ! v)
           \<and> (\<forall>j < v. candidate p ctx j \<longrightarrow> priority p ! j < priority p ! v))"
  by (rule get_int_spec[OF assms])

text \<open>A PLIC with three sources, all three pending.\<close>

definition plic_demo :: plic where
  "plic_demo = (plic_new 3 1)\<lparr>priority := [0, 1, 5, 5], pending := [14], enable := [[14]]\<rparr>"

lemma plic_demo_wf: "plic_wf plic_demo"
  by (simp add: plic_demo_def plic_new_def plic_wf_def bit_words_def)

theorem get_int_highest_priority_witness:
  "\<exists>v. get_int plic_demo 0 = Inr (v \<noteq> 0, plic_demo\<lparr>claim := [of_nat v]\<rparr>)"
proof -
  have "0 < nr_context plic_demo" "(claim plic_demo)[0 := x] = [x]" for x
    by (simp_all add: plic_demo_def plic_new_def)
  then show ?thesis
    using get_int_highest_priority [OF plic_demo_wf, of 0] by metis
qed

lemma claim_read:
  assumes "plic_wf p" and "ctx < nr_context p" and "a mod 0x4000000 = 0x200004 + 0x1000 * of_nat ctx"
  shows "plic_load p a 4 = bnd (bit_on (claimed p) (unat (claim p ! ctx)))
           (\<lambda>ws. Inr (FB_SUCCESS, Some (bytes_of 4 (claim p ! ctx)), p\<lparr>claimed := ws\<rparr>))"
proof -
  let ?a = "0x200004 + 0x1000 * of_nat ctx :: u64"
  have n: "ctx < 15872" "nr_context p < 15872" using assms(1,2) by (auto simp: plic_wf_def)
  then have c: "unat (of_nat ctx :: u64) = ctx" "unat (of_nat (nr_context p) :: u64) = nr_context p"
    by (auto simp: unat_of_nat_small)
  then have a: "unat ?a = 0x200004 + 0x1000 * ctx" "unat (?a - 0x200000) = 4 + 0x1000 * ctx"
    using n by (auto simp: unat_word_ariths)
  have "unat (?a + 4) = 0x200008 + 0x1000 * ctx"
    using n c by (simp add: unat_word_ariths)
  then have "\<not> ?a + 4 \<le> 0x1000" "\<not> ?a + 4 \<le> 0x1080" "\<not> ?a + 4 \<le> 0x2000" "\<not> ?a + 4 \<le> 0x200000"
    by (auto simp: word_le_nat_alt)
  moreover have "unat ((?a - 0x200000) div 0x1000) = ctx" "?a mod 0x1000 = 4"
    using a by (simp_all add: unat_div word_unat_eq_iff unat_mod)
  moreover from this c have "\<not> of_nat (nr_context p) < (?a - 0x200000) div 0x1000"
    using assms(2) by (simp add: word_less_nat_alt)
  ultimately show ?thesis
    using assms by (simp add: plic_load_def Let_def plic_wf_def)
qed

text \<open>
  Claiming: reading the claim register of a context returns the latched source \<open>v\<close> and
  marks it claimed, and no later arbitration, for whatever context, picks \<open>v\<close> again before it is completed.
\<close>

theorem plic_claimed_not_offered:
  assumes "plic_wf p" and "ctx < nr_context p" and "ctx' < nr_context p"
    and "a mod 0x4000000 = 0x200004 + 0x1000 * of_nat ctx"
    and "v = unat (claim p ! ctx)" and "v \<noteq> 0"
  shows "\<exists>p'. plic_load p a 4 = Inr (FB_SUCCESS, Some (bytes_of 4 (claim p ! ctx)), p')
     \<and> plic_wf p' \<and> (\<exists>b p''. get_int p' ctx' = Inr (b, p'') \<and> claim p'' ! ctx' \<noteq> of_nat v)"
proof -
  have "claim p ! ctx \<in> set (claim p)" using assms(1,2) by (simp add: plic_wf_def)
  then have v: "v \<le> nr_source p" and vs: "nr_source p < 1024"
    using assms(1,5) by (simp_all add: plic_wf_def)
  have len: "length (claimed p) = bit_words (nr_source p)"
    using assms(1) by (simp add: plic_wf_def)
  let ?ws = "(claimed p)[v div 32 := (claimed p ! (v div 32)) OR push_bit (v mod 32) 1]"
  let ?p = "p\<lparr>claimed := ?ws\<rparr>"
  have on: "bit_on (claimed p) v = Inr ?ws"
    using bit_on_in[of v "claimed p"] bit_words_bound[OF v] len by simp
  then have load: "plic_load p a 4 = Inr (FB_SUCCESS, Some (bytes_of 4 (claim p ! ctx)), ?p)"
    using claim_read[OF assms(1,2,4)] assms(5) by simp
  have wf: "plic_wf ?p" using assms(1) by (simp add: plic_wf_def)
  obtain v' where v': "v' \<le> nr_source p" "get_int ?p ctx' = Inr (v' \<noteq> 0, ?p\<lparr>claim := (claim ?p)[ctx' := of_nat v']\<rparr>)"
    and c: "v' \<noteq> 0 \<Longrightarrow> candidate ?p ctx' v'"
    using get_int_highest_priority[OF wf, of ctx'] assms(3) by (auto split: if_splits)
  have "v' \<noteq> v"
    using c assms(6) src_bit_on[of v "claimed p" v] bit_words_bound[OF v] len by (auto simp: candidate_def)
  then have "of_nat v' \<noteq> (of_nat v :: u32)"
    using v v'(1) vs by (simp add: word_of_nat_eq_iff take_bit_nat_eq_self)
  moreover have "ctx' < length (claim p)" using assms(1,3) by (simp add: plic_wf_def)
  ultimately show ?thesis
    using load wf v'(2) by auto
qed

theorem plic_claimed_not_offered_witness:
  "\<exists>p'. plic_load (plic_demo\<lparr>claim := [2]\<rparr>) 0x200004 4 = Inr (FB_SUCCESS, Some [2, 0, 0, 0], p')
     \<and> (\<exists>b p''. get_int p' 0 = Inr (b, p'') \<and> claim p'' ! 0 \<noteq> 2)"
proof -
  have "plic_wf (plic_demo\<lparr>claim := [2]\<rparr>)"
    using plic_demo_wf by (simp add: plic_wf_def plic_demo_def plic_new_def)
  moreover have "bytes_of 4 (2 :: u32) = [2, 0, 0, 0]"
    by (simp add: bytes_of_def upt_rec)
  moreover have "nr_context (plic_demo\<lparr>claim := [2]\<rparr>) = 1" "claim (plic_demo\<lparr>claim := [2]\<rparr>) ! 0 = 2"
    by (simp_all add: plic_demo_def plic_new_def)
  ultimately show ?thesis
    using plic_claimed_not_offered [of "plic_demo\<lparr>claim := [2]\<rparr>" 0 0 "0x200004" 2] by fastforce
qed

text \<open>
  Completion is not checked: a store of \<open>v\<close> to the claim register of a context indexes
  the bit arrays with \<open>v div 32\<close>, so a value past the last source word writes outside them.
\<close>

theorem plic_complete_out_of_bounds:
  assumes "plic_wf p" and "unat (word_of_bytes bs :: u32) div 32 \<ge> bit_words (nr_source p)" and "length bs = 4"
  shows "plic_store behind p 0x200004 bs = Inl Undefined"
  using assms by (simp add: plic_store_def Let_def buf_u32_def mem_read_def bit_off_def plic_wf_def)

theorem plic_complete_out_of_bounds_witness:
  "plic_store [] plic_demo 0x200004 [0xff, 0, 0, 0] = Inl Undefined"
  by (rule plic_complete_out_of_bounds [OF plic_demo_wf])
     (simp_all add: plic_demo_def plic_new_def bit_words_def)

end
