(* ===== verification/Alu.thy ===== *)
theory Alu
  imports Prelude "HOL-Library.Signed_Division"
begin

text \<open>
  The arithmetic unit, \<open>RV64Core::alu_exec\<close> of \<open>src/rv64_alu.cpp\<close>. The reference it is compared with,
  \<open>rv_alu\<close>, is arithmetic on integers, parameterised by the operand width.
\<close>

datatype ALU_Op_enum =
    ALU_ADD | ALU_SUB | ALU_SLL | ALU_SLT | ALU_SLTU | ALU_XOR | ALU_SRL | ALU_SRA | ALU_OR | ALU_AND
  | ALU_MUL | ALU_MULH | ALU_MULHU | ALU_MULHSU | ALU_DIV | ALU_DIVU | ALU_REM | ALU_REMU
  | ALU_NOP

text \<open>\<open>(int32_t) w\<close> and \<open>(uint32_t) w\<close>, widened again.\<close>

definition sext32 :: "u64 \<Rightarrow> u64" where
  "sext32 w = signed_take_bit 31 w"

definition zext32 :: "u64 \<Rightarrow> u64" where
  "zext32 w = take_bit 32 w"

definition LONG_MIN :: u64 where "LONG_MIN = push_bit 63 1"

text \<open>The quotient and the remainder of signed C++ integers, rounded towards zero.\<close>

definition c_div :: "u64 \<Rightarrow> u64 \<Rightarrow> u64" where
  "c_div a b = word_of_int (sint a sdiv sint b)"

definition c_rem :: "u64 \<Rightarrow> u64 \<Rightarrow> u64" where
  "c_rem a b = word_of_int (sint a smod sint b)"

definition alu_exec :: "u64 \<Rightarrow> u64 \<Rightarrow> ALU_Op_enum \<Rightarrow> bool \<Rightarrow> u64 res" where
  "alu_exec a0 b0 op op_32 =
     (let a = if op_32 then sext32 a0 else a0; b = if op_32 then sext32 b0 else b0;
          sh = unat (b AND (if op_32 then 0x1f else 0x3f)) in
      bnd (case op of
          ALU_ADD \<Rightarrow> Inr (a + b)
        | ALU_SUB \<Rightarrow> Inr (a - b)
        | ALU_SLL \<Rightarrow> Inr (push_bit sh a)
        | ALU_SLT \<Rightarrow> Inr (bool_word (a <s b))
        | ALU_SLTU \<Rightarrow> Inr (bool_word (a < b))
        | ALU_XOR \<Rightarrow> Inr (a XOR b)
        | ALU_SRL \<Rightarrow> Inr (drop_bit sh (if op_32 then a AND 0xffffffff else a))
        | ALU_SRA \<Rightarrow> Inr (signed_drop_bit sh a)
        | ALU_OR \<Rightarrow> Inr (a OR b)
        | ALU_AND \<Rightarrow> Inr (a AND b)
        | ALU_MUL \<Rightarrow> Inr (a * b)
        | ALU_MULH \<Rightarrow> Inr (ucast (signed_drop_bit 64 ((scast a :: 128 word) * scast b)))
        | ALU_MULHU \<Rightarrow> Inr (ucast (drop_bit 64 ((ucast a :: 128 word) * ucast b)))
        | ALU_MULHSU \<Rightarrow> Inr (ucast (drop_bit 64 ((scast a :: 128 word) * ucast b)))
        | ALU_DIV \<Rightarrow> Inr (if b = 0 then -1 else if a = LONG_MIN \<and> b = -1 then LONG_MIN else c_div a b)
        | ALU_DIVU \<Rightarrow> Inr (if b = 0 then -1 else if op_32 then zext32 a div zext32 b else a div b)
        | ALU_REM \<Rightarrow> Inr (if b = 0 then a else if a = LONG_MIN \<and> b = -1 then 0 else c_rem a b)
        | ALU_REMU \<Rightarrow> Inr (if b = 0 then a else if op_32 then zext32 a mod zext32 b else a mod b)
        | ALU_NOP \<Rightarrow> Inl AssertFail)
      (\<lambda>result. Inr (if op_32 then sext32 result else result)))"

section \<open>The reference\<close>

text \<open>
  \<open>rv_alu n op x y\<close> is the RISC-V operation on the signed readings \<open>x\<close> and \<open>y\<close> of two \<open>n\<close>-bit
  registers, as an integer of which the low \<open>n\<close> bits count. \<open>un n x\<close> is the unsigned reading.
\<close>

definition un :: "nat \<Rightarrow> int \<Rightarrow> int" where
  "un n x = x mod 2 ^ n"

definition rv_alu :: "nat \<Rightarrow> ALU_Op_enum \<Rightarrow> int \<Rightarrow> int \<Rightarrow> int option" where
  "rv_alu n op x y =
     (let sh = nat (y mod int n) in case op of
        ALU_ADD \<Rightarrow> Some (x + y)
      | ALU_SUB \<Rightarrow> Some (x - y)
      | ALU_SLL \<Rightarrow> Some (x * 2 ^ sh)
      | ALU_SLT \<Rightarrow> Some (of_bool (x < y))
      | ALU_SLTU \<Rightarrow> Some (of_bool (un n x < un n y))
      | ALU_XOR \<Rightarrow> Some (x XOR y)
      | ALU_SRL \<Rightarrow> Some (un n x div 2 ^ sh)
      | ALU_SRA \<Rightarrow> Some (x div 2 ^ sh)
      | ALU_OR \<Rightarrow> Some (x OR y)
      | ALU_AND \<Rightarrow> Some (x AND y)
      | ALU_MUL \<Rightarrow> Some (x * y)
      | ALU_MULH \<Rightarrow> Some (x * y div 2 ^ n)
      | ALU_MULHU \<Rightarrow> Some (un n x * un n y div 2 ^ n)
      | ALU_MULHSU \<Rightarrow> Some (x * un n y div 2 ^ n)
      | ALU_DIV \<Rightarrow> Some (if y = 0 then -1 else x sdiv y)
      | ALU_DIVU \<Rightarrow> Some (if y = 0 then 2 ^ n - 1 else un n x div un n y)
      | ALU_REM \<Rightarrow> Some (if y = 0 then x else x smod y)
      | ALU_REMU \<Rightarrow> Some (if y = 0 then x else un n x mod un n y)
      | ALU_NOP \<Rightarrow> None)"

lemma shift_amount:
  "unat (b AND 0x3f) = nat (sint b mod 64)" "unat (b AND 0x1f) = nat (sint b mod 32)" for b :: u64
proof -
  have m: "(0x3f :: u64) = mask 6" "(0x1f :: u64) = mask 5" by (simp_all add: mask_eq_exp_minus_1)
  have "take_bit n (uint b) = take_bit n (sint b)" if "n \<le> 64" for n
    using that by (simp add: uint_sint min_def)
  then have "uint (take_bit n b) = sint b mod 2 ^ n" if "n \<le> 64" for n
    using that by (simp only: unsigned_take_bit_eq take_bit_eq_mod[of n "sint b"])
  from this[of 6] this[of 5] show "unat (b AND 0x3f) = nat (sint b mod 64)" "unat (b AND 0x1f) = nat (sint b mod 32)"
    by (simp_all only: m take_bit_eq_mask[symmetric] flip: nat_uint_eq) simp_all
qed

lemma un_uint: "un 64 (sint a) = uint a" for a :: u64
  by (simp add: un_def uint_sint take_bit_eq_mod)

lemma high_half:
  "(ucast (drop_bit 64 (word_of_int z :: 128 word)) :: u64) = word_of_int (z div 2 ^ 64)"
  "(ucast (signed_drop_bit 64 (word_of_int z :: 128 word)) :: u64) = word_of_int (z div 2 ^ 64)"
  unfolding drop_bit_eq_div[symmetric]
  by (rule bit_word_eqI, simp add: bit_simps bit_signed_drop_bit_iff)+

lemma products:
  "(scast a :: 128 word) * scast b = word_of_int (sint a * sint b)"
  "(ucast a :: 128 word) * ucast b = word_of_int (uint a * uint b)"
  "(scast a :: 128 word) * ucast b = word_of_int (sint a * uint b)" for a b :: u64
  by simp_all

lemma sll_int: "push_bit n a = word_of_int (sint a * 2 ^ n)" for a :: u64
  by (simp add: push_bit_eq_mult)

lemma srl_int: "drop_bit n a = word_of_int (uint a div 2 ^ n)" for a :: u64
  unfolding drop_bit_eq_div[symmetric] by (rule bit_word_eqI) (auto simp: bit_simps)

lemma sra_int: "signed_drop_bit n a = word_of_int (sint a div 2 ^ n)" for a :: u64
  unfolding drop_bit_eq_div[symmetric] sint_signed_drop_bit_eq[symmetric] by simp

lemma logic_int:
  "a XOR b = word_of_int (sint a XOR sint b)" "a OR b = word_of_int (sint a OR sint b)"
  "a AND b = word_of_int (sint a AND sint b)" for a b :: u64
  by (simp_all add: of_int_xor_eq of_int_or_eq of_int_and_eq)

lemma udiv_int: "a div b = word_of_int (uint a div uint b)" "a mod b = word_of_int (uint a mod uint b)" for a b :: u64
  by (simp_all add: word_div_def word_mod_def)

lemma sint_eq_0 [simp]: "sint b = 0 \<longleftrightarrow> b = 0" for b :: u64
proof
  assume "sint b = 0"
  then have "word_of_int (sint b) = (0 :: u64)" by (simp only: of_int_0)
  then show "b = 0" by simp
qed simp

lemma c_div_int: "(if b = 0 then -1 else if a = LONG_MIN \<and> b = -1 then LONG_MIN else c_div a b)
    = word_of_int (if sint b = 0 then -1 else sint a sdiv sint b)"
proof -
  have "(word_of_int (sint LONG_MIN sdiv sint (-1 :: u64)) :: u64) = LONG_MIN" by (simp add: LONG_MIN_def)
  then show ?thesis by (auto simp: c_div_def)
qed

lemma c_rem_int: "(if b = 0 then a else if a = LONG_MIN \<and> b = -1 then 0 else c_rem a b)
    = word_of_int (if sint b = 0 then sint a else sint a smod sint b)"
  by (auto simp: c_rem_def LONG_MIN_def signed_modulo_int_def)

lemma divu_int: "(if b = 0 then -1 else a div b) = word_of_int (if sint b = 0 then 2 ^ 64 - 1 else uint a div uint b)"
    "(if b = 0 then a else a mod b) = word_of_int (if sint b = 0 then sint a else uint a mod uint b)" for a b :: u64
  by (simp_all add: udiv_int)

lemma slt_int: "bool_word (a <s b) = word_of_int (of_bool (sint a < sint b))"
    "bool_word (a < b) = word_of_int (of_bool (uint a < uint b))" for a b :: u64
  by (simp_all add: bool_word_def word_sless_alt word_less_def)

lemmas alu_int = shift_amount un_uint high_half products sll_int srl_int sra_int c_div_int c_rem_int
  divu_int slt_int

section \<open>The 32-bit operations\<close>

definition W_ops :: "ALU_Op_enum set" where
  "W_ops = {ALU_ADD, ALU_SUB, ALU_SLL, ALU_SRL, ALU_SRA, ALU_MUL, ALU_DIV, ALU_DIVU, ALU_REM, ALU_REMU}"

lemma sext32_scast: "sext32 w = scast (ucast w :: u32)"
  by (rule bit_word_eqI) (auto simp: sext32_def bit_simps min_def)

lemma sint_sext32: "sint (sext32 w) = sint (ucast w :: u32)"
  by (simp add: sext32_scast sint_up_scast is_up)

lemma ucast_word_of_int: "(ucast (word_of_int r :: u64) :: u32) = word_of_int r"
  by (rule bit_word_eqI) (simp add: bit_simps)

lemma sext32_of_int: "sext32 (word_of_int r) = scast (word_of_int r :: u32)"
  by (simp only: sext32_scast ucast_word_of_int)

lemma un32: "un 32 (sint (sext32 a)) = uint (zext32 (sext32 a))"
proof -
  have "uint (zext32 w) = take_bit 32 (sint w)" for w :: u64
    by (simp only: zext32_def unsigned_take_bit_eq) (simp add: uint_sint)
  then show ?thesis by (simp add: un_def take_bit_eq_mod)
qed

lemma zext32_and: "a AND 0xffffffff = zext32 a"
proof -
  have "(0xffffffff :: u64) = mask 32" by (simp add: mask_eq_exp_minus_1)
  then show ?thesis by (simp only: zext32_def take_bit_eq_mask)
qed

lemma divu32_int:
  "(if sext32 b = 0 then -1 else zext32 (sext32 a) div zext32 (sext32 b))
     = word_of_int (if sint (sext32 b) = 0 then -1 else un 32 (sint (sext32 a)) div un 32 (sint (sext32 b)))"
  "(if sext32 b = 0 then sext32 a else zext32 (sext32 a) mod zext32 (sext32 b))
     = word_of_int (if sint (sext32 b) = 0 then sint (sext32 a)
         else un 32 (sint (sext32 a)) mod un 32 (sint (sext32 b)))"
  by (simp_all add: un32 udiv_int)

lemma ring_int: "a + b = word_of_int (sint a + sint b)" "a - b = word_of_int (sint a - sint b)"
    "a * b = word_of_int (sint a * sint b)" for a b :: u64
  by simp_all

lemma minus_1_32: "scast (word_of_int (-1) :: u32) = (scast (word_of_int (2 ^ 32 - 1) :: u32) :: u64)"
  by simp

section \<open>Properties\<close>

text \<open>
  C32. The 64-bit operations compute the RISC-V results: on every pair of registers, the arithmetic
  unit returns the integer operation of \<open>rv_alu\<close> on their signed readings, cut to 64 bits (division by
  zero and the overflowing division included), and only \<open>ALU_NOP\<close> aborts.
\<close>

theorem alu_exec_64:
  "alu_exec a b op False =
     (case rv_alu 64 op (sint a) (sint b) of None \<Rightarrow> Inl AssertFail | Some r \<Rightarrow> Inr (word_of_int r))"
proof (cases op)
qed (simp_all only: alu_exec_def rv_alu_def Let_def if_False bnd_Inr bnd_Inl ALU_Op_enum.case option.case alu_int,
    simp_all add: logic_int[symmetric])

text \<open>
  C33. The 32-bit operations compute the RISC-V W results: with \<open>op_32\<close>, every operation that a W
  instruction uses returns the 32-bit operation of \<open>rv_alu\<close> on the signed readings of the low
  halves of its operands, cut to 32 bits and sign extended.
\<close>

theorem alu_exec_32:
  assumes "op \<in> W_ops"
  shows "\<exists>r. rv_alu 32 op (sint (ucast a :: u32)) (sint (ucast b :: u32)) = Some r
    \<and> alu_exec a b op True = Inr (scast (word_of_int r :: u32))"
  unfolding sint_sext32[symmetric]
  using assms
  by (cases op)
     (simp_all only: W_ops_def insert_iff empty_iff ALU_Op_enum.distinct simp_thms alu_exec_def rv_alu_def
        Let_def if_True bnd_Inr ALU_Op_enum.case option.inject ex_simps zext32_and alu_int divu32_int ring_int sext32_of_int
        minus_1_32, simp_all add: un32 sext32_of_int srl_int)

theorem alu_exec_32_witness:
  "\<exists>r. rv_alu 32 ALU_DIV (sint (ucast (0x80000000 :: u64) :: u32)) (sint (ucast (-1 :: u64) :: u32)) = Some r
    \<and> alu_exec 0x80000000 (-1) ALU_DIV True = Inr (scast (word_of_int r :: u32))"
  by (rule alu_exec_32 [of ALU_DIV]) (simp add: W_ops_def)

end
