(* ===== verification/Encoding.thy ===== *)
theory Encoding
  imports Prelude
begin

text \<open>
  Instruction words and the enumerations that name their fields: \<open>RVInst_t\<close> and the enumerations of
  \<open>misc/rv64_inst.h\<close>, and the CSR numbers of \<open>misc/rv64_csr_structs.h\<close>. Each enumeration is a
  datatype \<open>E\<close> with its values \<open>E_val\<close>; \<open>E_of\<close> is the reading of a number as a member.
\<close>

section \<open>Fields of an instruction\<close>

text \<open>
  The bit fields of the union \<open>RVInst_t\<close>, named after the format and the field. A field declared
  \<open>int\<close> is sign extended when it is read, a field declared \<open>unsigned int\<close> is not.
\<close>

datatype (plugins only: code size) RVInst_field =
    r_opcode | r_rd | r_funct3 | r_rs1 | r_rs2 | r_funct7
  | i_opcode | i_rd | i_funct3 | i_rs1 | i_imm12
  | s_opcode | s_imm_4_0 | s_funct3 | s_rs1 | s_rs2 | s_imm_11_5
  | b_opcode | b_imm_11 | b_imm_4_1 | b_funct3 | b_rs1 | b_rs2 | b_imm_10_5 | b_imm_12
  | u_opcode | u_rd | u_imm_31_12
  | j_opcode | j_rd | j_imm_19_12 | j_imm_11 | j_imm_10_1 | j_imm_20

primrec RVInst_pos :: "RVInst_field \<Rightarrow> nat \<times> nat" where
  "RVInst_pos r_opcode = (0, 7)" | "RVInst_pos r_rd = (7, 5)" | "RVInst_pos r_funct3 = (12, 3)"
| "RVInst_pos r_rs1 = (15, 5)" | "RVInst_pos r_rs2 = (20, 5)" | "RVInst_pos r_funct7 = (25, 7)"
| "RVInst_pos i_opcode = (0, 7)" | "RVInst_pos i_rd = (7, 5)" | "RVInst_pos i_funct3 = (12, 3)"
| "RVInst_pos i_rs1 = (15, 5)" | "RVInst_pos i_imm12 = (20, 12)"
| "RVInst_pos s_opcode = (0, 7)" | "RVInst_pos s_imm_4_0 = (7, 5)" | "RVInst_pos s_funct3 = (12, 3)"
| "RVInst_pos s_rs1 = (15, 5)" | "RVInst_pos s_rs2 = (20, 5)" | "RVInst_pos s_imm_11_5 = (25, 7)"
| "RVInst_pos b_opcode = (0, 7)" | "RVInst_pos b_imm_11 = (7, 1)" | "RVInst_pos b_imm_4_1 = (8, 4)"
| "RVInst_pos b_funct3 = (12, 3)" | "RVInst_pos b_rs1 = (15, 5)" | "RVInst_pos b_rs2 = (20, 5)"
| "RVInst_pos b_imm_10_5 = (25, 6)" | "RVInst_pos b_imm_12 = (31, 1)"
| "RVInst_pos u_opcode = (0, 7)" | "RVInst_pos u_rd = (7, 5)" | "RVInst_pos u_imm_31_12 = (12, 20)"
| "RVInst_pos j_opcode = (0, 7)" | "RVInst_pos j_rd = (7, 5)" | "RVInst_pos j_imm_19_12 = (12, 8)"
| "RVInst_pos j_imm_11 = (20, 1)" | "RVInst_pos j_imm_10_1 = (21, 10)" | "RVInst_pos j_imm_20 = (31, 1)"

definition RVInst_signed :: "RVInst_field \<Rightarrow> bool" where
  "RVInst_signed f \<longleftrightarrow> f \<in> {i_imm12, s_imm_11_5, b_imm_12, u_imm_31_12, j_imm_20}"

definition fld :: "u32 \<Rightarrow> RVInst_field \<Rightarrow> u32" where
  "fld inst f = (case RVInst_pos f of (lo, n) \<Rightarrow>
     if RVInst_signed f then signed_take_bit (n - 1) (drop_bit lo inst) else bf_get lo n inst)"

text \<open>The macro \<open>binary_concat(value, r, l, shift)\<close>, on 32-bit values.\<close>

definition binary_concat :: "u32 \<Rightarrow> nat \<Rightarrow> nat \<Rightarrow> nat \<Rightarrow> u32" where
  "binary_concat value r l shift = push_bit shift (drop_bit l value AND (push_bit (r - l + 1) 1 - 1))"

text \<open>Register numbers, the index type of the array \<open>GPR[32]\<close>.\<close>

type_synonym reg = "5 word"

definition rg :: "u32 \<Rightarrow> RVInst_field \<Rightarrow> reg" where
  "rg inst f = ucast (fld inst f)"

section \<open>Enumerations of \<open>misc/rv64_inst.h\<close>\<close>

datatype RV64I_OpCode_enum =
    OPCODE_LUI | OPCODE_AUIPC | OPCODE_JAL | OPCODE_JALR | OPCODE_BRANCH | OPCODE_LOAD
    | OPCODE_STORE | OPCODE_OPIMM | OPCODE_OPIMM32 | OPCODE_OP | OPCODE_OP32 | OPCODE_FENCE
    | OPCODE_SYSTEM | OPCODE_AMO

primrec RV64I_OpCode_enum_val :: "RV64I_OpCode_enum \<Rightarrow> u32" where
  "RV64I_OpCode_enum_val OPCODE_LUI = 55"
| "RV64I_OpCode_enum_val OPCODE_AUIPC = 23"
| "RV64I_OpCode_enum_val OPCODE_JAL = 111"
| "RV64I_OpCode_enum_val OPCODE_JALR = 103"
| "RV64I_OpCode_enum_val OPCODE_BRANCH = 99"
| "RV64I_OpCode_enum_val OPCODE_LOAD = 3"
| "RV64I_OpCode_enum_val OPCODE_STORE = 35"
| "RV64I_OpCode_enum_val OPCODE_OPIMM = 19"
| "RV64I_OpCode_enum_val OPCODE_OPIMM32 = 27"
| "RV64I_OpCode_enum_val OPCODE_OP = 51"
| "RV64I_OpCode_enum_val OPCODE_OP32 = 59"
| "RV64I_OpCode_enum_val OPCODE_FENCE = 15"
| "RV64I_OpCode_enum_val OPCODE_SYSTEM = 115"
| "RV64I_OpCode_enum_val OPCODE_AMO = 47"

definition RV64I_OpCode_enum_all :: "RV64I_OpCode_enum list" where
  "RV64I_OpCode_enum_all = [OPCODE_LUI, OPCODE_AUIPC, OPCODE_JAL, OPCODE_JALR, OPCODE_BRANCH,
     OPCODE_LOAD, OPCODE_STORE, OPCODE_OPIMM, OPCODE_OPIMM32, OPCODE_OP, OPCODE_OP32,
     OPCODE_FENCE, OPCODE_SYSTEM, OPCODE_AMO]"

definition RV64I_OpCode_enum_of :: "u32 \<Rightarrow> RV64I_OpCode_enum option" where
  "RV64I_OpCode_enum_of w = enum_of RV64I_OpCode_enum_val RV64I_OpCode_enum_all w"

lemma RV64I_OpCode_enum_of_val [simp]: "RV64I_OpCode_enum_of (RV64I_OpCode_enum_val c) = Some c"
  by (cases c) (simp_all add: RV64I_OpCode_enum_of_def RV64I_OpCode_enum_all_def enum_of_def)

lemma RV64I_OpCode_enum_val_of: "RV64I_OpCode_enum_of w = Some c \<Longrightarrow> RV64I_OpCode_enum_val c = w"
  by (auto simp: RV64I_OpCode_enum_of_def dest: enum_of_SomeD)

datatype (plugins only: code size) RV64C_OpCode_enum =
    OPCODE_C_ADDI4SPN | OPCODE_C_LW | OPCODE_C_LD | OPCODE_C_SW | OPCODE_C_SD | OPCODE_C_ADDI
    | OPCODE_C_ADDIW | OPCODE_C_LI | OPCODE_C_ADDI16SPN_LUI | OPCODE_C_ALU | OPCODE_C_J
    | OPCODE_C_BEQZ | OPCODE_C_BNEZ | OPCODE_C_SLLI | OPCODE_C_LWSP | OPCODE_C_LDSP
    | OPCODE_C_JR_MV_EB_JALR_ADD | OPCODE_C_SWSP | OPCODE_C_SDSP

primrec RV64C_OpCode_enum_val :: "RV64C_OpCode_enum \<Rightarrow> u32" where
  "RV64C_OpCode_enum_val OPCODE_C_ADDI4SPN = 0"
| "RV64C_OpCode_enum_val OPCODE_C_LW = 2"
| "RV64C_OpCode_enum_val OPCODE_C_LD = 3"
| "RV64C_OpCode_enum_val OPCODE_C_SW = 6"
| "RV64C_OpCode_enum_val OPCODE_C_SD = 7"
| "RV64C_OpCode_enum_val OPCODE_C_ADDI = 8"
| "RV64C_OpCode_enum_val OPCODE_C_ADDIW = 9"
| "RV64C_OpCode_enum_val OPCODE_C_LI = 10"
| "RV64C_OpCode_enum_val OPCODE_C_ADDI16SPN_LUI = 11"
| "RV64C_OpCode_enum_val OPCODE_C_ALU = 12"
| "RV64C_OpCode_enum_val OPCODE_C_J = 13"
| "RV64C_OpCode_enum_val OPCODE_C_BEQZ = 14"
| "RV64C_OpCode_enum_val OPCODE_C_BNEZ = 15"
| "RV64C_OpCode_enum_val OPCODE_C_SLLI = 16"
| "RV64C_OpCode_enum_val OPCODE_C_LWSP = 18"
| "RV64C_OpCode_enum_val OPCODE_C_LDSP = 19"
| "RV64C_OpCode_enum_val OPCODE_C_JR_MV_EB_JALR_ADD = 20"
| "RV64C_OpCode_enum_val OPCODE_C_SWSP = 22"
| "RV64C_OpCode_enum_val OPCODE_C_SDSP = 23"

definition RV64C_OpCode_enum_all :: "RV64C_OpCode_enum list" where
  "RV64C_OpCode_enum_all = [OPCODE_C_ADDI4SPN, OPCODE_C_LW, OPCODE_C_LD, OPCODE_C_SW,
     OPCODE_C_SD, OPCODE_C_ADDI, OPCODE_C_ADDIW, OPCODE_C_LI, OPCODE_C_ADDI16SPN_LUI,
     OPCODE_C_ALU, OPCODE_C_J, OPCODE_C_BEQZ, OPCODE_C_BNEZ, OPCODE_C_SLLI, OPCODE_C_LWSP,
     OPCODE_C_LDSP, OPCODE_C_JR_MV_EB_JALR_ADD, OPCODE_C_SWSP, OPCODE_C_SDSP]"

definition RV64C_OpCode_enum_of :: "u32 \<Rightarrow> RV64C_OpCode_enum option" where
  "RV64C_OpCode_enum_of w = enum_of RV64C_OpCode_enum_val RV64C_OpCode_enum_all w"

lemma RV64C_OpCode_enum_of_val [simp]: "RV64C_OpCode_enum_of (RV64C_OpCode_enum_val c) = Some c"
  by (cases c) (simp_all add: RV64C_OpCode_enum_of_def RV64C_OpCode_enum_all_def enum_of_def)

lemma RV64C_OpCode_enum_val_of: "RV64C_OpCode_enum_of w = Some c \<Longrightarrow> RV64C_OpCode_enum_val c = w"
  by (auto simp: RV64C_OpCode_enum_of_def dest: enum_of_SomeD)

datatype RV64C_Funct2_enum =
    FUNCT2_SUB | FUNCT2_XOR_ADDW | FUNCT2_OR | FUNCT2_AND

primrec RV64C_Funct2_enum_val :: "RV64C_Funct2_enum \<Rightarrow> u32" where
  "RV64C_Funct2_enum_val FUNCT2_SUB = 0"
| "RV64C_Funct2_enum_val FUNCT2_XOR_ADDW = 1"
| "RV64C_Funct2_enum_val FUNCT2_OR = 2"
| "RV64C_Funct2_enum_val FUNCT2_AND = 3"

definition RV64C_Funct2_enum_all :: "RV64C_Funct2_enum list" where
  "RV64C_Funct2_enum_all = [FUNCT2_SUB, FUNCT2_XOR_ADDW, FUNCT2_OR, FUNCT2_AND]"

definition RV64C_Funct2_enum_of :: "u32 \<Rightarrow> RV64C_Funct2_enum option" where
  "RV64C_Funct2_enum_of w = enum_of RV64C_Funct2_enum_val RV64C_Funct2_enum_all w"

lemma RV64C_Funct2_enum_of_val [simp]: "RV64C_Funct2_enum_of (RV64C_Funct2_enum_val c) = Some c"
  by (cases c) (simp_all add: RV64C_Funct2_enum_of_def RV64C_Funct2_enum_all_def enum_of_def)

lemma RV64C_Funct2_enum_val_of: "RV64C_Funct2_enum_of w = Some c \<Longrightarrow> RV64C_Funct2_enum_val c = w"
  by (auto simp: RV64C_Funct2_enum_of_def dest: enum_of_SomeD)

datatype Funct3_Branch_enum =
    FUNCT3_BEQ | FUNCT3_BNE | FUNCT3_BLT | FUNCT3_BGE | FUNCT3_BLTU | FUNCT3_BGEU

primrec Funct3_Branch_enum_val :: "Funct3_Branch_enum \<Rightarrow> u32" where
  "Funct3_Branch_enum_val FUNCT3_BEQ = 0"
| "Funct3_Branch_enum_val FUNCT3_BNE = 1"
| "Funct3_Branch_enum_val FUNCT3_BLT = 4"
| "Funct3_Branch_enum_val FUNCT3_BGE = 5"
| "Funct3_Branch_enum_val FUNCT3_BLTU = 6"
| "Funct3_Branch_enum_val FUNCT3_BGEU = 7"

definition Funct3_Branch_enum_all :: "Funct3_Branch_enum list" where
  "Funct3_Branch_enum_all = [FUNCT3_BEQ, FUNCT3_BNE, FUNCT3_BLT, FUNCT3_BGE, FUNCT3_BLTU,
     FUNCT3_BGEU]"

definition Funct3_Branch_enum_of :: "u32 \<Rightarrow> Funct3_Branch_enum option" where
  "Funct3_Branch_enum_of w = enum_of Funct3_Branch_enum_val Funct3_Branch_enum_all w"

lemma Funct3_Branch_enum_of_val [simp]: "Funct3_Branch_enum_of (Funct3_Branch_enum_val c) = Some c"
  by (cases c) (simp_all add: Funct3_Branch_enum_of_def Funct3_Branch_enum_all_def enum_of_def)

lemma Funct3_Branch_enum_val_of: "Funct3_Branch_enum_of w = Some c \<Longrightarrow> Funct3_Branch_enum_val c = w"
  by (auto simp: Funct3_Branch_enum_of_def dest: enum_of_SomeD)

datatype Funct3_Load_enum =
    FUNCT3_LB | FUNCT3_LH | FUNCT3_LW | FUNCT3_LD | FUNCT3_LBU | FUNCT3_LHU | FUNCT3_LWU

primrec Funct3_Load_enum_val :: "Funct3_Load_enum \<Rightarrow> u32" where
  "Funct3_Load_enum_val FUNCT3_LB = 0"
| "Funct3_Load_enum_val FUNCT3_LH = 1"
| "Funct3_Load_enum_val FUNCT3_LW = 2"
| "Funct3_Load_enum_val FUNCT3_LD = 3"
| "Funct3_Load_enum_val FUNCT3_LBU = 4"
| "Funct3_Load_enum_val FUNCT3_LHU = 5"
| "Funct3_Load_enum_val FUNCT3_LWU = 6"

definition Funct3_Load_enum_all :: "Funct3_Load_enum list" where
  "Funct3_Load_enum_all = [FUNCT3_LB, FUNCT3_LH, FUNCT3_LW, FUNCT3_LD, FUNCT3_LBU, FUNCT3_LHU,
     FUNCT3_LWU]"

definition Funct3_Load_enum_of :: "u32 \<Rightarrow> Funct3_Load_enum option" where
  "Funct3_Load_enum_of w = enum_of Funct3_Load_enum_val Funct3_Load_enum_all w"

lemma Funct3_Load_enum_of_val [simp]: "Funct3_Load_enum_of (Funct3_Load_enum_val c) = Some c"
  by (cases c) (simp_all add: Funct3_Load_enum_of_def Funct3_Load_enum_all_def enum_of_def)

lemma Funct3_Load_enum_val_of: "Funct3_Load_enum_of w = Some c \<Longrightarrow> Funct3_Load_enum_val c = w"
  by (auto simp: Funct3_Load_enum_of_def dest: enum_of_SomeD)

datatype Funct3_Store_enum =
    FUNCT3_SB | FUNCT3_SH | FUNCT3_SW | FUNCT3_SD

primrec Funct3_Store_enum_val :: "Funct3_Store_enum \<Rightarrow> u32" where
  "Funct3_Store_enum_val FUNCT3_SB = 0"
| "Funct3_Store_enum_val FUNCT3_SH = 1"
| "Funct3_Store_enum_val FUNCT3_SW = 2"
| "Funct3_Store_enum_val FUNCT3_SD = 3"

definition Funct3_Store_enum_all :: "Funct3_Store_enum list" where
  "Funct3_Store_enum_all = [FUNCT3_SB, FUNCT3_SH, FUNCT3_SW, FUNCT3_SD]"

definition Funct3_Store_enum_of :: "u32 \<Rightarrow> Funct3_Store_enum option" where
  "Funct3_Store_enum_of w = enum_of Funct3_Store_enum_val Funct3_Store_enum_all w"

lemma Funct3_Store_enum_of_val [simp]: "Funct3_Store_enum_of (Funct3_Store_enum_val c) = Some c"
  by (cases c) (simp_all add: Funct3_Store_enum_of_def Funct3_Store_enum_all_def enum_of_def)

lemma Funct3_Store_enum_val_of: "Funct3_Store_enum_of w = Some c \<Longrightarrow> Funct3_Store_enum_val c = w"
  by (auto simp: Funct3_Store_enum_of_def dest: enum_of_SomeD)

datatype Funct3_Op_enum =
    FUNCT3_ADD_SUB | FUNCT3_SLL | FUNCT3_SLT | FUNCT3_SLTU | FUNCT3_XOR | FUNCT3_SRL_SRA
    | FUNCT3_OR | FUNCT3_AND

primrec Funct3_Op_enum_val :: "Funct3_Op_enum \<Rightarrow> u32" where
  "Funct3_Op_enum_val FUNCT3_ADD_SUB = 0"
| "Funct3_Op_enum_val FUNCT3_SLL = 1"
| "Funct3_Op_enum_val FUNCT3_SLT = 2"
| "Funct3_Op_enum_val FUNCT3_SLTU = 3"
| "Funct3_Op_enum_val FUNCT3_XOR = 4"
| "Funct3_Op_enum_val FUNCT3_SRL_SRA = 5"
| "Funct3_Op_enum_val FUNCT3_OR = 6"
| "Funct3_Op_enum_val FUNCT3_AND = 7"

definition Funct3_Op_enum_all :: "Funct3_Op_enum list" where
  "Funct3_Op_enum_all = [FUNCT3_ADD_SUB, FUNCT3_SLL, FUNCT3_SLT, FUNCT3_SLTU, FUNCT3_XOR,
     FUNCT3_SRL_SRA, FUNCT3_OR, FUNCT3_AND]"

definition Funct3_Op_enum_of :: "u32 \<Rightarrow> Funct3_Op_enum option" where
  "Funct3_Op_enum_of w = enum_of Funct3_Op_enum_val Funct3_Op_enum_all w"

lemma Funct3_Op_enum_of_val [simp]: "Funct3_Op_enum_of (Funct3_Op_enum_val c) = Some c"
  by (cases c) (simp_all add: Funct3_Op_enum_of_def Funct3_Op_enum_all_def enum_of_def)

lemma Funct3_Op_enum_val_of: "Funct3_Op_enum_of w = Some c \<Longrightarrow> Funct3_Op_enum_val c = w"
  by (auto simp: Funct3_Op_enum_of_def dest: enum_of_SomeD)

datatype Funct3_M_enum =
    FUNCT3_MUL | FUNCT3_MULH | FUNCT3_MULHSU | FUNCT3_MULHU | FUNCT3_DIV | FUNCT3_DIVU
    | FUNCT3_REM | FUNCT3_REMU

primrec Funct3_M_enum_val :: "Funct3_M_enum \<Rightarrow> u32" where
  "Funct3_M_enum_val FUNCT3_MUL = 0"
| "Funct3_M_enum_val FUNCT3_MULH = 1"
| "Funct3_M_enum_val FUNCT3_MULHSU = 2"
| "Funct3_M_enum_val FUNCT3_MULHU = 3"
| "Funct3_M_enum_val FUNCT3_DIV = 4"
| "Funct3_M_enum_val FUNCT3_DIVU = 5"
| "Funct3_M_enum_val FUNCT3_REM = 6"
| "Funct3_M_enum_val FUNCT3_REMU = 7"

definition Funct3_M_enum_all :: "Funct3_M_enum list" where
  "Funct3_M_enum_all = [FUNCT3_MUL, FUNCT3_MULH, FUNCT3_MULHSU, FUNCT3_MULHU, FUNCT3_DIV,
     FUNCT3_DIVU, FUNCT3_REM, FUNCT3_REMU]"

definition Funct3_M_enum_of :: "u32 \<Rightarrow> Funct3_M_enum option" where
  "Funct3_M_enum_of w = enum_of Funct3_M_enum_val Funct3_M_enum_all w"

lemma Funct3_M_enum_of_val [simp]: "Funct3_M_enum_of (Funct3_M_enum_val c) = Some c"
  by (cases c) (simp_all add: Funct3_M_enum_of_def Funct3_M_enum_all_def enum_of_def)

lemma Funct3_M_enum_val_of: "Funct3_M_enum_of w = Some c \<Longrightarrow> Funct3_M_enum_val c = w"
  by (auto simp: Funct3_M_enum_of_def dest: enum_of_SomeD)

datatype Funct3_System_enum =
    FUNCT3_PRIV | FUNCT3_CSRRW | FUNCT3_CSRRS | FUNCT3_CSRRC | FUNCT3_HLSV | FUNCT3_CSRRWI
    | FUNCT3_CSRRSI | FUNCT3_CSRRCI

primrec Funct3_System_enum_val :: "Funct3_System_enum \<Rightarrow> u32" where
  "Funct3_System_enum_val FUNCT3_PRIV = 0"
| "Funct3_System_enum_val FUNCT3_CSRRW = 1"
| "Funct3_System_enum_val FUNCT3_CSRRS = 2"
| "Funct3_System_enum_val FUNCT3_CSRRC = 3"
| "Funct3_System_enum_val FUNCT3_HLSV = 4"
| "Funct3_System_enum_val FUNCT3_CSRRWI = 5"
| "Funct3_System_enum_val FUNCT3_CSRRSI = 6"
| "Funct3_System_enum_val FUNCT3_CSRRCI = 7"

definition Funct3_System_enum_all :: "Funct3_System_enum list" where
  "Funct3_System_enum_all = [FUNCT3_PRIV, FUNCT3_CSRRW, FUNCT3_CSRRS, FUNCT3_CSRRC, FUNCT3_HLSV,
     FUNCT3_CSRRWI, FUNCT3_CSRRSI, FUNCT3_CSRRCI]"

definition Funct3_System_enum_of :: "u32 \<Rightarrow> Funct3_System_enum option" where
  "Funct3_System_enum_of w = enum_of Funct3_System_enum_val Funct3_System_enum_all w"

lemma Funct3_System_enum_of_val [simp]: "Funct3_System_enum_of (Funct3_System_enum_val c) = Some c"
  by (cases c) (simp_all add: Funct3_System_enum_of_def Funct3_System_enum_all_def enum_of_def)

lemma Funct3_System_enum_val_of: "Funct3_System_enum_of w = Some c \<Longrightarrow> Funct3_System_enum_val c = w"
  by (auto simp: Funct3_System_enum_of_def dest: enum_of_SomeD)

datatype Funct7_Priv_enum =
    FUNCT7_ECALL_EBREAK | FUNCT7_SRET_WFI | FUNCT7_MRET | FUNCT7_SFENCE_VMA

primrec Funct7_Priv_enum_val :: "Funct7_Priv_enum \<Rightarrow> u32" where
  "Funct7_Priv_enum_val FUNCT7_ECALL_EBREAK = 0"
| "Funct7_Priv_enum_val FUNCT7_SRET_WFI = 8"
| "Funct7_Priv_enum_val FUNCT7_MRET = 24"
| "Funct7_Priv_enum_val FUNCT7_SFENCE_VMA = 9"

definition Funct7_Priv_enum_all :: "Funct7_Priv_enum list" where
  "Funct7_Priv_enum_all = [FUNCT7_ECALL_EBREAK, FUNCT7_SRET_WFI, FUNCT7_MRET,
     FUNCT7_SFENCE_VMA]"

definition Funct7_Priv_enum_of :: "u32 \<Rightarrow> Funct7_Priv_enum option" where
  "Funct7_Priv_enum_of w = enum_of Funct7_Priv_enum_val Funct7_Priv_enum_all w"

lemma Funct7_Priv_enum_of_val [simp]: "Funct7_Priv_enum_of (Funct7_Priv_enum_val c) = Some c"
  by (cases c) (simp_all add: Funct7_Priv_enum_of_def Funct7_Priv_enum_all_def enum_of_def)

lemma Funct7_Priv_enum_val_of: "Funct7_Priv_enum_of w = Some c \<Longrightarrow> Funct7_Priv_enum_val c = w"
  by (auto simp: Funct7_Priv_enum_of_def dest: enum_of_SomeD)

datatype Funct7_Op_enum =
    FUNCT7_NORMAL | FUNCT7_SUB_SRA | FUNCT7_MUL

primrec Funct7_Op_enum_val :: "Funct7_Op_enum \<Rightarrow> u32" where
  "Funct7_Op_enum_val FUNCT7_NORMAL = 0"
| "Funct7_Op_enum_val FUNCT7_SUB_SRA = 32"
| "Funct7_Op_enum_val FUNCT7_MUL = 1"

definition Funct7_Op_enum_all :: "Funct7_Op_enum list" where
  "Funct7_Op_enum_all = [FUNCT7_NORMAL, FUNCT7_SUB_SRA, FUNCT7_MUL]"

definition Funct7_Op_enum_of :: "u32 \<Rightarrow> Funct7_Op_enum option" where
  "Funct7_Op_enum_of w = enum_of Funct7_Op_enum_val Funct7_Op_enum_all w"

lemma Funct7_Op_enum_of_val [simp]: "Funct7_Op_enum_of (Funct7_Op_enum_val c) = Some c"
  by (cases c) (simp_all add: Funct7_Op_enum_of_def Funct7_Op_enum_all_def enum_of_def)

lemma Funct7_Op_enum_val_of: "Funct7_Op_enum_of w = Some c \<Longrightarrow> Funct7_Op_enum_val c = w"
  by (auto simp: Funct7_Op_enum_of_def dest: enum_of_SomeD)

datatype Funct6_Op_enum =
    FUNCT6_NORMAL | FUNCT6_SRA

primrec Funct6_Op_enum_val :: "Funct6_Op_enum \<Rightarrow> u32" where
  "Funct6_Op_enum_val FUNCT6_NORMAL = 0"
| "Funct6_Op_enum_val FUNCT6_SRA = 16"

definition Funct6_Op_enum_all :: "Funct6_Op_enum list" where
  "Funct6_Op_enum_all = [FUNCT6_NORMAL, FUNCT6_SRA]"

definition Funct6_Op_enum_of :: "u32 \<Rightarrow> Funct6_Op_enum option" where
  "Funct6_Op_enum_of w = enum_of Funct6_Op_enum_val Funct6_Op_enum_all w"

lemma Funct6_Op_enum_of_val [simp]: "Funct6_Op_enum_of (Funct6_Op_enum_val c) = Some c"
  by (cases c) (simp_all add: Funct6_Op_enum_of_def Funct6_Op_enum_all_def enum_of_def)

lemma Funct6_Op_enum_val_of: "Funct6_Op_enum_of w = Some c \<Longrightarrow> Funct6_Op_enum_val c = w"
  by (auto simp: Funct6_Op_enum_of_def dest: enum_of_SomeD)

datatype AMO_Funct_enum =
    AMOLR | AMOSC | AMOSWAP | AMOADD | AMOXOR | AMOAND | AMOOR | AMOMIN | AMOMAX | AMOMINU
    | AMOMAXU

primrec AMO_Funct_enum_val :: "AMO_Funct_enum \<Rightarrow> u32" where
  "AMO_Funct_enum_val AMOLR = 2"
| "AMO_Funct_enum_val AMOSC = 3"
| "AMO_Funct_enum_val AMOSWAP = 1"
| "AMO_Funct_enum_val AMOADD = 0"
| "AMO_Funct_enum_val AMOXOR = 4"
| "AMO_Funct_enum_val AMOAND = 12"
| "AMO_Funct_enum_val AMOOR = 8"
| "AMO_Funct_enum_val AMOMIN = 16"
| "AMO_Funct_enum_val AMOMAX = 20"
| "AMO_Funct_enum_val AMOMINU = 24"
| "AMO_Funct_enum_val AMOMAXU = 28"

definition AMO_Funct_enum_all :: "AMO_Funct_enum list" where
  "AMO_Funct_enum_all = [AMOLR, AMOSC, AMOSWAP, AMOADD, AMOXOR, AMOAND, AMOOR, AMOMIN,
     AMOMAX, AMOMINU, AMOMAXU]"

definition AMO_Funct_enum_of :: "u32 \<Rightarrow> AMO_Funct_enum option" where
  "AMO_Funct_enum_of w = enum_of AMO_Funct_enum_val AMO_Funct_enum_all w"

lemma AMO_Funct_enum_of_val [simp]: "AMO_Funct_enum_of (AMO_Funct_enum_val c) = Some c"
  by (cases c) (simp_all add: AMO_Funct_enum_of_def AMO_Funct_enum_all_def enum_of_def)

lemma AMO_Funct_enum_val_of: "AMO_Funct_enum_of w = Some c \<Longrightarrow> AMO_Funct_enum_val c = w"
  by (auto simp: AMO_Funct_enum_of_def dest: enum_of_SomeD)

section \<open>CSR numbers\<close>

datatype (plugins only: code size) RV_CSR_Addr_enum =
    csr_cycle | csr_time | csr_instret | csr_sstatus | csr_sie | csr_stvec | csr_scounteren
    | csr_sscratch | csr_sepc | csr_scause | csr_stval | csr_sip | csr_satp | csr_mvendorid
    | csr_marchid | csr_mimpid | csr_mhartid | csr_mconfigptr | csr_mstatus | csr_misa
    | csr_medeleg | csr_mideleg | csr_mie | csr_mtvec | csr_mcounteren | csr_mscratch | csr_mepc
    | csr_mcause | csr_mtval | csr_mip | csr_pmpcfg0 | csr_pmpcfg1 | csr_pmpcfg2 | csr_pmpcfg3
    | csr_pmpaddr0 | csr_pmpaddr1 | csr_pmpaddr2 | csr_pmpaddr3 | csr_pmpaddr4 | csr_pmpaddr5
    | csr_pmpaddr6 | csr_pmpaddr7 | csr_pmpaddr8 | csr_pmpaddr9 | csr_pmpaddr10 | csr_pmpaddr11
    | csr_pmpaddr12 | csr_pmpaddr13 | csr_pmpaddr14 | csr_pmpaddr15 | csr_mcycle | csr_minstret
    | csr_tselect | csr_tdata1

primrec RV_CSR_Addr_enum_val :: "RV_CSR_Addr_enum \<Rightarrow> u32" where
  "RV_CSR_Addr_enum_val csr_cycle = 0xc00"
| "RV_CSR_Addr_enum_val csr_time = 0xc01"
| "RV_CSR_Addr_enum_val csr_instret = 0xc02"
| "RV_CSR_Addr_enum_val csr_sstatus = 0x100"
| "RV_CSR_Addr_enum_val csr_sie = 0x104"
| "RV_CSR_Addr_enum_val csr_stvec = 0x105"
| "RV_CSR_Addr_enum_val csr_scounteren = 0x106"
| "RV_CSR_Addr_enum_val csr_sscratch = 0x140"
| "RV_CSR_Addr_enum_val csr_sepc = 0x141"
| "RV_CSR_Addr_enum_val csr_scause = 0x142"
| "RV_CSR_Addr_enum_val csr_stval = 0x143"
| "RV_CSR_Addr_enum_val csr_sip = 0x144"
| "RV_CSR_Addr_enum_val csr_satp = 0x180"
| "RV_CSR_Addr_enum_val csr_mvendorid = 0xf11"
| "RV_CSR_Addr_enum_val csr_marchid = 0xf12"
| "RV_CSR_Addr_enum_val csr_mimpid = 0xf13"
| "RV_CSR_Addr_enum_val csr_mhartid = 0xf14"
| "RV_CSR_Addr_enum_val csr_mconfigptr = 0xf15"
| "RV_CSR_Addr_enum_val csr_mstatus = 0x300"
| "RV_CSR_Addr_enum_val csr_misa = 0x301"
| "RV_CSR_Addr_enum_val csr_medeleg = 0x302"
| "RV_CSR_Addr_enum_val csr_mideleg = 0x303"
| "RV_CSR_Addr_enum_val csr_mie = 0x304"
| "RV_CSR_Addr_enum_val csr_mtvec = 0x305"
| "RV_CSR_Addr_enum_val csr_mcounteren = 0x306"
| "RV_CSR_Addr_enum_val csr_mscratch = 0x340"
| "RV_CSR_Addr_enum_val csr_mepc = 0x341"
| "RV_CSR_Addr_enum_val csr_mcause = 0x342"
| "RV_CSR_Addr_enum_val csr_mtval = 0x343"
| "RV_CSR_Addr_enum_val csr_mip = 0x344"
| "RV_CSR_Addr_enum_val csr_pmpcfg0 = 0x3a0"
| "RV_CSR_Addr_enum_val csr_pmpcfg1 = 0x3a1"
| "RV_CSR_Addr_enum_val csr_pmpcfg2 = 0x3a2"
| "RV_CSR_Addr_enum_val csr_pmpcfg3 = 0x3a3"
| "RV_CSR_Addr_enum_val csr_pmpaddr0 = 0x3b0"
| "RV_CSR_Addr_enum_val csr_pmpaddr1 = 0x3b1"
| "RV_CSR_Addr_enum_val csr_pmpaddr2 = 0x3b2"
| "RV_CSR_Addr_enum_val csr_pmpaddr3 = 0x3b3"
| "RV_CSR_Addr_enum_val csr_pmpaddr4 = 0x3b4"
| "RV_CSR_Addr_enum_val csr_pmpaddr5 = 0x3b5"
| "RV_CSR_Addr_enum_val csr_pmpaddr6 = 0x3b6"
| "RV_CSR_Addr_enum_val csr_pmpaddr7 = 0x3b7"
| "RV_CSR_Addr_enum_val csr_pmpaddr8 = 0x3b8"
| "RV_CSR_Addr_enum_val csr_pmpaddr9 = 0x3b9"
| "RV_CSR_Addr_enum_val csr_pmpaddr10 = 0x3ba"
| "RV_CSR_Addr_enum_val csr_pmpaddr11 = 0x3bb"
| "RV_CSR_Addr_enum_val csr_pmpaddr12 = 0x3bc"
| "RV_CSR_Addr_enum_val csr_pmpaddr13 = 0x3bd"
| "RV_CSR_Addr_enum_val csr_pmpaddr14 = 0x3be"
| "RV_CSR_Addr_enum_val csr_pmpaddr15 = 0x3bf"
| "RV_CSR_Addr_enum_val csr_mcycle = 0xb00"
| "RV_CSR_Addr_enum_val csr_minstret = 0xb02"
| "RV_CSR_Addr_enum_val csr_tselect = 0x7a0"
| "RV_CSR_Addr_enum_val csr_tdata1 = 0x7a1"

definition RV_CSR_Addr_enum_all :: "RV_CSR_Addr_enum list" where
  "RV_CSR_Addr_enum_all = [csr_cycle, csr_time, csr_instret, csr_sstatus, csr_sie, csr_stvec,
     csr_scounteren, csr_sscratch, csr_sepc, csr_scause, csr_stval, csr_sip, csr_satp,
     csr_mvendorid, csr_marchid, csr_mimpid, csr_mhartid, csr_mconfigptr, csr_mstatus, csr_misa,
     csr_medeleg, csr_mideleg, csr_mie, csr_mtvec, csr_mcounteren, csr_mscratch, csr_mepc,
     csr_mcause, csr_mtval, csr_mip, csr_pmpcfg0, csr_pmpcfg1, csr_pmpcfg2, csr_pmpcfg3,
     csr_pmpaddr0, csr_pmpaddr1, csr_pmpaddr2, csr_pmpaddr3, csr_pmpaddr4, csr_pmpaddr5,
     csr_pmpaddr6, csr_pmpaddr7, csr_pmpaddr8, csr_pmpaddr9, csr_pmpaddr10, csr_pmpaddr11,
     csr_pmpaddr12, csr_pmpaddr13, csr_pmpaddr14, csr_pmpaddr15, csr_mcycle, csr_minstret,
     csr_tselect, csr_tdata1]"

definition RV_CSR_Addr_enum_of :: "u32 \<Rightarrow> RV_CSR_Addr_enum option" where
  "RV_CSR_Addr_enum_of w = enum_of RV_CSR_Addr_enum_val RV_CSR_Addr_enum_all w"

lemma RV_CSR_Addr_enum_of_val [simp]: "RV_CSR_Addr_enum_of (RV_CSR_Addr_enum_val c) = Some c"
  by (cases c) (simp_all add: RV_CSR_Addr_enum_of_def RV_CSR_Addr_enum_all_def enum_of_def)

lemma RV_CSR_Addr_enum_val_of: "RV_CSR_Addr_enum_of w = Some c \<Longrightarrow> RV_CSR_Addr_enum_val c = w"
  by (auto simp: RV_CSR_Addr_enum_of_def dest: enum_of_SomeD)

end
