(* ===== verification/Structs.thy ===== *)
theory Structs
  imports Prelude
begin

text \<open>
  The 64-bit registers that the C++ code reads through unions of bit fields. Each union \<open>T\<close> is a
  datatype \<open>T_field\<close> of its fields with the position and width \<open>T_pos\<close> of each; \<open>get_f\<close> reads a
  field and \<open>put_f\<close> assigns to it. The locale \<open>bit_struct\<close> is what every such layout must satisfy
  (fields inside the word, no overlap), and each layout interprets it.
\<close>

definition get_f :: "('f \<Rightarrow> nat \<times> nat) \<Rightarrow> 'f \<Rightarrow> u64 \<Rightarrow> u64" where
  "get_f pos f w = bf_get (fst (pos f)) (snd (pos f)) w"

definition put_f :: "('f \<Rightarrow> nat \<times> nat) \<Rightarrow> 'f \<Rightarrow> u64 \<Rightarrow> u64 \<Rightarrow> u64" where
  "put_f pos f v w = bf_set (fst (pos f)) (snd (pos f)) v w"

locale bit_struct =
  fixes pos :: "'f \<Rightarrow> nat \<times> nat"
  assumes inside: "fst (pos f) + snd (pos f) \<le> 64"
    and disjoint: "f \<noteq> g \<Longrightarrow> fst (pos f) + snd (pos f) \<le> fst (pos g) \<or> fst (pos g) + snd (pos g) \<le> fst (pos f)"
begin

lemma get_put: "get_f pos f (put_f pos g v w) = (if f = g then take_bit (snd (pos f)) v else get_f pos f w)"
  using inside[of g] disjoint[of f g] by (auto simp: get_f_def put_f_def bf_get_set_same bf_get_set_other)

lemma put_put: "put_f pos f v (put_f pos f v' w) = put_f pos f v w"
  by (simp add: put_f_def bf_set_set_same)

lemma put_get: "put_f pos f (get_f pos f w) w = w"
  by (simp add: get_f_def put_f_def bf_set_get_self)

lemma put_commute: "f \<noteq> g \<Longrightarrow> put_f pos f v (put_f pos g v' w) = put_f pos g v' (put_f pos f v w)"
  using disjoint[of f g] by (intro bit_word_eqI) (auto simp: put_f_def bit_bf_set)

lemma get_lt: "snd (pos f) < 64 \<Longrightarrow> unat (get_f pos f w) < 2 ^ snd (pos f)"
  by (simp add: get_f_def bf_get_lt)

lemma take_get [simp]: "take_bit (snd (pos f)) (get_f pos f w) = get_f pos f w"
  by (simp add: get_f_def bf_get_def)

end

section \<open>Control and status registers\<close>

datatype (plugins only: code size) CSR_CounterEN_t_field =
    ce_cycle | ce_time | ce_instr_retire | ce_blank

primrec CSR_CounterEN_t_pos :: "CSR_CounterEN_t_field \<Rightarrow> nat \<times> nat" where
  "CSR_CounterEN_t_pos ce_cycle = (0, 1)" | "CSR_CounterEN_t_pos ce_time = (1, 1)"
| "CSR_CounterEN_t_pos ce_instr_retire = (2, 1)" | "CSR_CounterEN_t_pos ce_blank = (3, 61)"

datatype (plugins only: code size) CSReg_IntPending_t_field =
    ip_blank0 | ip_s_s_ip | ip_blank1 | ip_m_s_ip | ip_blank2 | ip_s_t_ip | ip_blank3
  | ip_m_t_ip | ip_blank4 | ip_s_e_ip | ip_blank5 | ip_m_e_ip

primrec CSReg_IntPending_t_pos :: "CSReg_IntPending_t_field \<Rightarrow> nat \<times> nat" where
  "CSReg_IntPending_t_pos ip_blank0 = (0, 1)" | "CSReg_IntPending_t_pos ip_s_s_ip = (1, 1)"
| "CSReg_IntPending_t_pos ip_blank1 = (2, 1)" | "CSReg_IntPending_t_pos ip_m_s_ip = (3, 1)"
| "CSReg_IntPending_t_pos ip_blank2 = (4, 1)" | "CSReg_IntPending_t_pos ip_s_t_ip = (5, 1)"
| "CSReg_IntPending_t_pos ip_blank3 = (6, 1)" | "CSReg_IntPending_t_pos ip_m_t_ip = (7, 1)"
| "CSReg_IntPending_t_pos ip_blank4 = (8, 1)" | "CSReg_IntPending_t_pos ip_s_e_ip = (9, 1)"
| "CSReg_IntPending_t_pos ip_blank5 = (10, 1)" | "CSReg_IntPending_t_pos ip_m_e_ip = (11, 1)"

datatype (plugins only: code size) CSReg_MStatus_t_field =
    ms_blank0 | ms_sie | ms_blank1 | ms_mie | ms_blank2 | ms_spie | ms_ube | ms_mpie | ms_spp
  | ms_vs | ms_mpp | ms_fs | ms_xs | ms_mprv | ms_sum | ms_mxr | ms_tvm | ms_tw | ms_tsr
  | ms_blank3 | ms_uxl | ms_sxl | ms_sbe | ms_mbe | ms_blank4 | ms_sd

primrec CSReg_MStatus_t_pos :: "CSReg_MStatus_t_field \<Rightarrow> nat \<times> nat" where
  "CSReg_MStatus_t_pos ms_blank0 = (0, 1)" | "CSReg_MStatus_t_pos ms_sie = (1, 1)"
| "CSReg_MStatus_t_pos ms_blank1 = (2, 1)" | "CSReg_MStatus_t_pos ms_mie = (3, 1)"
| "CSReg_MStatus_t_pos ms_blank2 = (4, 1)" | "CSReg_MStatus_t_pos ms_spie = (5, 1)"
| "CSReg_MStatus_t_pos ms_ube = (6, 1)" | "CSReg_MStatus_t_pos ms_mpie = (7, 1)"
| "CSReg_MStatus_t_pos ms_spp = (8, 1)" | "CSReg_MStatus_t_pos ms_vs = (9, 2)"
| "CSReg_MStatus_t_pos ms_mpp = (11, 2)" | "CSReg_MStatus_t_pos ms_fs = (13, 2)"
| "CSReg_MStatus_t_pos ms_xs = (15, 2)" | "CSReg_MStatus_t_pos ms_mprv = (17, 1)"
| "CSReg_MStatus_t_pos ms_sum = (18, 1)" | "CSReg_MStatus_t_pos ms_mxr = (19, 1)"
| "CSReg_MStatus_t_pos ms_tvm = (20, 1)" | "CSReg_MStatus_t_pos ms_tw = (21, 1)"
| "CSReg_MStatus_t_pos ms_tsr = (22, 1)" | "CSReg_MStatus_t_pos ms_blank3 = (23, 9)"
| "CSReg_MStatus_t_pos ms_uxl = (32, 2)" | "CSReg_MStatus_t_pos ms_sxl = (34, 2)"
| "CSReg_MStatus_t_pos ms_sbe = (36, 1)" | "CSReg_MStatus_t_pos ms_mbe = (37, 1)"
| "CSReg_MStatus_t_pos ms_blank4 = (38, 25)" | "CSReg_MStatus_t_pos ms_sd = (63, 1)"

datatype (plugins only: code size) CSReg_SStatus_t_field =
    ss_blank0 | ss_sie | ss_blank1 | ss_spie | ss_ube | ss_blank2 | ss_spp | ss_vs | ss_blank3
  | ss_fs | ss_xs | ss_blank4 | ss_sum | ss_mxr | ss_blank5 | ss_uxl | ss_blank6 | ss_sd

primrec CSReg_SStatus_t_pos :: "CSReg_SStatus_t_field \<Rightarrow> nat \<times> nat" where
  "CSReg_SStatus_t_pos ss_blank0 = (0, 1)" | "CSReg_SStatus_t_pos ss_sie = (1, 1)"
| "CSReg_SStatus_t_pos ss_blank1 = (2, 3)" | "CSReg_SStatus_t_pos ss_spie = (5, 1)"
| "CSReg_SStatus_t_pos ss_ube = (6, 1)" | "CSReg_SStatus_t_pos ss_blank2 = (7, 1)"
| "CSReg_SStatus_t_pos ss_spp = (8, 1)" | "CSReg_SStatus_t_pos ss_vs = (9, 2)"
| "CSReg_SStatus_t_pos ss_blank3 = (11, 2)" | "CSReg_SStatus_t_pos ss_fs = (13, 2)"
| "CSReg_SStatus_t_pos ss_xs = (15, 2)" | "CSReg_SStatus_t_pos ss_blank4 = (17, 1)"
| "CSReg_SStatus_t_pos ss_sum = (18, 1)" | "CSReg_SStatus_t_pos ss_mxr = (19, 1)"
| "CSReg_SStatus_t_pos ss_blank5 = (20, 12)" | "CSReg_SStatus_t_pos ss_uxl = (32, 2)"
| "CSReg_SStatus_t_pos ss_blank6 = (34, 29)" | "CSReg_SStatus_t_pos ss_sd = (63, 1)"

datatype (plugins only: code size) CSReg_TrapVector_t_field =
    tv_mode | tv_base

primrec CSReg_TrapVector_t_pos :: "CSReg_TrapVector_t_field \<Rightarrow> nat \<times> nat" where
  "CSReg_TrapVector_t_pos tv_mode = (0, 2)" | "CSReg_TrapVector_t_pos tv_base = (2, 62)"

datatype (plugins only: code size) CSReg_Cause_t_field =
    ca_cause | ca_interrupt

primrec CSReg_Cause_t_pos :: "CSReg_Cause_t_field \<Rightarrow> nat \<times> nat" where
  "CSReg_Cause_t_pos ca_cause = (0, 63)" | "CSReg_Cause_t_pos ca_interrupt = (63, 1)"

datatype (plugins only: code size) CSR_MISA_t_field =
    misa_ext | misa_blank | misa_mxl

primrec CSR_MISA_t_pos :: "CSR_MISA_t_field \<Rightarrow> nat \<times> nat" where
  "CSR_MISA_t_pos misa_ext = (0, 26)" | "CSR_MISA_t_pos misa_blank = (26, 36)"
| "CSR_MISA_t_pos misa_mxl = (62, 2)"

section \<open>Address translation\<close>

datatype (plugins only: code size) SATP_Reg_t_field =
    satp_ppn | satp_asid | satp_mode

primrec SATP_Reg_t_pos :: "SATP_Reg_t_field \<Rightarrow> nat \<times> nat" where
  "SATP_Reg_t_pos satp_ppn = (0, 44)" | "SATP_Reg_t_pos satp_asid = (44, 16)"
| "SATP_Reg_t_pos satp_mode = (60, 4)"

datatype (plugins only: code size) SV39_PageTableEntry_t_field =
    pte_V | pte_R | pte_W | pte_X | pte_U | pte_G | pte_A | pte_D | pte_RSW | pte_PPN0
  | pte_PPN1 | pte_PPN2 | pte_reserved | pte_PBMT | pte_N

primrec SV39_PageTableEntry_t_pos :: "SV39_PageTableEntry_t_field \<Rightarrow> nat \<times> nat" where
  "SV39_PageTableEntry_t_pos pte_V = (0, 1)" | "SV39_PageTableEntry_t_pos pte_R = (1, 1)"
| "SV39_PageTableEntry_t_pos pte_W = (2, 1)" | "SV39_PageTableEntry_t_pos pte_X = (3, 1)"
| "SV39_PageTableEntry_t_pos pte_U = (4, 1)" | "SV39_PageTableEntry_t_pos pte_G = (5, 1)"
| "SV39_PageTableEntry_t_pos pte_A = (6, 1)" | "SV39_PageTableEntry_t_pos pte_D = (7, 1)"
| "SV39_PageTableEntry_t_pos pte_RSW = (8, 2)" | "SV39_PageTableEntry_t_pos pte_PPN0 = (10, 9)"
| "SV39_PageTableEntry_t_pos pte_PPN1 = (19, 9)"
| "SV39_PageTableEntry_t_pos pte_PPN2 = (28, 26)"
| "SV39_PageTableEntry_t_pos pte_reserved = (54, 7)"
| "SV39_PageTableEntry_t_pos pte_PBMT = (61, 2)" | "SV39_PageTableEntry_t_pos pte_N = (63, 1)"

datatype (plugins only: code size) SV39_VAddr_t_field =
    va_page_off | va_vpn_0 | va_vpn_1 | va_vpn_2 | va_blank

primrec SV39_VAddr_t_pos :: "SV39_VAddr_t_field \<Rightarrow> nat \<times> nat" where
  "SV39_VAddr_t_pos va_page_off = (0, 12)" | "SV39_VAddr_t_pos va_vpn_0 = (12, 9)"
| "SV39_VAddr_t_pos va_vpn_1 = (21, 9)" | "SV39_VAddr_t_pos va_vpn_2 = (30, 9)"
| "SV39_VAddr_t_pos va_blank = (39, 25)"

section \<open>Every layout is a bit structure\<close>

interpretation cef: bit_struct CSR_CounterEN_t_pos
proof (unfold_locales, goal_cases)
  case (1 f) then show ?case by (cases f) simp_all
next
  case (2 f g) then show ?case by (cases f; cases g) simp_all
qed

interpretation ipf: bit_struct CSReg_IntPending_t_pos
proof (unfold_locales, goal_cases)
  case (1 f) then show ?case by (cases f) simp_all
next
  case (2 f g) then show ?case by (cases f; cases g) simp_all
qed

interpretation msf: bit_struct CSReg_MStatus_t_pos
proof (unfold_locales, goal_cases)
  case (1 f) then show ?case by (cases f) simp_all
next
  case (2 f g) then show ?case by (cases f; cases g) simp_all
qed

interpretation ssf: bit_struct CSReg_SStatus_t_pos
proof (unfold_locales, goal_cases)
  case (1 f) then show ?case by (cases f) simp_all
next
  case (2 f g) then show ?case by (cases f; cases g) simp_all
qed

interpretation tvf: bit_struct CSReg_TrapVector_t_pos
proof (unfold_locales, goal_cases)
  case (1 f) then show ?case by (cases f) simp_all
next
  case (2 f g) then show ?case by (cases f; cases g) simp_all
qed

interpretation caf: bit_struct CSReg_Cause_t_pos
proof (unfold_locales, goal_cases)
  case (1 f) then show ?case by (cases f) simp_all
next
  case (2 f g) then show ?case by (cases f; cases g) simp_all
qed

interpretation misaf: bit_struct CSR_MISA_t_pos
proof (unfold_locales, goal_cases)
  case (1 f) then show ?case by (cases f) simp_all
next
  case (2 f g) then show ?case by (cases f; cases g) simp_all
qed

interpretation satpf: bit_struct SATP_Reg_t_pos
proof (unfold_locales, goal_cases)
  case (1 f) then show ?case by (cases f) simp_all
next
  case (2 f g) then show ?case by (cases f; cases g) simp_all
qed

interpretation ptef: bit_struct SV39_PageTableEntry_t_pos
proof (unfold_locales, goal_cases)
  case (1 f) then show ?case by (cases f) simp_all
next
  case (2 f g) then show ?case by (cases f; cases g) simp_all
qed

interpretation vaf: bit_struct SV39_VAddr_t_pos
proof (unfold_locales, goal_cases)
  case (1 f) then show ?case by (cases f) simp_all
next
  case (2 f g) then show ?case by (cases f; cases g) simp_all
qed

end
