(* ===== verification/CoreState.thy ===== *)
theory CoreState
  imports Encoding Structs DevIf
begin

text \<open>
  The state of the simple RV64 core: the enumerations of \<open>misc/rv64_structs.h\<close>, the TLB entry of
  \<open>misc/rv64_sv39_structs.h\<close>, and the fields of the classes \<open>RV64SV39_MMU\<close> and \<open>RV64Core\<close>.
  The MMU object holds references to four fields of the core that owns it; here the record
  of the core extends the record of the MMU, so that each of these is one field.
\<close>

section \<open>Privilege modes\<close>

datatype PrivMode_e = U_MODE | S_MODE | H_MODE | M_MODE

primrec PrivMode_val :: "PrivMode_e \<Rightarrow> u64" where
  "PrivMode_val U_MODE = 0" | "PrivMode_val S_MODE = 1" | "PrivMode_val H_MODE = 2" | "PrivMode_val M_MODE = 3"

text \<open>The cast of a two bit field to \<open>PrivMode_e\<close>; every two bit value is a member.\<close>

definition PrivMode_of :: "u64 \<Rightarrow> PrivMode_e" where
  "PrivMode_of w = (if w = 0 then U_MODE else if w = 1 then S_MODE else if w = 2 then H_MODE else M_MODE)"

lemma PrivMode_of_val [simp]: "PrivMode_of (PrivMode_val p) = p"
  by (cases p) (simp_all add: PrivMode_of_def)

lemma PrivMode_val_inject [simp]: "PrivMode_val p = PrivMode_val q \<longleftrightarrow> p = q"
  by (metis PrivMode_of_val)

lemma PrivMode_val_lt: "unat (PrivMode_val p) < 4"
  by (cases p) simp_all

instantiation PrivMode_e :: linorder
begin

definition less_eq_PrivMode_e :: "PrivMode_e \<Rightarrow> PrivMode_e \<Rightarrow> bool" where
  "p \<le> q \<longleftrightarrow> PrivMode_val p \<le> PrivMode_val q"

definition less_PrivMode_e :: "PrivMode_e \<Rightarrow> PrivMode_e \<Rightarrow> bool" where
  "p < q \<longleftrightarrow> PrivMode_val p < PrivMode_val q"

instance
proof
  fix p q r :: PrivMode_e
  show "p < q \<longleftrightarrow> p \<le> q \<and> \<not> q \<le> p" by (simp add: less_eq_PrivMode_e_def less_PrivMode_e_def less_le_not_le)
  show "p \<le> p" by (simp add: less_eq_PrivMode_e_def)
  show "p \<le> q \<Longrightarrow> q \<le> r \<Longrightarrow> p \<le> r" by (simp add: less_eq_PrivMode_e_def)
  show "p \<le> q \<Longrightarrow> q \<le> p \<Longrightarrow> p = q" by (simp add: less_eq_PrivMode_e_def)
  show "p \<le> q \<or> q \<le> p" by (auto simp: less_eq_PrivMode_e_def)
qed

end

section \<open>Exceptions and interrupts\<close>

datatype RV64_ExecFeedbackCode_e =
    exec_instr_misalign | exec_instr_acc_fault | exec_illegal_instr | exec_breakpoint
  | exec_load_misalign | exec_load_acc_fault | exec_store_misalign | exec_store_acc_fault
  | exec_ecall_from_user | exec_ecall_from_supervisor | exec_ecall_from_machine
  | exec_instr_pgfault | exec_load_pgfault | exec_store_pgfault | exec_ok

primrec exec_val :: "RV64_ExecFeedbackCode_e \<Rightarrow> u64" where
  "exec_val exec_instr_misalign = 0" | "exec_val exec_instr_acc_fault = 1"
| "exec_val exec_illegal_instr = 2" | "exec_val exec_breakpoint = 3"
| "exec_val exec_load_misalign = 4" | "exec_val exec_load_acc_fault = 5"
| "exec_val exec_store_misalign = 6" | "exec_val exec_store_acc_fault = 7"
| "exec_val exec_ecall_from_user = 8" | "exec_val exec_ecall_from_supervisor = 9"
| "exec_val exec_ecall_from_machine = 11" | "exec_val exec_instr_pgfault = 12"
| "exec_val exec_load_pgfault = 13" | "exec_val exec_store_pgfault = 15" | "exec_val exec_ok = 24"

datatype IntType_e = int_s_sw | int_m_sw | int_s_timer | int_m_timer | int_s_ext | int_m_ext | int_no_int

primrec IntType_val :: "IntType_e \<Rightarrow> nat" where
  "IntType_val int_s_sw = 1" | "IntType_val int_m_sw = 3" | "IntType_val int_s_timer = 5"
| "IntType_val int_m_timer = 7" | "IntType_val int_s_ext = 9" | "IntType_val int_m_ext = 11"
| "IntType_val int_no_int = 24"

definition int_bit :: "IntType_e \<Rightarrow> u64" where
  "int_bit i = push_bit (IntType_val i) 1"

definition bits_to_int_type :: "u64 \<Rightarrow> IntType_e" where
  "bits_to_int_type int_bits =
     (if int_bits AND int_bit int_m_ext \<noteq> 0 then int_m_ext
      else if int_bits AND int_bit int_m_sw \<noteq> 0 then int_m_sw
      else if int_bits AND int_bit int_m_timer \<noteq> 0 then int_m_timer
      else if int_bits AND int_bit int_s_ext \<noteq> 0 then int_s_ext
      else if int_bits AND int_bit int_s_sw \<noteq> 0 then int_s_sw
      else if int_bits AND int_bit int_s_timer \<noteq> 0 then int_s_timer
      else int_no_int)"

text \<open>Feedback of the MMU. The \<open>INST_\<close> names are the same numbers as the \<open>VADDR_\<close> names.\<close>

datatype VAddr_RW_Feedback = VADDR_ACCESS_OK | VADDR_ACCESS_FAULT | VADDR_PAGE_FAULT | VADDR_MIS_ALIGN

primrec VAddr_RW_Feedback_val :: "VAddr_RW_Feedback \<Rightarrow> u32" where
  "VAddr_RW_Feedback_val VADDR_ACCESS_OK = 0" | "VAddr_RW_Feedback_val VADDR_ACCESS_FAULT = 1"
| "VAddr_RW_Feedback_val VADDR_PAGE_FAULT = 2" | "VAddr_RW_Feedback_val VADDR_MIS_ALIGN = 3"

section \<open>Names for the bit fields\<close>

abbreviation mst :: "u64 \<Rightarrow> CSReg_MStatus_t_field \<Rightarrow> u64" where
  "mst w f \<equiv> get_f CSReg_MStatus_t_pos f w"

abbreviation mst_put :: "CSReg_MStatus_t_field \<Rightarrow> u64 \<Rightarrow> u64 \<Rightarrow> u64" where
  "mst_put \<equiv> put_f CSReg_MStatus_t_pos"

abbreviation sst :: "u64 \<Rightarrow> CSReg_SStatus_t_field \<Rightarrow> u64" where
  "sst w f \<equiv> get_f CSReg_SStatus_t_pos f w"

abbreviation sst_put :: "CSReg_SStatus_t_field \<Rightarrow> u64 \<Rightarrow> u64 \<Rightarrow> u64" where
  "sst_put \<equiv> put_f CSReg_SStatus_t_pos"

abbreviation satp_get :: "u64 \<Rightarrow> SATP_Reg_t_field \<Rightarrow> u64" where
  "satp_get w f \<equiv> get_f SATP_Reg_t_pos f w"

abbreviation pte :: "u64 \<Rightarrow> SV39_PageTableEntry_t_field \<Rightarrow> u64" where
  "pte w f \<equiv> get_f SV39_PageTableEntry_t_pos f w"

abbreviation va :: "u64 \<Rightarrow> SV39_VAddr_t_field \<Rightarrow> u64" where
  "va w f \<equiv> get_f SV39_VAddr_t_pos f w"

abbreviation cau :: "u64 \<Rightarrow> CSReg_Cause_t_field \<Rightarrow> u64" where
  "cau w f \<equiv> get_f CSReg_Cause_t_pos f w"

abbreviation tvec :: "u64 \<Rightarrow> CSReg_TrapVector_t_field \<Rightarrow> u64" where
  "tvec w f \<equiv> get_f CSReg_TrapVector_t_pos f w"

section \<open>State\<close>

record SV39_TLB_Entry_t =
  tlb_ppa :: u64
  tlb_vpa :: u64
  tlb_asid :: u16
  tlb_pagesize :: u8
  tlb_R :: bool
  tlb_W :: bool
  tlb_X :: bool
  tlb_U :: bool
  tlb_G :: bool
  tlb_A :: bool
  tlb_D :: bool

definition TLB_SIZE :: nat where "TLB_SIZE = 32"

record 'b mmu_state =
  currentPrivMode :: PrivMode_e
  satp :: u64
  status :: u64
  rvHartID :: u64
  tlb :: "SV39_TLB_Entry_t list"
  lastSwappedIndex :: u16
  subBus :: 'b

record 'b rv64core = "'b mmu_state" +
  intStatus :: nat
  GPR :: "reg \<Rightarrow> u64"
  csrMCycleNum :: u64
  csrMIntDelegation :: u64
  csrMExceptionDelegation :: u64
  csrMachineTrapVal :: u64
  csrMachineCause :: u64
  csrMExceptionPC :: u64
  csrMTrapVecBaseAddr :: u64
  csrMCounterEN :: u64
  csrMachineISA :: u64
  csrMscratch :: u64
  csrSupervisorTrapVal :: u64
  csrSupervisorCause :: u64
  csrSExceptionPC :: u64
  csrSTrapVecBaseAddr :: u64
  csrSCounterEN :: u64
  csrSscratch :: u64
  minstret :: u64
  csrIntPending :: u64
  csrIntEnable :: u64
  trapProgramCounter :: u64
  currentProgramCounter :: u64
  needTrap :: bool
  nextPrivMode :: PrivMode_e

definition S_MODE_INT_MASK :: u64 where
  "S_MODE_INT_MASK = int_bit int_s_ext OR int_bit int_s_sw OR int_bit int_s_timer"

definition COUNTER_MASK :: u64 where
  "COUNTER_MASK = push_bit 0 1 OR push_bit 2 1"

definition S_MODE_EXC_MASK :: u64 where
  "S_MODE_EXC_MASK = push_bit 16 1 - 1 - push_bit 11 1"

definition M_MODE_INT_MASK :: u64 where
  "M_MODE_INT_MASK = S_MODE_INT_MASK OR int_bit int_m_ext OR int_bit int_m_sw OR int_bit int_m_timer"

definition PC_ALIGN :: u64 where "PC_ALIGN = 2"

lemmas mask_defs = S_MODE_INT_MASK_def COUNTER_MASK_def S_MODE_EXC_MASK_def M_MODE_INT_MASK_def int_bit_def

section \<open>Registers and reset\<close>

text \<open>
  \<open>GPR[i]\<close> is read with a register number; \<open>setGPR\<close> takes a byte and asserts that it is below 32.
\<close>

definition setGPR :: "'b rv64core \<Rightarrow> u8 \<Rightarrow> u64 \<Rightarrow> 'b rv64core res" where
  "setGPR s GPR_index value =
     guard (GPR_index < 32)
       (Inr (if GPR_index \<noteq> 0 then s\<lparr>GPR := (GPR s)(ucast GPR_index := value)\<rparr> else s))"

text \<open>The macro \<open>rv_ext(x)\<close>, with the letter's distance to \<open>'a'\<close>.\<close>

definition rv_ext :: "nat \<Rightarrow> u64" where
  "rv_ext n = push_bit n 1"

definition reset :: "'b rv64core \<Rightarrow> 'b rv64core" where
  "reset s = s\<lparr>trapProgramCounter := 0, needTrap := False, currentPrivMode := M_MODE,
     nextPrivMode := M_MODE, status := mst_put ms_uxl 2 (mst_put ms_sxl 2 0),
     csrMachineISA := put_f CSR_MISA_t_pos misa_blank 0 (put_f CSR_MISA_t_pos misa_mxl 2
       (put_f CSR_MISA_t_pos misa_ext
          (rv_ext 8 OR rv_ext 12 OR rv_ext 0 OR rv_ext 2 OR rv_ext 18 OR rv_ext 20) (csrMachineISA s))),
     csrMExceptionDelegation := 0, csrMIntDelegation := 0, csrIntEnable := 0,
     csrMTrapVecBaseAddr := 0, csrMscratch := 0, csrMExceptionPC := 0, csrMachineCause := 0,
     csrMachineTrapVal := 0, csrMCounterEN := 0, csrIntPending := 0, csrMCycleNum := 0,
     minstret := 0, csrSTrapVecBaseAddr := 0, csrSscratch := 0, csrSExceptionPC := 0,
     csrSupervisorCause := 0, csrSupervisorTrapVal := 0, satp := 0, csrSCounterEN := 0,
     GPR := (\<lambda>_. 0)\<rparr>"

text \<open>
  The constructors. Memory that they do not initialise is a parameter: \<open>mem0\<close> is the object before
  construction. \<open>i\<close> names the \<open>IntStatus\<close> object that the constructor allocates in the
  store \<open>w\<close> of interrupt lines.
\<close>

definition RV64SV39_MMU_new :: "('b, 'z) mmu_state_scheme \<Rightarrow> 'b \<Rightarrow> ('b, 'z) mmu_state_scheme" where
  "RV64SV39_MMU_new s b = s\<lparr>subBus := b, lastSwappedIndex := 0,
     tlb := map (\<lambda>e. e\<lparr>tlb_pagesize := 0\<rparr>) (tlb s)\<rparr>"

definition RV64Core_new :: "'b rv64core \<Rightarrow> 'b \<Rightarrow> u16 \<Rightarrow> nat \<Rightarrow> irq_store \<Rightarrow> 'b rv64core \<times> irq_store" where
  "RV64Core_new mem0 b hart_id i w =
     (reset ((RV64SV39_MMU_new (mem0\<lparr>rvHartID := ucast hart_id, csrMCycleNum := 0, needTrap := False\<rparr>) b)
        \<lparr>intStatus := i\<rparr>),
      w(Mtip i := False, Msip i := False, Meip i := False, Seip i := False))"

section \<open>Basic facts\<close>

lemma setGPR_reg [simp]:
  "setGPR s (ucast (r :: reg)) v = Inr (if r \<noteq> 0 then s\<lparr>GPR := (GPR s)(r := v)\<rparr> else s)"
proof -
  have u: "unat (ucast r :: u8) = unat r" by (simp add: unat_ucast_up)
  moreover have "unat r < 32" using unsigned_less[of r] by simp
  ultimately have "(ucast r :: u8) < 32" by (simp add: word_less_nat_alt)
  moreover have "(ucast r :: u8) = 0 \<longleftrightarrow> r = 0" using u by (metis unat_eq_zero)
  moreover have "(ucast (ucast r :: u8) :: reg) = r" by (rule bit_word_eqI) (simp add: bit_simps)
  ultimately show ?thesis by (simp add: setGPR_def)
qed

lemma setGPR_x0: "post (\<lambda>s'. GPR s' 0 = GPR s 0) (setGPR s i v)"
proof (cases "i < 32")
  case True
  have "(ucast i :: reg) = 0 \<longleftrightarrow> i = 0"
  proof -
    have "unat (ucast i :: reg) = unat i"
      using True by (simp add: unsigned_ucast_eq take_bit_nat_eq_self word_less_nat_alt)
    then show ?thesis by (metis unat_eq_zero)
  qed
  then show ?thesis using True by (auto simp: setGPR_def)
qed (simp add: setGPR_def guard_def)

end
