(* ===== verification/Mmu.thy ===== *)
theory Mmu
  imports CoreState
begin

text \<open>
  The SV39 unit \<open>RV64SV39_MMU\<close> of \<open>src/rv64_sv39.cpp\<close>: the table walk, the translation
  lookaside buffer, and the loads, stores and instruction fetches that go through them. The bus below it is
  reached through the operations \<open>vt\<close> of its class.
\<close>

section \<open>The bus below\<close>

definition doLoad :: "'b slave_atomic_io \<Rightarrow> u64 \<Rightarrow> u64 \<Rightarrow> ('b, 'z) mmu_state_scheme
    \<Rightarrow> (u32 \<times> u8 list option \<times> ('b, 'z) mmu_state_scheme) res" where
  "doLoad vt begin_addr len s =
     bnd (io_load vt (subBus s) begin_addr len) (\<lambda>(fb, b, bus'). Inr (fb, b, s\<lparr>subBus := bus'\<rparr>))"

definition doStore :: "'b slave_atomic_io \<Rightarrow> u64 \<Rightarrow> u8 list \<Rightarrow> ('b, 'z) mmu_state_scheme
    \<Rightarrow> (u32 \<times> ('b, 'z) mmu_state_scheme) res" where
  "doStore vt begin_addr buffer s =
     bnd (io_store vt (subBus s) begin_addr buffer) (\<lambda>(fb, bus'). Inr (fb, s\<lparr>subBus := bus'\<rparr>))"

definition doReserve :: "'b slave_atomic_io \<Rightarrow> u64 \<Rightarrow> u64 \<Rightarrow> u64 \<Rightarrow> ('b, 'z) mmu_state_scheme
    \<Rightarrow> ('b, 'z) mmu_state_scheme" where
  "doReserve vt begin_addr len hart_id s = s\<lparr>subBus := io_reserve vt (subBus s) begin_addr len hart_id\<rparr>"

definition doCheck :: "'b slave_atomic_io \<Rightarrow> u64 \<Rightarrow> u64 \<Rightarrow> u64 \<Rightarrow> ('b, 'z) mmu_state_scheme
    \<Rightarrow> bool \<times> ('b, 'z) mmu_state_scheme" where
  "doCheck vt begin_addr len hart_id s =
     (let (ok, bus') = io_check vt (subBus s) begin_addr len hart_id in (ok, s\<lparr>subBus := bus'\<rparr>))"

section \<open>Page sizes\<close>

definition PAGE_4K :: u64 where "PAGE_4K = push_bit 12 1"
definition PAGE_2M :: u64 where "PAGE_2M = push_bit 21 1"
definition PAGE_1G :: u64 where "PAGE_1G = push_bit 30 1"

text \<open>\<open>-(1ll << 12)\<close> and its siblings.\<close>

definition page_addr_mask :: "u64 \<Rightarrow> u64" where
  "page_addr_mask page_size =
     (if page_size = PAGE_4K then - PAGE_4K else if page_size = PAGE_2M then - PAGE_2M
      else if page_size = PAGE_1G then - PAGE_1G else 0)"

definition page_size_of :: "u8 \<Rightarrow> u64" where
  "page_size_of pagesize =
     (if pagesize = 1 then PAGE_4K else if pagesize = 2 then PAGE_2M else if pagesize = 3 then PAGE_1G else 0)"

definition pagesize_of :: "u64 \<Rightarrow> u8" where
  "pagesize_of page_size =
     (if page_size = PAGE_4K then 1 else if page_size = PAGE_2M then 2 else if page_size = PAGE_1G then 3 else 0)"

lemmas page_defs = PAGE_4K_def PAGE_2M_def PAGE_1G_def

section \<open>Page table entries\<close>

definition isValidDirPTE :: "u64 \<Rightarrow> bool res" where
  "isValidDirPTE p =
     (if pte p pte_V = 0 then Inr False
      else if pte p pte_R \<noteq> 0 \<or> pte p pte_W \<noteq> 0 \<or> pte p pte_X \<noteq> 0 then Inr False
      else if pte p pte_reserved \<noteq> 0 then Inr False
      else if pte p pte_PBMT \<noteq> 0 then Inr False
      else if pte p pte_R = 0 \<and> pte p pte_W = 0 \<and> pte p pte_X = 0 then Inr True
      else Inl AssertFail)"

definition isValidLeafPTE :: "u64 \<Rightarrow> bool res" where
  "isValidLeafPTE p =
     (if pte p pte_V = 0 then Inr False
      else if pte p pte_W \<noteq> 0 \<and> pte p pte_R = 0 then Inr False
      else if pte p pte_R = 0 \<and> pte p pte_W = 0 \<and> pte p pte_X = 0 then Inr False
      else if pte p pte_reserved \<noteq> 0 then Inr False
      else if pte p pte_PBMT \<noteq> 0 then Inr False
      else if pte p pte_R \<noteq> 0 \<or> pte p pte_X \<noteq> 0 then Inr True
      else Inl AssertFail)"

text \<open>The physical page address of an entry, computed in two ways that the code asserts to agree.\<close>

definition pte_ppa :: "u64 \<Rightarrow> u64 res" where
  "pte_ppa p =
     (let ppa = push_bit 12 (push_bit 18 (pte p pte_PPN2) OR push_bit 9 (pte p pte_PPN1) OR pte p pte_PPN0) in
      guard (ppa = push_bit 12 (push_bit 9 (push_bit 9 (pte p pte_PPN2) OR pte p pte_PPN1) OR pte p pte_PPN0))
        (Inr ppa))"

section \<open>The lookaside buffer\<close>

definition getTLBIndexToSwapOut :: "('b, 'z) mmu_state_scheme \<Rightarrow> u16 \<times> ('b, 'z) mmu_state_scheme" where
  "getTLBIndexToSwapOut s =
     (lastSwappedIndex s, s\<lparr>lastSwappedIndex := (lastSwappedIndex s + 1) mod of_nat TLB_SIZE\<rparr>)"

definition writeTLB :: "u64 \<Rightarrow> u64 \<Rightarrow> u64 \<Rightarrow> ('b, 'z) mmu_state_scheme
    \<Rightarrow> (SV39_TLB_Entry_t \<times> ('b, 'z) mmu_state_scheme) res" where
  "writeTLB leaf_pte page_size vaddr s =
     (let (index, s') = getTLBIndexToSwapOut s; m = page_addr_mask page_size; vpa = vaddr AND m;
          pagesize = pagesize_of page_size in
      bnd (pte_ppa leaf_pte) (\<lambda>ppa.
      guard (m \<noteq> 0) (guard (vpa = vaddr - vaddr mod page_size) (guard (pagesize \<noteq> 0)
        (let e = \<lparr>tlb_ppa = ppa, tlb_vpa = vpa, tlb_asid = ucast (satp_get (satp s) satp_asid),
               tlb_pagesize = pagesize, tlb_R = pte leaf_pte pte_R \<noteq> 0, tlb_W = pte leaf_pte pte_W \<noteq> 0,
               tlb_X = pte leaf_pte pte_X \<noteq> 0, tlb_U = pte leaf_pte pte_U \<noteq> 0,
               tlb_G = pte leaf_pte pte_G \<noteq> 0, tlb_A = pte leaf_pte pte_A \<noteq> 0,
               tlb_D = pte leaf_pte pte_D \<noteq> 0\<rparr> in
         bnd (arr_set (tlb s') (unat index) e) (\<lambda>tlb'. Inr (e, s'\<lparr>tlb := tlb'\<rparr>)))))))"

text \<open>The search loop of \<open>getTLBEntry\<close>: every entry is compared, and a second match aborts.\<close>

definition tlb_match :: "u64 \<Rightarrow> u64 \<Rightarrow> SV39_TLB_Entry_t \<Rightarrow> bool" where
  "tlb_match satp_reg vaddr e \<longleftrightarrow>
     (ucast (tlb_asid e) = satp_get satp_reg satp_asid \<or> tlb_G e)
     \<and> page_addr_mask (page_size_of (tlb_pagesize e)) \<noteq> 0
     \<and> vaddr AND page_addr_mask (page_size_of (tlb_pagesize e)) = tlb_vpa e"

definition tlb_search :: "u64 \<Rightarrow> u64 \<Rightarrow> SV39_TLB_Entry_t list \<Rightarrow> SV39_TLB_Entry_t option res" where
  "tlb_search satp_reg vaddr es =
     for_each (\<lambda>e found. if tlb_match satp_reg vaddr e then guard (found = None) (Inr (Some e)) else Inr found)
       es None"

section \<open>The table walk\<close>

text \<open>\<open>doLoad\<close> into a local entry; a bus that reports success without writing leaves it uninitialised.\<close>

definition load_pte :: "'b slave_atomic_io \<Rightarrow> u64 \<Rightarrow> ('b, 'z) mmu_state_scheme
    \<Rightarrow> (u64 \<times> ('b, 'z) mmu_state_scheme) res" where
  "load_pte vt pa s =
     bnd (doLoad vt pa 8 s) (\<lambda>(feedback, b, s').
       guard (feedback = FB_SUCCESS)
         (case b of None \<Rightarrow> Inl Undefined | Some bs \<Rightarrow> Inr (word_of_bytes bs, s')))"

type_synonym ('b, 'z) walk_result = "(SV39_TLB_Entry_t option \<times> ('b, 'z) mmu_state_scheme) res"

definition walk_l0 :: "'b slave_atomic_io \<Rightarrow> u64 \<Rightarrow> u64 \<Rightarrow> ('b, 'z) mmu_state_scheme \<Rightarrow> ('b, 'z) walk_result" where
  "walk_l0 vt page_table_addr vaddr s =
     bnd (load_pte vt (page_table_addr + va vaddr va_vpn_0 * 8) s) (\<lambda>(l0_pte, s).
     bnd (isValidLeafPTE l0_pte) (\<lambda>leaf.
       if leaf then bnd (writeTLB l0_pte PAGE_4K vaddr s) (\<lambda>(e, s). Inr (Some e, s))
       else Inr (None, s)))"

definition walk_l1 :: "'b slave_atomic_io \<Rightarrow> u64 \<Rightarrow> u64 \<Rightarrow> ('b, 'z) mmu_state_scheme \<Rightarrow> ('b, 'z) walk_result" where
  "walk_l1 vt page_table_addr vaddr s =
     bnd (load_pte vt (page_table_addr + va vaddr va_vpn_1 * 8) s) (\<lambda>(l1_pte, s).
     bnd (isValidLeafPTE l1_pte) (\<lambda>leaf.
       if leaf then bnd (writeTLB l1_pte PAGE_2M vaddr s) (\<lambda>(e, s). Inr (Some e, s))
       else bnd (isValidDirPTE l1_pte) (\<lambda>dir.
         if \<not> dir then Inr (None, s)
         else bnd (pte_ppa l1_pte) (\<lambda>page_table_addr. walk_l0 vt page_table_addr vaddr s))))"

definition walk_l2 :: "'b slave_atomic_io \<Rightarrow> u64 \<Rightarrow> u64 \<Rightarrow> ('b, 'z) mmu_state_scheme \<Rightarrow> ('b, 'z) walk_result" where
  "walk_l2 vt page_table_addr vaddr s =
     bnd (load_pte vt (page_table_addr + va vaddr va_vpn_2 * 8) s) (\<lambda>(l2_pte, s).
     bnd (isValidLeafPTE l2_pte) (\<lambda>leaf.
       if leaf then bnd (writeTLB l2_pte PAGE_1G vaddr s) (\<lambda>(e, s). Inr (Some e, s))
       else bnd (isValidDirPTE l2_pte) (\<lambda>dir.
         if \<not> dir then Inr (None, s)
         else bnd (pte_ppa l2_pte) (\<lambda>page_table_addr. walk_l1 vt page_table_addr vaddr s))))"

definition canonical :: "u64 \<Rightarrow> bool" where
  "canonical vaddr \<longleftrightarrow>
     va vaddr va_blank = 0x1ffffff \<and> drop_bit 8 (va vaddr va_vpn_2) \<noteq> 0
     \<or> va vaddr va_blank = 0 \<and> drop_bit 8 (va vaddr va_vpn_2) = 0"

definition getTLBEntry :: "'b slave_atomic_io \<Rightarrow> u64 \<Rightarrow> ('b, 'z) mmu_state_scheme \<Rightarrow> ('b, 'z) walk_result" where
  "getTLBEntry vt vaddr s =
     guard (canonical vaddr)
       (bnd (tlb_search (satp s) vaddr (tlb s)) (\<lambda>hit.
          case hit of
            Some e \<Rightarrow> Inr (Some e, s)
          | None \<Rightarrow>
              if satp_get (satp s) satp_mode \<noteq> 8 then Inr (None, s)
              else walk_l2 vt (push_bit 12 (satp_get (satp s) satp_ppn)) vaddr s))"

definition SV39_FlushTLB_sfence_vma :: "u64 \<Rightarrow> u64 \<Rightarrow> ('b, 'z) mmu_state_scheme \<Rightarrow> ('b, 'z) mmu_state_scheme" where
  "SV39_FlushTLB_sfence_vma vaddr asid s =
     s\<lparr>tlb := map (\<lambda>e.
         if ucast (tlb_asid e) = asid \<or> asid = 0 then
           if vaddr = 0 then e\<lparr>tlb_pagesize := 0\<rparr>
           else
             let m = page_addr_mask (page_size_of (tlb_pagesize e)) in
             if (tlb_pagesize e = 1 \<or> tlb_pagesize e = 2 \<or> tlb_pagesize e = 3)
                \<and> tlb_vpa e AND m = vaddr AND m then e\<lparr>tlb_pagesize := 0\<rparr> else e
         else e) (tlb s)\<rparr>"

section \<open>Accesses\<close>

text \<open>No translation: machine mode without \<open>MPRV\<close>, or \<open>satp\<close> in bare mode.\<close>

definition bare :: "('b, 'z) mmu_state_scheme \<Rightarrow> bool" where
  "bare s \<longleftrightarrow>
     (currentPrivMode s = M_MODE
        \<and> (mst (status s) ms_mprv = 0 \<or> mst (status s) ms_mpp = PrivMode_val M_MODE))
     \<or> satp_get (satp s) satp_mode = 0"

definition cross_page :: "u64 \<Rightarrow> u64 \<Rightarrow> bool" where
  "cross_page begin_addr size' \<longleftrightarrow> drop_bit 12 begin_addr \<noteq> drop_bit 12 (begin_addr + size' - 1)"

definition effective_priv :: "('b, 'z) mmu_state_scheme \<Rightarrow> PrivMode_e" where
  "effective_priv s =
     (if mst (status s) ms_mprv \<noteq> 0 \<and> currentPrivMode s = M_MODE
      then PrivMode_of (mst (status s) ms_mpp) else currentPrivMode s)"

definition tlb_paddr :: "SV39_TLB_Entry_t \<Rightarrow> u64 \<Rightarrow> u64 res" where
  "tlb_paddr e begin_addr =
     (let page_size = page_size_of (tlb_pagesize e) in
      guard (page_size \<noteq> 0) (Inr (tlb_ppa e + begin_addr mod page_size)))"

definition VAddr_ReadBuffer_MMU_API :: "'b slave_atomic_io \<Rightarrow> u64 \<Rightarrow> u64 \<Rightarrow> ('b, 'z) mmu_state_scheme
    \<Rightarrow> (VAddr_RW_Feedback \<times> u8 list option \<times> ('b, 'z) mmu_state_scheme) res" where
  "VAddr_ReadBuffer_MMU_API vt begin_addr len s =
     (if bare s then
        bnd (doLoad vt begin_addr len s) (\<lambda>(pread_fb, b, s).
          Inr (if pread_fb \<noteq> FB_SUCCESS then VADDR_ACCESS_FAULT else VADDR_ACCESS_OK, b, s))
      else if cross_page begin_addr len then Inr (VADDR_MIS_ALIGN, None, s)
      else bnd (getTLBEntry vt begin_addr s) (\<lambda>(entry, s).
        case entry of None \<Rightarrow> Inr (VADDR_PAGE_FAULT, None, s) | Some e \<Rightarrow>
        if \<not> tlb_A e \<or> (\<not> tlb_R e \<and> \<not> (mst (status s) ms_mxr \<noteq> 0 \<and> \<not> tlb_X e))
        then Inr (VADDR_PAGE_FAULT, None, s)
        else if effective_priv s = U_MODE \<and> \<not> tlb_U e then Inr (VADDR_PAGE_FAULT, None, s)
        else if mst (status s) ms_sum = 0 \<and> currentPrivMode s = S_MODE \<and> tlb_U e
        then Inr (VADDR_ACCESS_FAULT, None, s)
        else bnd (tlb_paddr e begin_addr) (\<lambda>paddr. bnd (doLoad vt paddr len s) (\<lambda>(pread_fb, b, s).
          Inr (if pread_fb \<noteq> FB_SUCCESS then VADDR_ACCESS_FAULT else VADDR_ACCESS_OK, b, s)))))"

definition VAddr_WriteBuffer_MMU_API :: "'b slave_atomic_io \<Rightarrow> u64 \<Rightarrow> u8 list \<Rightarrow> ('b, 'z) mmu_state_scheme
    \<Rightarrow> (VAddr_RW_Feedback \<times> ('b, 'z) mmu_state_scheme) res" where
  "VAddr_WriteBuffer_MMU_API vt begin_addr buffer s =
     (if bare s then
        bnd (doStore vt begin_addr buffer s) (\<lambda>(pwrite_fb, s).
          Inr (if pwrite_fb \<noteq> FB_SUCCESS then VADDR_ACCESS_FAULT else VADDR_ACCESS_OK, s))
      else if cross_page begin_addr (of_nat (length buffer)) then Inr (VADDR_MIS_ALIGN, s)
      else bnd (getTLBEntry vt begin_addr s) (\<lambda>(entry, s).
        case entry of None \<Rightarrow> Inr (VADDR_PAGE_FAULT, s) | Some e \<Rightarrow>
        if \<not> tlb_A e \<or> \<not> tlb_D e \<or> \<not> tlb_W e then Inr (VADDR_PAGE_FAULT, s)
        else if effective_priv s = U_MODE \<and> \<not> tlb_U e then Inr (VADDR_PAGE_FAULT, s)
        else if mst (status s) ms_sum = 0 \<and> effective_priv s = S_MODE \<and> tlb_U e
        then Inr (VADDR_PAGE_FAULT, s)
        else bnd (tlb_paddr e begin_addr) (\<lambda>paddr. bnd (doStore vt paddr buffer s) (\<lambda>(pstatus, s).
          Inr (if pstatus \<noteq> FB_SUCCESS then VADDR_PAGE_FAULT else VADDR_ACCESS_OK, s)))))"

text \<open>
  Instruction fetch. The caller's buffer is passed in and handed back, since a load that reports success
  without writing leaves the caller's initial bytes in place. \<open>fetch_part\<close> is the function
  body after the split of a four byte fetch at an address that is 2 modulo 4; the two
  recursive calls have size 2 and do not split again.
\<close>

definition fetch_part :: "'b slave_atomic_io \<Rightarrow> u64 \<Rightarrow> u8 list \<Rightarrow> ('b, 'z) mmu_state_scheme
    \<Rightarrow> (VAddr_RW_Feedback \<times> u8 list \<times> ('b, 'z) mmu_state_scheme) res" where
  "fetch_part vt begin_addr buffer s =
     guard (begin_addr mod 2 = 0)
     (let len = of_nat (length buffer); keep = (\<lambda>b. case b of None \<Rightarrow> buffer | Some bs \<Rightarrow> bs) in
      if currentPrivMode s = M_MODE \<or> satp_get (satp s) satp_mode = 0 then
        bnd (doLoad vt begin_addr len s) (\<lambda>(pstatus, b, s).
          Inr (if pstatus \<noteq> FB_SUCCESS then VADDR_ACCESS_FAULT else VADDR_ACCESS_OK, keep b, s))
      else if cross_page begin_addr len then Inr (VADDR_MIS_ALIGN, buffer, s)
      else bnd (getTLBEntry vt begin_addr s) (\<lambda>(entry, s).
        case entry of None \<Rightarrow> Inr (VADDR_PAGE_FAULT, buffer, s) | Some e \<Rightarrow>
        if \<not> tlb_A e \<or> \<not> tlb_X e then Inr (VADDR_PAGE_FAULT, buffer, s)
        else if (currentPrivMode s = U_MODE \<and> \<not> tlb_U e) \<or> (currentPrivMode s = S_MODE \<and> tlb_U e)
        then Inr (VADDR_PAGE_FAULT, buffer, s)
        else bnd (tlb_paddr e begin_addr) (\<lambda>paddr. bnd (doLoad vt paddr len s) (\<lambda>(pstatus, b, s).
          Inr (if pstatus \<noteq> FB_SUCCESS then VADDR_ACCESS_FAULT else VADDR_ACCESS_OK, keep b, s)))))"

definition VAddr_InstFetch_MMU_API :: "'b slave_atomic_io \<Rightarrow> u64 \<Rightarrow> u8 list \<Rightarrow> ('b, 'z) mmu_state_scheme
    \<Rightarrow> (VAddr_RW_Feedback \<times> u8 list \<times> ('b, 'z) mmu_state_scheme) res" where
  "VAddr_InstFetch_MMU_API vt begin_addr buffer s =
     guard (begin_addr mod 2 = 0)
     (if length buffer = 4 \<and> begin_addr mod 4 = 2 then
        bnd (fetch_part vt begin_addr (take 2 buffer) s) (\<lambda>(fb_1, lo, s).
          if fb_1 \<noteq> VADDR_ACCESS_OK then Inr (fb_1, lo @ drop 2 buffer, s)
          else bnd (fetch_part vt (begin_addr + 2) (drop 2 buffer) s) (\<lambda>(fb_2, hi, s).
            Inr (fb_2, lo @ hi, s)))
      else fetch_part vt begin_addr buffer s)"

definition mmu_load :: "'b slave_atomic_io \<Rightarrow> (('b, 'z) mmu_state_scheme) load_fn" where
  "mmu_load vt s begin_addr len =
     bnd (VAddr_ReadBuffer_MMU_API vt begin_addr len s) (\<lambda>(fb, b, s). Inr (VAddr_RW_Feedback_val fb, b, s))"

definition mmu_store :: "'b slave_atomic_io \<Rightarrow> (('b, 'z) mmu_state_scheme) store_fn" where
  "mmu_store vt s begin_addr buffer =
     bnd (VAddr_WriteBuffer_MMU_API vt begin_addr buffer s) (\<lambda>(fb, s). Inr (VAddr_RW_Feedback_val fb, s))"

section \<open>What the unit changes\<close>

text \<open>Every operation of the unit changes at most the bus and the lookaside buffer.\<close>

definition mmu_only :: "('b, 'z) mmu_state_scheme \<Rightarrow> ('b, 'z) mmu_state_scheme \<Rightarrow> bool" where
  "mmu_only s s' \<longleftrightarrow> s' = s\<lparr>subBus := subBus s', tlb := tlb s', lastSwappedIndex := lastSwappedIndex s'\<rparr>"

named_theorems mmu_frame "operations that change only the bus and the lookaside buffer"

lemma mmu_only_simps [simp]: "mmu_only s s" "mmu_only s (s\<lparr>subBus := b\<rparr>)"
    "mmu_only s (s\<lparr>lastSwappedIndex := i, tlb := t\<rparr>)"
  by (simp_all add: mmu_only_def)

lemma mmu_only_trans:
  assumes "mmu_only s s'" and "mmu_only s' s''"
  shows "mmu_only s s''"
proof -
  have "s'\<lparr>subBus := b, tlb := t, lastSwappedIndex := i\<rparr> = s\<lparr>subBus := b, tlb := t, lastSwappedIndex := i\<rparr>" for b t i
    by (subst assms(1)[unfolded mmu_only_def]) simp
  then show ?thesis using assms(2) by (simp add: mmu_only_def)
qed

lemma doLoad_frame [mmu_frame]: "doLoad vt a n s = Inr (fb, b, s') \<Longrightarrow> mmu_only s s'"
  by (auto simp: doLoad_def res_simps)

lemma doStore_frame [mmu_frame]: "doStore vt a bs s = Inr (fb, s') \<Longrightarrow> mmu_only s s'"
  by (auto simp: doStore_def res_simps)

lemma writeTLB_frame [mmu_frame]: "writeTLB p n v s = Inr (e, s') \<Longrightarrow> mmu_only s s'"
  by (auto simp: writeTLB_def getTLBIndexToSwapOut_def Let_def res_simps)

lemma load_pte_frame [mmu_frame]: "load_pte vt a s = Inr (p, s') \<Longrightarrow> mmu_only s s'"
  by (auto simp: load_pte_def res_simps split: option.splits dest: doLoad_frame)

lemma walk_l0_frame: "walk_l0 vt t v s = Inr (e, s') \<Longrightarrow> mmu_only s s'"
  by (auto simp: walk_l0_def res_simps split: if_splits dest!: mmu_frame intro: mmu_only_trans)

lemma walk_l1_frame: "walk_l1 vt t v s = Inr (e, s') \<Longrightarrow> mmu_only s s'"
  by (auto simp: walk_l1_def res_simps split: if_splits dest!: mmu_frame walk_l0_frame intro: mmu_only_trans)

lemma walk_l2_frame: "walk_l2 vt t v s = Inr (e, s') \<Longrightarrow> mmu_only s s'"
  by (auto simp: walk_l2_def res_simps split: if_splits dest!: mmu_frame walk_l1_frame intro: mmu_only_trans)

lemma getTLBEntry_frame [mmu_frame]: "getTLBEntry vt v s = Inr (e, s') \<Longrightarrow> mmu_only s s'"
  by (auto simp: getTLBEntry_def res_simps split: option.splits if_splits dest!: walk_l2_frame)

lemma read_frame [mmu_frame]: "VAddr_ReadBuffer_MMU_API vt a n s = Inr (fb, b, s') \<Longrightarrow> mmu_only s s'"
  by (auto simp: VAddr_ReadBuffer_MMU_API_def res_simps split: option.splits if_splits dest!: mmu_frame
      intro: mmu_only_trans)

lemma write_frame [mmu_frame]: "VAddr_WriteBuffer_MMU_API vt a bs s = Inr (fb, s') \<Longrightarrow> mmu_only s s'"
  by (auto simp: VAddr_WriteBuffer_MMU_API_def res_simps split: option.splits if_splits dest!: mmu_frame
      intro: mmu_only_trans)

lemma fetch_part_frame [mmu_frame]: "fetch_part vt a buf s = Inr (fb, b, s') \<Longrightarrow> mmu_only s s'"
  by (auto simp: fetch_part_def Let_def res_simps split: option.splits if_splits dest!: mmu_frame
      intro: mmu_only_trans)

lemma fetch_frame [mmu_frame]: "VAddr_InstFetch_MMU_API vt a buf s = Inr (fb, b, s') \<Longrightarrow> mmu_only s s'"
  by (auto simp: VAddr_InstFetch_MMU_API_def res_simps split: if_splits dest!: fetch_part_frame intro: mmu_only_trans)

lemma mmu_load_frame [mmu_frame]: "mmu_load vt s a n = Inr (fb, b, s') \<Longrightarrow> mmu_only s s'"
  by (auto simp: mmu_load_def res_simps dest: read_frame)

lemma mmu_store_frame [mmu_frame]: "mmu_store vt s a bs = Inr (fb, s') \<Longrightarrow> mmu_only s s'"
  by (auto simp: mmu_store_def res_simps dest: write_frame)

end
