(* ===== verification/Sv39.thy ===== *)
theory Sv39
  imports Mmu
begin

text \<open>
  The abstract SV39 walk, a function of memory alone, and the proof that the unit with its
  lookaside buffer implements it. \<open>rd\<close> is the part of memory that can be read: \<open>rd a\<close> is the eight
  byte word at \<open>a\<close>, or \<open>None\<close>.
\<close>

section \<open>The abstract walk\<close>

definition leaf_ok :: "u64 \<Rightarrow> bool" where
  "leaf_ok p \<longleftrightarrow> pte p pte_V \<noteq> 0 \<and> (pte p pte_W \<noteq> 0 \<longrightarrow> pte p pte_R \<noteq> 0)
     \<and> (pte p pte_R \<noteq> 0 \<or> pte p pte_X \<noteq> 0) \<and> pte p pte_reserved = 0 \<and> pte p pte_PBMT = 0"

definition dir_ok :: "u64 \<Rightarrow> bool" where
  "dir_ok p \<longleftrightarrow> pte p pte_V \<noteq> 0 \<and> pte p pte_R = 0 \<and> pte p pte_W = 0 \<and> pte p pte_X = 0
     \<and> pte p pte_reserved = 0 \<and> pte p pte_PBMT = 0"

definition page_bits :: "nat \<Rightarrow> nat" where "page_bits i = 12 + 9 * i"

definition vpn :: "nat \<Rightarrow> u64 \<Rightarrow> u64" where "vpn i vaddr = bf_get (page_bits i) 9 vaddr"

definition pte_ppn :: "u64 \<Rightarrow> u64" where "pte_ppn p = bf_get 10 44 p"

text \<open>
  The walk from level \<open>i\<close>: \<open>None\<close> when an entry cannot be read, \<open>Some None\<close> for a fault, and
  \<open>Some (Some (l, p))\<close> for the leaf \<open>p\<close> at level \<open>l\<close>.
\<close>

primrec sv39_walk :: "(u64 \<Rightarrow> u64 option) \<Rightarrow> nat \<Rightarrow> u64 \<Rightarrow> u64 \<Rightarrow> (nat \<times> u64) option option" where
  "sv39_walk rd 0 table vaddr =
     map_option (\<lambda>p. if leaf_ok p then Some (0, p) else None) (rd (table + vpn 0 vaddr * 8))"
| "sv39_walk rd (Suc i) table vaddr =
     (case rd (table + vpn (Suc i) vaddr * 8) of None \<Rightarrow> None | Some p \<Rightarrow>
        if leaf_ok p then Some (Some (Suc i, p))
        else if \<not> dir_ok p then Some None
        else sv39_walk rd i (push_bit 12 (pte_ppn p)) vaddr)"

definition satp_walk :: "(u64 \<Rightarrow> u64 option) \<Rightarrow> u64 \<Rightarrow> u64 \<Rightarrow> (nat \<times> u64) option option" where
  "satp_walk rd satp_reg vaddr = sv39_walk rd 2 (push_bit 12 (satp_get satp_reg satp_ppn)) vaddr"

text \<open>Memory answers reads of page table entries without changing, as \<open>rd\<close> says.\<close>

definition pte_mem :: "'b slave_atomic_io \<Rightarrow> (u64 \<Rightarrow> u64 option) \<Rightarrow> 'b \<Rightarrow> bool" where
  "pte_mem vt rd b \<longleftrightarrow> (\<forall>a p. rd a = Some p \<longrightarrow> io_load vt b a 8 = Inr (FB_SUCCESS, Some (bytes_of 8 p), b))"

section \<open>The checks of the code as predicates\<close>

lemma isValidLeafPTE_ok: "isValidLeafPTE p = Inr (leaf_ok p)"
  by (auto simp: isValidLeafPTE_def leaf_ok_def)

lemma isValidDirPTE_ok: "isValidDirPTE p = Inr (dir_ok p)"
  by (auto simp: isValidDirPTE_def dir_ok_def)

lemma bf_get_split: "bf_get lo (a + b) w = push_bit a (bf_get (lo + a) b w) OR bf_get lo a w" for w :: "'a::len word"
proof (rule bit_word_eqI)
  fix n assume "n < LENGTH('a)"
  then show "bit (bf_get lo (a + b) w) n = bit (push_bit a (bf_get (lo + a) b w) OR bf_get lo a w) n"
    by (cases "n < a") (auto simp: bit_simps bit_bf_get)
qed

lemma pte_ppa_ok: "pte_ppa p = Inr (push_bit 12 (pte_ppn p))"
proof -
  have "pte_ppn p = push_bit 9 (push_bit 9 (pte p pte_PPN2) OR pte p pte_PPN1) OR pte p pte_PPN0"
    using bf_get_split[of 10 9 35 p] bf_get_split[of 19 9 26 p] by (simp add: get_f_def pte_ppn_def)
  moreover have "push_bit 9 (push_bit 9 x OR y) OR z = push_bit 18 x OR push_bit 9 y OR z" for x y z :: u64
    by (rule bit_word_eqI) (auto simp: bit_simps)
  ultimately show ?thesis by (simp only: pte_ppa_def Let_def guard_True simp_thms)
qed

lemma vpn_ok: "va vaddr va_vpn_0 = vpn 0 vaddr" "va vaddr va_vpn_1 = vpn 1 vaddr" "va vaddr va_vpn_2 = vpn 2 vaddr"
  by (simp_all add: get_f_def vpn_def page_bits_def)

lemma level_cases: "i \<le> 2 \<Longrightarrow> (i = 0 \<Longrightarrow> P) \<Longrightarrow> (i = 1 \<Longrightarrow> P) \<Longrightarrow> (i = 2 \<Longrightarrow> P) \<Longrightarrow> P" for i :: nat
  by linarith

lemma level_pages:
  assumes "i \<le> 2"
  shows "page_size_of (of_nat (Suc i)) = push_bit (page_bits i) 1"
    and "pagesize_of (push_bit (page_bits i) 1) = of_nat (Suc i)"
    and "page_addr_mask (push_bit (page_bits i) 1) = NOT (mask (page_bits i))"
    and "(of_nat (Suc i) :: u8) \<noteq> 0" and "(push_bit (page_bits i) 1 :: u64) \<noteq> 0"
    and "(NOT (mask (page_bits i)) :: u64) \<noteq> 0"
  using assms
  by (elim level_cases; simp add: page_size_of_def pagesize_of_def page_addr_mask_def page_defs page_bits_def
      not_eq_complement mask_eq_exp_minus_1)+

lemma page_base: "vaddr AND NOT (mask n) = vaddr - vaddr mod push_bit n 1" if "n < 64" for vaddr :: u64
proof -
  have "vaddr mod push_bit n 1 = vaddr AND mask n"
    using that by (simp add: push_bit_eq_mult take_bit_eq_mask[symmetric] take_bit_eq_mod)
  moreover have "vaddr = (vaddr AND NOT (mask n)) + (vaddr AND mask n)"
    by (subst disjunctive_add) (auto simp: bit_simps intro!: bit_word_eqI)
  ultimately show ?thesis by (metis add_diff_cancel_right')
qed

section \<open>The walk of the code\<close>

definition new_entry :: "u64 \<Rightarrow> u64 \<Rightarrow> nat \<Rightarrow> u64 \<Rightarrow> SV39_TLB_Entry_t" where
  "new_entry satp_reg p i vaddr =
     \<lparr>tlb_ppa = push_bit 12 (pte_ppn p), tlb_vpa = vaddr AND NOT (mask (page_bits i)),
      tlb_asid = ucast (satp_get satp_reg satp_asid), tlb_pagesize = of_nat (Suc i),
      tlb_R = pte p pte_R \<noteq> 0, tlb_W = pte p pte_W \<noteq> 0, tlb_X = pte p pte_X \<noteq> 0,
      tlb_U = pte p pte_U \<noteq> 0, tlb_G = pte p pte_G \<noteq> 0, tlb_A = pte p pte_A \<noteq> 0,
      tlb_D = pte p pte_D \<noteq> 0\<rparr>"

definition fill :: "SV39_TLB_Entry_t \<Rightarrow> ('b, 'z) mmu_state_scheme \<Rightarrow> ('b, 'z) mmu_state_scheme" where
  "fill e s = s\<lparr>lastSwappedIndex := (lastSwappedIndex s + 1) mod of_nat TLB_SIZE,
     tlb := (tlb s)[unat (lastSwappedIndex s) := e]\<rparr>"

lemma writeTLB_ok:
  assumes "i \<le> 2" and "unat (lastSwappedIndex s) < length (tlb s)"
  shows "writeTLB p (push_bit (page_bits i) 1) vaddr s
      = Inr (new_entry (satp s) p i vaddr, fill (new_entry (satp s) p i vaddr) s)"
proof -
  have "page_bits i < 64" using assms(1) by (simp add: page_bits_def)
  note base = page_base[OF this]
  show ?thesis
    using assms(2)
    by (simp only: writeTLB_def getTLBIndexToSwapOut_def Let_def prod.case pte_ppa_ok bnd_Inr
        level_pages[OF assms(1)] base not_False_eq_True guard_True)
       (simp add: new_entry_def fill_def base)
qed

definition walk_out :: "(nat \<times> u64) option \<Rightarrow> u64 \<Rightarrow> ('b, 'z) mmu_state_scheme \<Rightarrow> SV39_TLB_Entry_t option \<times> ('b, 'z) mmu_state_scheme" where
  "walk_out r vaddr s = (case r of None \<Rightarrow> (None, s)
     | Some (i, p) \<Rightarrow> (Some (new_entry (satp s) p i vaddr), fill (new_entry (satp s) p i vaddr) s))"

lemma load_pte_ok: "pte_mem vt rd (subBus s) \<Longrightarrow> rd a = Some p \<Longrightarrow> load_pte vt a s = Inr (p, s)"
  by (simp add: load_pte_def doLoad_def pte_mem_def word_of_bytes_bytes_of take_bit_word_eq_self)

lemma walk_l0_ok:
  assumes "pte_mem vt rd (subBus s)" and "unat (lastSwappedIndex s) < length (tlb s)"
    and "sv39_walk rd 0 table vaddr = Some r"
  shows "walk_l0 vt table vaddr s = Inr (walk_out r vaddr s)"
  using assms writeTLB_ok[of 0 s]
  by (auto simp: walk_l0_def vpn_ok load_pte_ok isValidLeafPTE_ok walk_out_def page_bits_def page_defs)

lemma walk_l1_ok:
  assumes "pte_mem vt rd (subBus s)" and "unat (lastSwappedIndex s) < length (tlb s)"
    and "sv39_walk rd 1 table vaddr = Some r"
  shows "walk_l1 vt table vaddr s = Inr (walk_out r vaddr s)"
  using assms writeTLB_ok[of 1 s] walk_l0_ok[OF assms(1,2)]
  by (auto simp: walk_l1_def vpn_ok load_pte_ok isValidLeafPTE_ok isValidDirPTE_ok pte_ppa_ok walk_out_def page_bits_def
      page_defs split: option.splits if_splits)

lemma walk_l2_ok:
  assumes "pte_mem vt rd (subBus s)" and "unat (lastSwappedIndex s) < length (tlb s)"
    and "sv39_walk rd 2 table vaddr = Some r"
  shows "walk_l2 vt table vaddr s = Inr (walk_out r vaddr s)"
  using assms writeTLB_ok[of 2 s] walk_l1_ok[OF assms(1,2)]
  by (auto simp: walk_l2_def vpn_ok load_pte_ok isValidLeafPTE_ok isValidDirPTE_ok pte_ppa_ok walk_out_def page_bits_def
      page_defs numeral_2_eq_2 split: option.splits if_splits)

section \<open>The search\<close>

lemma tlb_search_filter:
  "tlb_search satp_reg vaddr es =
     (case filter (tlb_match satp_reg vaddr) es of [] \<Rightarrow> Inr None | [e] \<Rightarrow> Inr (Some e) | _ \<Rightarrow> Inl AssertFail)"
proof -
  let ?f = "\<lambda>e found. if tlb_match satp_reg vaddr e then guard (found = None) (Inr (Some e)) else Inr found"
  have some: "for_each ?f es (Some e0) =
      (if filter (tlb_match satp_reg vaddr) es = [] then Inr (Some e0) else Inl AssertFail)" for es e0
    by (induction es) (auto simp: guard_def)
  show ?thesis
    unfolding tlb_search_def
    by (induction es) (auto simp: some guard_def split: list.splits)
qed

lemma vpn_agree:
  assumes "v AND NOT (mask (page_bits i)) = v' AND NOT (mask (page_bits i))" and "i \<le> j"
  shows "vpn j v = vpn j v'"
proof (rule bit_word_eqI)
  fix n
  have "bit (v AND NOT (mask (page_bits i))) (page_bits j + n) = bit (v' AND NOT (mask (page_bits i))) (page_bits j + n)"
    using assms(1) by simp
  moreover have "page_bits i \<le> page_bits j + n" using assms(2) by (simp add: page_bits_def)
  ultimately show "bit (vpn j v) n = bit (vpn j v') n"
    by (auto simp: vpn_def bit_bf_get bit_simps dest: bit_imp_le_length)
qed

lemma walk_level: "sv39_walk rd j table v = Some (Some (i, p)) \<Longrightarrow> i \<le> j"
  by (induction j arbitrary: table) (auto intro: le_SucI split: option.splits if_splits)

lemma walk_uniform:
  assumes "v AND NOT (mask (page_bits i)) = v' AND NOT (mask (page_bits i))"
  shows "sv39_walk rd j table v = Some (Some (i, p)) \<Longrightarrow> sv39_walk rd j table v' = Some (Some (i, p))"
proof (induction j arbitrary: table)
  case 0
  then show ?case using vpn_agree[OF assms, of 0] by (auto split: if_splits)
next
  case (Suc j)
  then have "i \<le> Suc j" using walk_level by blast
  with Suc show ?case
    using vpn_agree[OF assms, of "Suc j"] by (auto split: option.splits if_splits)
qed

section \<open>Consistency of the lookaside buffer\<close>

text \<open>
  The invariant: each entry that the address space \<open>satp\<close> can hit says what the walk says
  for every address of its page, up to its address space number, and no address hits two entries.
\<close>

definition active :: "u64 \<Rightarrow> SV39_TLB_Entry_t \<Rightarrow> bool" where
  "active satp_reg e \<longleftrightarrow> (ucast (tlb_asid e) = satp_get satp_reg satp_asid \<or> tlb_G e)
     \<and> page_addr_mask (page_size_of (tlb_pagesize e)) \<noteq> 0"

definition says :: "(u64 \<Rightarrow> u64 option) \<Rightarrow> u64 \<Rightarrow> SV39_TLB_Entry_t \<Rightarrow> nat \<Rightarrow> u64 \<Rightarrow> bool" where
  "says rd satp_reg e i p \<longleftrightarrow> i \<le> 2
     \<and> e\<lparr>tlb_asid := 0\<rparr> = (new_entry satp_reg p i (tlb_vpa e))\<lparr>tlb_asid := 0\<rparr>
     \<and> (\<forall>v. v AND NOT (mask (page_bits i)) = tlb_vpa e \<longrightarrow> satp_walk rd satp_reg v = Some (Some (i, p)))"

definition tlb_ok :: "(u64 \<Rightarrow> u64 option) \<Rightarrow> u64 \<Rightarrow> SV39_TLB_Entry_t list \<Rightarrow> bool" where
  "tlb_ok rd satp_reg es \<longleftrightarrow> length es = TLB_SIZE
     \<and> (\<forall>e \<in> set es. active satp_reg e \<longrightarrow> (\<exists>i p. says rd satp_reg e i p))
     \<and> (\<forall>v. length (filter (tlb_match satp_reg v) es) \<le> 1)"

lemma tlb_match_active: "tlb_match satp_reg v e \<longleftrightarrow> active satp_reg e \<and> v AND page_addr_mask (page_size_of (tlb_pagesize e)) = tlb_vpa e"
  by (auto simp: tlb_match_def active_def)

lemma says_mask:
  assumes "says rd satp_reg e i p"
  shows "page_addr_mask (page_size_of (tlb_pagesize e)) = NOT (mask (page_bits i))"
proof -
  have "i \<le> 2" and "tlb_pagesize (e\<lparr>tlb_asid := 0\<rparr>) = tlb_pagesize (new_entry satp_reg p i (tlb_vpa e)\<lparr>tlb_asid := 0\<rparr>)"
    using assms by (simp_all only: says_def)
  then have "i \<le> 2" and "tlb_pagesize e = of_nat (Suc i)" by (simp_all add: new_entry_def)
  then show ?thesis by (simp only: level_pages)
qed

lemma says_match:
  "says rd satp_reg e i p \<Longrightarrow> tlb_match satp_reg v e \<Longrightarrow>
     v AND NOT (mask (page_bits i)) = tlb_vpa e \<and> satp_walk rd satp_reg v = Some (Some (i, p))"
  using says_mask[of rd satp_reg e i p] by (auto simp: says_def tlb_match_active)

lemma says_new:
  assumes "satp_walk rd satp_reg vaddr = Some (Some (i, p))"
  shows "says rd satp_reg (new_entry satp_reg p i vaddr) i p"
proof -
  have "i \<le> 2" using assms walk_level by (auto simp: satp_walk_def)
  moreover have "new_entry satp_reg p i (vaddr AND NOT (mask (page_bits i))) = new_entry satp_reg p i vaddr"
    by (simp add: new_entry_def)
  moreover have "satp_walk rd satp_reg v = Some (Some (i, p))"
    if "v AND NOT (mask (page_bits i)) = vaddr AND NOT (mask (page_bits i))" for v
    using assms walk_uniform[OF that[symmetric]] by (simp add: satp_walk_def)
  ultimately show ?thesis
    by (simp add: says_def new_entry_def)
qed

lemma filter_update_le: "length (filter P (xs[n := y])) \<le> length (filter P xs) + of_bool (P y)"
  by (induction xs arbitrary: n) (auto split: nat.splits)

lemma filter_none_update: "filter P xs = [] \<Longrightarrow> length (filter P (xs[n := y])) \<le> 1"
  using filter_update_le[of P xs n y] by (cases "P y") auto

lemma tlb_ok_new:
  assumes ok: "tlb_ok rd satp_reg es" and miss: "filter (tlb_match satp_reg vaddr) es = []"
    and walk: "satp_walk rd satp_reg vaddr = Some (Some (i, p))"
  shows "tlb_ok rd satp_reg (es[n := new_entry satp_reg p i vaddr])"
proof -
  let ?e = "new_entry satp_reg p i vaddr"
  note new = says_new[OF walk]
  have one: "length (filter (tlb_match satp_reg v) (es[n := ?e])) \<le> 1" for v
  proof (cases "tlb_match satp_reg v ?e")
    case False
    then show ?thesis
      using ok filter_update_le[of "tlb_match satp_reg v" es n ?e] by (auto simp: tlb_ok_def intro: le_trans)
  next
    case True
    have "filter (tlb_match satp_reg v) es = []"
    proof (rule ccontr)
      assume "filter (tlb_match satp_reg v) es \<noteq> []"
      then obtain e where e: "e \<in> set es" "tlb_match satp_reg v e" by (auto simp: filter_empty_conv)
      then obtain i' p' where says: "says rd satp_reg e i' p'"
        using ok by (auto simp: tlb_ok_def tlb_match_active)
      note w = says_match[OF says e(2)] and w' = says_match[OF new True]
      have "i' = i" using w w' by simp
      then have "tlb_vpa e = vaddr AND NOT (mask (page_bits i))" using w w' by (simp add: new_entry_def)
      then have "tlb_match satp_reg vaddr e"
        using e(2) says_mask[OF says] \<open>i' = i\<close> by (simp add: tlb_match_active)
      with miss e(1) show False by (auto simp: filter_empty_conv)
    qed
    then show ?thesis by (rule filter_none_update)
  qed
  have "\<exists>i p. says rd satp_reg e i p" if "e \<in> set (es[n := ?e])" "active satp_reg e" for e
  proof -
    have "e = ?e \<or> e \<in> set es" using that(1) set_update_subset_insert[of es n ?e] by blast
    with ok that(2) new show ?thesis by (auto simp: tlb_ok_def)
  qed
  with one ok show ?thesis by (simp add: tlb_ok_def)
qed

text \<open>What a translation is used for: the physical page, its size, and the permission bits.\<close>

definition means :: "SV39_TLB_Entry_t \<Rightarrow> u64 \<Rightarrow> u64 \<Rightarrow> nat \<Rightarrow> u64 \<Rightarrow> bool" where
  "means e satp_reg vaddr i p \<longleftrightarrow> e\<lparr>tlb_asid := 0\<rparr> = (new_entry satp_reg p i vaddr)\<lparr>tlb_asid := 0\<rparr>"

definition sv39_ready :: "'b slave_atomic_io \<Rightarrow> (u64 \<Rightarrow> u64 option) \<Rightarrow> ('b, 'z) mmu_state_scheme \<Rightarrow> bool" where
  "sv39_ready vt rd s \<longleftrightarrow> tlb_ok rd (satp s) (tlb s) \<and> unat (lastSwappedIndex s) < TLB_SIZE
     \<and> pte_mem vt rd (subBus s) \<and> satp_get (satp s) satp_mode = 8"

lemma getTLBEntry_walk:
  assumes "tlb_ok rd (satp s) (tlb s)" and "unat (lastSwappedIndex s) < TLB_SIZE"
    and "pte_mem vt rd (subBus s)" and "canonical vaddr" and "satp_get (satp s) satp_mode = 8"
    and "satp_walk rd (satp s) vaddr = Some r"
  shows "\<exists>found tlb' idx'. getTLBEntry vt vaddr s = Inr (found, s\<lparr>lastSwappedIndex := idx', tlb := tlb'\<rparr>)
    \<and> (case r of None \<Rightarrow> found = None | Some (i, p) \<Rightarrow> \<exists>e. found = Some e \<and> means e (satp s) vaddr i p)
    \<and> tlb_ok rd (satp s) tlb' \<and> unat idx' < TLB_SIZE"
proof (cases "filter (tlb_match (satp s) vaddr) (tlb s)")
  case Nil
  have len: "unat (lastSwappedIndex s) < length (tlb s)" using assms(1,2) by (simp add: tlb_ok_def)
  have "getTLBEntry vt vaddr s = Inr (walk_out r vaddr s)"
    using assms(4-6) walk_l2_ok[OF assms(3) len] by (simp add: getTLBEntry_def tlb_search_filter Nil satp_walk_def)
  moreover have "unat ((lastSwappedIndex s + 1) mod of_nat TLB_SIZE) < TLB_SIZE"
    by (simp add: TLB_SIZE_def unat_mod)
  moreover have ?thesis if "getTLBEntry vt vaddr s = Inr (walk_out r vaddr s)"
    and "unat ((lastSwappedIndex s + 1) mod of_nat TLB_SIZE) < TLB_SIZE"
  proof (cases r)
    case None
    have "s = s\<lparr>lastSwappedIndex := lastSwappedIndex s, tlb := tlb s\<rparr>" by simp
    with None that(1) assms(1,2) show ?thesis by (simp only: walk_out_def option.case) blast
  next
    case (Some ip)
    obtain i p where ip: "ip = (i, p)" by (cases ip)
    show ?thesis
      using that tlb_ok_new[OF assms(1) Nil] assms(6) unfolding Some ip walk_out_def option.case prod.case fill_def
      by (intro exI[of _ "Some (new_entry (satp s) p i vaddr)"] exI conjI) (assumption | simp add: means_def)+
  qed
  ultimately show ?thesis by blast
next
  case (Cons e es)
  have "es = []"
  proof -
    have "length (filter (tlb_match (satp s) vaddr) (tlb s)) \<le> 1" using assms(1) by (auto simp: tlb_ok_def)
    then show ?thesis using Cons by simp
  qed
  moreover have "e \<in> set (filter (tlb_match (satp s) vaddr) (tlb s))" using Cons by simp
  then have e: "e \<in> set (tlb s)" "tlb_match (satp s) vaddr e" by auto
  moreover obtain i p where says: "says rd (satp s) e i p"
    using assms(1) e by (auto simp: tlb_ok_def tlb_match_active)
  note w = says_match[OF says e(2)]
  have "new_entry (satp s) p i (tlb_vpa e) = new_entry (satp s) p i vaddr"
    using w by (simp add: new_entry_def flip: w[THEN conjunct1])
  then have "means e (satp s) vaddr i p"
    using says by (simp add: means_def says_def)
  ultimately show ?thesis
    using assms w Cons
    by (auto simp: getTLBEntry_def tlb_search_filter intro!: exI[of _ "tlb s"] exI[of _ "lastSwappedIndex s"])
qed

lemma tlb_ok_invalid:
  assumes "length es = TLB_SIZE" and "\<forall>e \<in> set es. tlb_pagesize e = 0"
  shows "tlb_ok rd satp_reg es"
proof -
  have "\<not> active satp_reg e" if "e \<in> set es" for e
    using assms(2) that by (simp add: active_def page_size_of_def page_addr_mask_def page_defs)
  moreover from this have "filter (tlb_match satp_reg v) es = []" for v
    by (simp add: filter_empty_conv tlb_match_active)
  ultimately show ?thesis using assms(1) by (simp add: tlb_ok_def)
qed

text \<open>A bus with one gigapage leaf, read, write, execute, accessed and dirty, at \<open>0x1000\<close>.\<close>

definition giga_rd :: "u64 \<Rightarrow> u64 option" where
  "giga_rd a = (if a = 0x1000 then Some 0x200000cf else None)"

definition giga_vt :: "unit slave_atomic_io" where
  "giga_vt = \<lparr>io_load = (\<lambda>b a n. Inr (FB_SUCCESS,
       Some (bytes_of (unat n) (if a = 0x1000 then 0x200000cf else 0 :: u64)), b)),
     io_store = (\<lambda>b a bs. Inr (FB_SUCCESS, b)),
     io_reserve = (\<lambda>b a n h. b), io_check = (\<lambda>b a n h. (False, b))\<rparr>"

definition giga_mmu :: "PrivMode_e \<Rightarrow> unit mmu_state" where
  "giga_mmu priv = \<lparr>currentPrivMode = priv, satp = 0x8000000000000001, status = 0, rvHartID = 0,
     tlb = replicate 32 \<lparr>tlb_ppa = 0, tlb_vpa = 0, tlb_asid = 0, tlb_pagesize = 0, tlb_R = False,
       tlb_W = False, tlb_X = False, tlb_U = False, tlb_G = False, tlb_A = False, tlb_D = False\<rparr>,
     lastSwappedIndex = 0, subBus = ()\<rparr>"

lemma sv39_walk_2:
  "sv39_walk rd 2 table v = (case rd (table + vpn 2 v * 8) of None \<Rightarrow> None | Some p \<Rightarrow>
        if leaf_ok p then Some (Some (2, p))
        else if \<not> dir_ok p then Some None
        else sv39_walk rd 1 (push_bit 12 (pte_ppn p)) v)"
  unfolding Suc_1[symmetric] by (rule sv39_walk.simps)

lemma giga_leaf: "leaf_ok 0x200000cf"
  by (simp add: leaf_ok_def get_f_def bf_get_def)

lemma giga_facts:
  "tlb_ok giga_rd (satp (giga_mmu m)) (tlb (giga_mmu m))" "unat (lastSwappedIndex (giga_mmu m)) < TLB_SIZE"
  "pte_mem giga_vt giga_rd (subBus (giga_mmu m))" "satp_get (satp (giga_mmu m)) satp_mode = 8"
  "satp_walk giga_rd (satp (giga_mmu m)) 0x30 = Some (Some (2, 0x200000cf))" "canonical 0x30"
proof -
  show "tlb_ok giga_rd (satp (giga_mmu m)) (tlb (giga_mmu m))"
    by (rule tlb_ok_invalid) (simp_all add: giga_mmu_def TLB_SIZE_def)
  show "unat (lastSwappedIndex (giga_mmu m)) < TLB_SIZE" by (simp add: giga_mmu_def TLB_SIZE_def)
  show "pte_mem giga_vt giga_rd (subBus (giga_mmu m))"
    by (simp add: pte_mem_def giga_vt_def giga_rd_def)
  show "satp_get (satp (giga_mmu m)) satp_mode = 8" "canonical 0x30"
    by (simp_all add: giga_mmu_def get_f_def bf_get_def canonical_def)
  show "satp_walk giga_rd (satp (giga_mmu m)) 0x30 = Some (Some (2, 0x200000cf))"
    using giga_leaf by (simp add: satp_walk_def sv39_walk_2 giga_mmu_def get_f_def bf_get_def giga_rd_def vpn_def
        page_bits_def)
qed

lemma giga_ready: "sv39_ready giga_vt giga_rd (giga_mmu m)"
  using giga_facts(1-4) by (simp add: sv39_ready_def)

lemma ready_walk:
  assumes "sv39_ready vt rd s" and "canonical vaddr" and "satp_walk rd (satp s) vaddr = Some r"
  obtains found tlb' idx' where
    "getTLBEntry vt vaddr s = Inr (found, s\<lparr>lastSwappedIndex := idx', tlb := tlb'\<rparr>)"
    and "sv39_ready vt rd (s\<lparr>lastSwappedIndex := idx', tlb := tlb'\<rparr>)"
    and "case r of None \<Rightarrow> found = None | Some (i, p) \<Rightarrow> \<exists>e. found = Some e \<and> means e (satp s) vaddr i p"
proof -
  have "tlb_ok rd (satp s) (tlb s)" "unat (lastSwappedIndex s) < TLB_SIZE" "pte_mem vt rd (subBus s)"
    "satp_get (satp s) satp_mode = 8"
    using assms(1) by (simp_all add: sv39_ready_def)
  from getTLBEntry_walk[OF this(1-3) assms(2) this(4) assms(3)] this that show ?thesis
    by (force simp: sv39_ready_def)
qed

section \<open>Properties\<close>

text \<open>
  C12. The lookaside buffer is transparent: with a consistent buffer and SV39 on, for a canonical
  address whose page table entries are readable, \<open>getTLBEntry\<close> returns and answers what the
  three level walk in memory says, hit or miss: nothing for a fault, otherwise the physical page,
  the size and the permissions of the leaf. It changes nothing but the buffer, which stays consistent.
\<close>

theorem getTLBEntry_refines_walk:
  assumes "sv39_ready vt rd s" and "canonical vaddr" and "satp_walk rd (satp s) vaddr = Some r"
  shows "\<exists>found tlb' idx'. getTLBEntry vt vaddr s = Inr (found, s\<lparr>lastSwappedIndex := idx', tlb := tlb'\<rparr>)
    \<and> sv39_ready vt rd (s\<lparr>lastSwappedIndex := idx', tlb := tlb'\<rparr>)
    \<and> (case r of None \<Rightarrow> found = None | Some (i, p) \<Rightarrow> \<exists>e. found = Some e \<and> means e (satp s) vaddr i p)"
  by (rule ready_walk[OF assms]) auto

theorem getTLBEntry_refines_walk_witness:
  "\<exists>e s'. getTLBEntry giga_vt 0x30 (giga_mmu S_MODE) = Inr (Some e, s')
     \<and> means e (satp (giga_mmu S_MODE)) 0x30 2 0x200000cf"
  using getTLBEntry_refines_walk [OF giga_ready giga_facts(6,5)] by fastforce

section \<open>Accesses through the unit\<close>

definition leaf_paddr :: "nat \<Rightarrow> u64 \<Rightarrow> u64 \<Rightarrow> u64" where
  "leaf_paddr i p vaddr = push_bit 12 (pte_ppn p) + vaddr mod push_bit (page_bits i) 1"

lemma means_paddr: "means e satp_reg v i p \<Longrightarrow> i \<le> 2 \<Longrightarrow> tlb_paddr e vaddr = Inr (leaf_paddr i p vaddr)"
proof -
  assume m: "means e satp_reg v i p" and i: "i \<le> 2"
  have "tlb_ppa (e\<lparr>tlb_asid := 0\<rparr>) = push_bit 12 (pte_ppn p)" "tlb_pagesize (e\<lparr>tlb_asid := 0\<rparr>) = of_nat (Suc i)"
    using m by (simp_all add: means_def new_entry_def)
  then have "tlb_ppa e = push_bit 12 (pte_ppn p)" "page_size_of (tlb_pagesize e) = push_bit (page_bits i) 1"
    using level_pages(1)[OF i] by simp_all
  then show ?thesis using level_pages(5)[OF i] by (simp add: tlb_paddr_def leaf_paddr_def)
qed

lemma means_flags:
  assumes "means e satp_reg v i p"
  shows "tlb_R e = (pte p pte_R \<noteq> 0)" "tlb_W e = (pte p pte_W \<noteq> 0)" "tlb_X e = (pte p pte_X \<noteq> 0)"
    "tlb_U e = (pte p pte_U \<noteq> 0)" "tlb_A e = (pte p pte_A \<noteq> 0)" "tlb_D e = (pte p pte_D \<noteq> 0)"
proof -
  have "tlb_R (e\<lparr>tlb_asid := 0\<rparr>) = (pte p pte_R \<noteq> 0)" "tlb_W (e\<lparr>tlb_asid := 0\<rparr>) = (pte p pte_W \<noteq> 0)"
    "tlb_X (e\<lparr>tlb_asid := 0\<rparr>) = (pte p pte_X \<noteq> 0)" "tlb_U (e\<lparr>tlb_asid := 0\<rparr>) = (pte p pte_U \<noteq> 0)"
    "tlb_A (e\<lparr>tlb_asid := 0\<rparr>) = (pte p pte_A \<noteq> 0)" "tlb_D (e\<lparr>tlb_asid := 0\<rparr>) = (pte p pte_D \<noteq> 0)"
    using assms unfolding means_def by (simp_all add: new_entry_def)
  then show "tlb_R e = (pte p pte_R \<noteq> 0)" "tlb_W e = (pte p pte_W \<noteq> 0)" "tlb_X e = (pte p pte_X \<noteq> 0)"
    "tlb_U e = (pte p pte_U \<noteq> 0)" "tlb_A e = (pte p pte_A \<noteq> 0)" "tlb_D e = (pte p pte_D \<noteq> 0)"
    by simp_all
qed

lemma satp_walk_leaf: "satp_walk rd satp_reg v = Some (Some (i, p)) \<Longrightarrow> i \<le> 2 \<and> leaf_ok p"
proof -
  have "sv39_walk rd j table v = Some (Some (i, p)) \<Longrightarrow> leaf_ok p" for j table
    by (induction j arbitrary: table) (auto split: option.splits if_splits)
  then show "satp_walk rd satp_reg v = Some (Some (i, p)) \<Longrightarrow> i \<le> 2 \<and> leaf_ok p"
    using walk_level unfolding satp_walk_def by blast
qed

text \<open>The permission rules of the three kinds of access, on a leaf: what the unit answers, or \<open>VADDR_ACCESS_OK\<close>.\<close>

definition read_check :: "('b, 'z) mmu_state_scheme \<Rightarrow> u64 \<Rightarrow> VAddr_RW_Feedback" where
  "read_check s p =
     (if pte p pte_A = 0 \<or> pte p pte_R = 0 then VADDR_PAGE_FAULT
      else if effective_priv s = U_MODE \<and> pte p pte_U = 0 then VADDR_PAGE_FAULT
      else if mst (status s) ms_sum = 0 \<and> currentPrivMode s = S_MODE \<and> pte p pte_U \<noteq> 0 then VADDR_ACCESS_FAULT
      else VADDR_ACCESS_OK)"

definition write_check :: "('b, 'z) mmu_state_scheme \<Rightarrow> u64 \<Rightarrow> VAddr_RW_Feedback" where
  "write_check s p =
     (if pte p pte_A = 0 \<or> pte p pte_D = 0 \<or> pte p pte_W = 0 then VADDR_PAGE_FAULT
      else if effective_priv s = U_MODE \<and> pte p pte_U = 0 then VADDR_PAGE_FAULT
      else if mst (status s) ms_sum = 0 \<and> effective_priv s = S_MODE \<and> pte p pte_U \<noteq> 0 then VADDR_PAGE_FAULT
      else VADDR_ACCESS_OK)"

definition fetch_check :: "('b, 'z) mmu_state_scheme \<Rightarrow> u64 \<Rightarrow> VAddr_RW_Feedback" where
  "fetch_check s p =
     (if pte p pte_A = 0 \<or> pte p pte_X = 0 then VADDR_PAGE_FAULT
      else if currentPrivMode s = U_MODE \<and> pte p pte_U = 0 \<or> currentPrivMode s = S_MODE \<and> pte p pte_U \<noteq> 0
      then VADDR_PAGE_FAULT else VADDR_ACCESS_OK)"

lemma checks_tlb [simp]:
  "read_check (s\<lparr>lastSwappedIndex := i, tlb := t\<rparr>) p = read_check s p"
  "write_check (s\<lparr>lastSwappedIndex := i, tlb := t\<rparr>) p = write_check s p"
  "fetch_check (s\<lparr>lastSwappedIndex := i, tlb := t\<rparr>) p = fetch_check s p"
  "effective_priv (s\<lparr>lastSwappedIndex := i, tlb := t\<rparr>) = effective_priv s"
  by (simp_all add: read_check_def write_check_def fetch_check_def effective_priv_def)

text \<open>
  C13. Loads: with translation on, a load within a page answers what the walk and the permission
  rules \<open>read_check\<close> say: a page fault when there is no leaf, the fault of the rules, or
  the load of the translated physical address. The lookaside buffer never shows.
\<close>

theorem read_refines_walk:
  assumes "sv39_ready vt rd s" and "\<not> bare s" and "canonical a" and "\<not> cross_page a n"
    and "satp_walk rd (satp s) a = Some r"
  shows "\<exists>tlb' idx'. sv39_ready vt rd (s\<lparr>lastSwappedIndex := idx', tlb := tlb'\<rparr>)
    \<and> VAddr_ReadBuffer_MMU_API vt a n s =
      (let s' = s\<lparr>lastSwappedIndex := idx', tlb := tlb'\<rparr> in
       case r of None \<Rightarrow> Inr (VADDR_PAGE_FAULT, None, s') | Some (i, p) \<Rightarrow>
         if read_check s p \<noteq> VADDR_ACCESS_OK then Inr (read_check s p, None, s')
         else bnd (doLoad vt (leaf_paddr i p a) n s') (\<lambda>(fb, b, s'').
           Inr (if fb \<noteq> FB_SUCCESS then VADDR_ACCESS_FAULT else VADDR_ACCESS_OK, b, s'')))"
proof (rule ready_walk[OF assms(1,3,5)])
  fix found tlb' idx'
  let ?s = "s\<lparr>lastSwappedIndex := idx', tlb := tlb'\<rparr>"
  assume g: "getTLBEntry vt a s = Inr (found, ?s)" and "sv39_ready vt rd ?s"
    and f: "case r of None \<Rightarrow> found = None | Some (i, p) \<Rightarrow> \<exists>e. found = Some e \<and> means e (satp s) a i p"
  moreover have "VAddr_ReadBuffer_MMU_API vt a n s = (case r of None \<Rightarrow> Inr (VADDR_PAGE_FAULT, None, ?s)
     | Some (i, p) \<Rightarrow> if read_check s p \<noteq> VADDR_ACCESS_OK then Inr (read_check s p, None, ?s)
         else bnd (doLoad vt (leaf_paddr i p a) n ?s) (\<lambda>(fb, b, s'').
           Inr (if fb \<noteq> FB_SUCCESS then VADDR_ACCESS_FAULT else VADDR_ACCESS_OK, b, s'')))"
  proof (cases r)
    case None
    with f g assms(2,4) show ?thesis by (simp add: VAddr_ReadBuffer_MMU_API_def)
  next
    case (Some ip)
    obtain i p where ip: "ip = (i, p)" by (cases ip)
    with Some f obtain e where e: "found = Some e" "means e (satp s) a i p" by auto
    have leaf: "i \<le> 2" "leaf_ok p" using assms(5) Some ip satp_walk_leaf by auto
    have "pte p pte_R = 0 \<Longrightarrow> pte p pte_X \<noteq> 0" using leaf(2) by (auto simp: leaf_ok_def)
    then show ?thesis
      using g assms(2,4) means_flags[OF e(2)] means_paddr[OF e(2) leaf(1), of a]
      unfolding Some ip e(1) by (simp add: VAddr_ReadBuffer_MMU_API_def read_check_def)
  qed
  ultimately show ?thesis by (intro exI[of _ tlb'] exI[of _ idx']) (simp add: Let_def)
qed

lemma giga_translated: "\<not> bare (giga_mmu S_MODE)" "\<not> cross_page 0x30 8"
  by (simp_all add: bare_def giga_mmu_def get_f_def bf_get_def cross_page_def)

theorem read_refines_walk_witness:
  "\<exists>s'. VAddr_ReadBuffer_MMU_API giga_vt 0x30 8 (giga_mmu S_MODE)
      = (if read_check (giga_mmu S_MODE) 0x200000cf \<noteq> VADDR_ACCESS_OK
         then Inr (read_check (giga_mmu S_MODE) 0x200000cf, None, s')
         else bnd (doLoad giga_vt (leaf_paddr 2 0x200000cf 0x30) 8 s') (\<lambda>(fb, b, s'').
           Inr (if fb \<noteq> FB_SUCCESS then VADDR_ACCESS_FAULT else VADDR_ACCESS_OK, b, s'')))"
  using read_refines_walk [OF giga_ready giga_translated(1) giga_facts(6) giga_translated(2) giga_facts(5)]
  unfolding Let_def option.case prod.case by (elim exE conjE) (rule exI)

text \<open>
  C14. Stores: with translation on, a store within a page answers what the walk and the rules
  \<open>write_check\<close> say, and the bus is written at the translated physical address only when the
  leaf is writable, accessed and dirty and open to the effective privilege mode.
\<close>

theorem write_refines_walk:
  assumes "sv39_ready vt rd s" and "\<not> bare s" and "canonical a" and "\<not> cross_page a (of_nat (length bs))"
    and "satp_walk rd (satp s) a = Some r"
  shows "\<exists>tlb' idx'. sv39_ready vt rd (s\<lparr>lastSwappedIndex := idx', tlb := tlb'\<rparr>)
    \<and> VAddr_WriteBuffer_MMU_API vt a bs s =
      (let s' = s\<lparr>lastSwappedIndex := idx', tlb := tlb'\<rparr> in
       case r of None \<Rightarrow> Inr (VADDR_PAGE_FAULT, s') | Some (i, p) \<Rightarrow>
         if write_check s p \<noteq> VADDR_ACCESS_OK then Inr (write_check s p, s')
         else bnd (doStore vt (leaf_paddr i p a) bs s') (\<lambda>(fb, s'').
           Inr (if fb \<noteq> FB_SUCCESS then VADDR_PAGE_FAULT else VADDR_ACCESS_OK, s'')))"
proof (rule ready_walk[OF assms(1,3,5)])
  fix found tlb' idx'
  let ?s = "s\<lparr>lastSwappedIndex := idx', tlb := tlb'\<rparr>"
  assume g: "getTLBEntry vt a s = Inr (found, ?s)" and "sv39_ready vt rd ?s"
    and f: "case r of None \<Rightarrow> found = None | Some (i, p) \<Rightarrow> \<exists>e. found = Some e \<and> means e (satp s) a i p"
  moreover have "VAddr_WriteBuffer_MMU_API vt a bs s = (case r of None \<Rightarrow> Inr (VADDR_PAGE_FAULT, ?s)
     | Some (i, p) \<Rightarrow> if write_check s p \<noteq> VADDR_ACCESS_OK then Inr (write_check s p, ?s)
         else bnd (doStore vt (leaf_paddr i p a) bs ?s) (\<lambda>(fb, s'').
           Inr (if fb \<noteq> FB_SUCCESS then VADDR_PAGE_FAULT else VADDR_ACCESS_OK, s'')))"
  proof (cases r)
    case None
    with f g assms(2,4) show ?thesis by (simp add: VAddr_WriteBuffer_MMU_API_def)
  next
    case (Some ip)
    obtain i p where ip: "ip = (i, p)" by (cases ip)
    with Some f obtain e where e: "found = Some e" "means e (satp s) a i p" by auto
    have leaf: "i \<le> 2" using assms(5) Some ip satp_walk_leaf by auto
    then show ?thesis
      using g assms(2,4) means_flags[OF e(2)] means_paddr[OF e(2) leaf(1), of a]
      unfolding Some ip e(1) by (simp add: VAddr_WriteBuffer_MMU_API_def write_check_def)
  qed
  ultimately show ?thesis by (intro exI[of _ tlb'] exI[of _ idx']) (simp add: Let_def)
qed

theorem write_refines_walk_witness:
  "\<exists>s'. VAddr_WriteBuffer_MMU_API giga_vt 0x30 (replicate 8 0xff) (giga_mmu S_MODE)
      = (if write_check (giga_mmu S_MODE) 0x200000cf \<noteq> VADDR_ACCESS_OK
         then Inr (write_check (giga_mmu S_MODE) 0x200000cf, s')
         else bnd (doStore giga_vt (leaf_paddr 2 0x200000cf 0x30) (replicate 8 0xff) s') (\<lambda>(fb, s'').
           Inr (if fb \<noteq> FB_SUCCESS then VADDR_PAGE_FAULT else VADDR_ACCESS_OK, s'')))"
proof -
  have "\<not> cross_page 0x30 (of_nat (length (replicate 8 (0xff :: u8))))" using giga_translated(2) by simp
  from write_refines_walk [OF giga_ready giga_translated(1) giga_facts(6) this giga_facts(5)]
  show ?thesis unfolding Let_def option.case prod.case by (elim exE conjE) (rule exI)
qed

text \<open>
  C15. Instruction fetch: with translation on, the fetch of a halfword or of an aligned word
  answers what the walk and the rules \<open>fetch_check\<close> say; user mode executes only user pages and
  supervisor mode never executes one.
\<close>

theorem fetch_refines_walk:
  assumes "sv39_ready vt rd s" and "currentPrivMode s \<noteq> M_MODE" and "canonical a" and "a mod 2 = 0"
    and "\<not> cross_page a (of_nat (length buf))" and "satp_walk rd (satp s) a = Some r"
  shows "\<exists>tlb' idx'. sv39_ready vt rd (s\<lparr>lastSwappedIndex := idx', tlb := tlb'\<rparr>)
    \<and> fetch_part vt a buf s =
      (let s' = s\<lparr>lastSwappedIndex := idx', tlb := tlb'\<rparr> in
       case r of None \<Rightarrow> Inr (VADDR_PAGE_FAULT, buf, s') | Some (i, p) \<Rightarrow>
         if fetch_check s p \<noteq> VADDR_ACCESS_OK then Inr (fetch_check s p, buf, s')
         else bnd (doLoad vt (leaf_paddr i p a) (of_nat (length buf)) s') (\<lambda>(fb, b, s'').
           Inr (if fb \<noteq> FB_SUCCESS then VADDR_ACCESS_FAULT else VADDR_ACCESS_OK,
                case b of None \<Rightarrow> buf | Some bs \<Rightarrow> bs, s'')))"
proof (rule ready_walk[OF assms(1,3,6)])
  fix found tlb' idx'
  let ?s = "s\<lparr>lastSwappedIndex := idx', tlb := tlb'\<rparr>"
  assume g: "getTLBEntry vt a s = Inr (found, ?s)" and "sv39_ready vt rd ?s"
    and f: "case r of None \<Rightarrow> found = None | Some (i, p) \<Rightarrow> \<exists>e. found = Some e \<and> means e (satp s) a i p"
  have on: "satp_get (satp s) satp_mode = 8" using assms(1) by (simp add: sv39_ready_def)
  have "fetch_part vt a buf s = (case r of None \<Rightarrow> Inr (VADDR_PAGE_FAULT, buf, ?s)
     | Some (i, p) \<Rightarrow> if fetch_check s p \<noteq> VADDR_ACCESS_OK then Inr (fetch_check s p, buf, ?s)
         else bnd (doLoad vt (leaf_paddr i p a) (of_nat (length buf)) ?s) (\<lambda>(fb, b, s'').
           Inr (if fb \<noteq> FB_SUCCESS then VADDR_ACCESS_FAULT else VADDR_ACCESS_OK,
                case b of None \<Rightarrow> buf | Some bs \<Rightarrow> bs, s'')))"
  proof (cases r)
    case None
    with f g assms(2,4,5) on show ?thesis by (simp add: fetch_part_def)
  next
    case (Some ip)
    obtain i p where ip: "ip = (i, p)" by (cases ip)
    with Some f obtain e where e: "found = Some e" "means e (satp s) a i p" by auto
    have leaf: "i \<le> 2" using assms(6) Some ip satp_walk_leaf by auto
    then show ?thesis
      using g assms(2,4,5) on means_flags[OF e(2)] means_paddr[OF e(2) leaf(1), of a]
      unfolding Some ip e(1) by (simp add: fetch_part_def fetch_check_def)
  qed
  then show ?thesis using \<open>sv39_ready vt rd ?s\<close>
    by (intro exI[of _ tlb'] exI[of _ idx']) (simp add: Let_def)
qed

theorem fetch_refines_walk_witness:
  "\<exists>s'. fetch_part giga_vt 0x30 [0, 0, 0, 0] (giga_mmu S_MODE)
      = (if fetch_check (giga_mmu S_MODE) 0x200000cf \<noteq> VADDR_ACCESS_OK
         then Inr (fetch_check (giga_mmu S_MODE) 0x200000cf, [0, 0, 0, 0], s')
         else bnd (doLoad giga_vt (leaf_paddr 2 0x200000cf 0x30) (of_nat (length [0 :: u8, 0, 0, 0])) s') (\<lambda>(fb, b, s'').
           Inr (if fb \<noteq> FB_SUCCESS then VADDR_ACCESS_FAULT else VADDR_ACCESS_OK,
                case b of None \<Rightarrow> [0, 0, 0, 0] | Some bs \<Rightarrow> bs, s'')))"
proof -
  have "\<not> cross_page 0x30 (of_nat (length [0 :: u8, 0, 0, 0]))" "currentPrivMode (giga_mmu S_MODE) \<noteq> M_MODE"
    "(0x30 :: u64) mod 2 = 0"
    by (simp_all add: cross_page_def giga_mmu_def)
  from fetch_refines_walk [OF giga_ready this(2) giga_facts(6) this(3,1) giga_facts(5)]
  show ?thesis unfolding Let_def option.case prod.case by (elim exE conjE) (rule exI)
qed

definition flush_entry :: "u64 \<Rightarrow> u64 \<Rightarrow> SV39_TLB_Entry_t \<Rightarrow> SV39_TLB_Entry_t" where
  "flush_entry v asid e =
     (if (ucast (tlb_asid e) = asid \<or> asid = 0) \<and> (v = 0 \<or> (tlb_pagesize e = 1 \<or> tlb_pagesize e = 2 \<or> tlb_pagesize e = 3)
         \<and> tlb_vpa e AND page_addr_mask (page_size_of (tlb_pagesize e)) = v AND page_addr_mask (page_size_of (tlb_pagesize e)))
      then e\<lparr>tlb_pagesize := 0\<rparr> else e)"

lemma flush_tlb: "tlb (SV39_FlushTLB_sfence_vma v asid s) = map (flush_entry v asid) (tlb s)"
  by (auto simp: SV39_FlushTLB_sfence_vma_def flush_entry_def Let_def)

lemma match_pagesize: "tlb_match satp_reg v e \<Longrightarrow> tlb_pagesize e = 1 \<or> tlb_pagesize e = 2 \<or> tlb_pagesize e = 3"
proof (rule ccontr)
  assume m: "tlb_match satp_reg v e" and "\<not> ?thesis"
  then have "page_size_of (tlb_pagesize e) = 0" by (simp add: page_size_of_def)
  moreover have "page_addr_mask 0 = 0" by (simp add: page_addr_mask_def page_defs)
  ultimately show False using m by (simp add: tlb_match_def)
qed

lemma flush_entry_no_match:
  assumes "ucast (tlb_asid (flush_entry v asid e)) = asid \<or> asid = 0"
  shows "\<not> tlb_match satp_reg v (flush_entry v asid e)"
proof
  assume m: "tlb_match satp_reg v (flush_entry v asid e)"
  from match_pagesize[OF this] have "flush_entry v asid e = e" by (auto simp: flush_entry_def)
  with m assms have e: "tlb_match satp_reg v e" "ucast (tlb_asid e) = asid \<or> asid = 0"
    "tlb_pagesize (flush_entry v asid e) \<noteq> 0" using match_pagesize[OF m] by auto
  let ?m = "page_addr_mask (page_size_of (tlb_pagesize e))"
  have "v AND ?m = tlb_vpa e" using e(1) by (simp add: tlb_match_def)
  then have "tlb_vpa e AND ?m = v AND ?m" by (metis and.assoc and.idem)
  with e match_pagesize[OF e(1)] show False by (simp add: flush_entry_def)
qed

text \<open>
  C16. After \<open>sfence.vma\<close> of an address and an address space (0 for all), no entry of that space
  hits the address; with both operands 0 the buffer is consistent with every page table and every
  \<open>satp\<close>, so a program that changed its tables gets the new translations.
\<close>

theorem sfence_forgets:
  "(\<forall>e \<in> set (tlb (SV39_FlushTLB_sfence_vma v asid s)).
      (ucast (tlb_asid e) = asid \<or> asid = 0) \<longrightarrow> \<not> tlb_match satp_reg v e)
   \<and> (length (tlb s) = TLB_SIZE \<longrightarrow> tlb_ok rd satp_reg (tlb (SV39_FlushTLB_sfence_vma 0 0 s)))"
proof
  show "\<forall>e \<in> set (tlb (SV39_FlushTLB_sfence_vma v asid s)).
      (ucast (tlb_asid e) = asid \<or> asid = 0) \<longrightarrow> \<not> tlb_match satp_reg v e"
    unfolding flush_tlb set_map ball_simps by (intro ballI impI) (rule flush_entry_no_match)
  show "length (tlb s) = TLB_SIZE \<longrightarrow> tlb_ok rd satp_reg (tlb (SV39_FlushTLB_sfence_vma 0 0 s))"
    by (auto simp: SV39_FlushTLB_sfence_vma_def intro!: tlb_ok_invalid)
qed

theorem sfence_forgets_witness:
  "tlb_ok giga_rd 0 (tlb (SV39_FlushTLB_sfence_vma 0 0 (giga_mmu S_MODE)))"
proof -
  have "length (tlb (giga_mmu S_MODE)) = TLB_SIZE" by (simp add: giga_mmu_def TLB_SIZE_def)
  then show ?thesis using sfence_forgets [of 0 0 "giga_mmu S_MODE" 0 giga_rd] by blast
qed

end
