(* ===== verification/Amo.thy ===== *)
theory Amo
  imports Sv39 AddrBus Alu
begin

text \<open>
  Atomic memory operations, load-reserved and store-conditional of the MMU, \<open>src/rv64_amo.cpp\<close>. An
  output parameter that a path does not assign is \<open>None\<close>.
\<close>

section \<open>The operations\<close>

definition amo_word :: "AMO_Funct_enum \<Rightarrow> u64 \<Rightarrow> u64 \<Rightarrow> u64 res" where
  "amo_word op src res' =
     (case op of
        AMOSWAP \<Rightarrow> Inr src
      | AMOADD \<Rightarrow> Inr (src + res')
      | AMOAND \<Rightarrow> Inr (src AND res')
      | AMOOR \<Rightarrow> Inr (src OR res')
      | AMOXOR \<Rightarrow> Inr (src XOR res')
      | AMOMAX \<Rightarrow> Inr (if src <s res' then res' else src)
      | AMOMIN \<Rightarrow> Inr (if res' <s src then res' else src)
      | AMOMAXU \<Rightarrow> Inr (if src < res' then res' else src)
      | AMOMINU \<Rightarrow> Inr (if res' < src then res' else src)
      | _ \<Rightarrow> Inl AssertFail)"

text \<open>Four loaded bytes are an \<open>int32_t\<close> widened to \<open>int64_t\<close>, eight are an \<open>int64_t\<close>.\<close>

definition amo_loaded :: "u64 \<Rightarrow> u8 list \<Rightarrow> u64" where
  "amo_loaded len bs = (if len = 4 then scast (word_of_bytes bs :: u32) else word_of_bytes bs)"

definition pa_amo_op :: "'b slave_atomic_io \<Rightarrow> u64 \<Rightarrow> u64 \<Rightarrow> AMO_Funct_enum \<Rightarrow> u64 \<Rightarrow> ('b, 'z) mmu_state_scheme
    \<Rightarrow> (bool \<times> u64 option \<times> ('b, 'z) mmu_state_scheme) res" where
  "pa_amo_op vt pa len op src s =
     bnd (doLoad vt pa len s) (\<lambda>(feedback, b, s).
       if feedback \<noteq> FB_SUCCESS then Inr (False, None, s)
       else case b of None \<Rightarrow> Inl Undefined | Some bs \<Rightarrow>
         (let res' = amo_loaded len bs in
          bnd (amo_word op src res') (\<lambda>to_write.
          bnd (doStore vt pa (bytes_of (unat len) to_write) s) (\<lambda>(feedback, s).
            Inr (feedback = FB_SUCCESS, Some res', s)))))"

definition vaddrAtomicMemOperation :: "'b slave_atomic_io \<Rightarrow> u64 \<Rightarrow> u64 \<Rightarrow> AMO_Funct_enum \<Rightarrow> u64
    \<Rightarrow> ('b, 'z) mmu_state_scheme \<Rightarrow> (RV64_ExecFeedbackCode_e \<times> u64 option \<times> ('b, 'z) mmu_state_scheme) res" where
  "vaddrAtomicMemOperation vt start_addr len op src s =
     guard (len = 4 \<or> len = 8)
     (let at = (\<lambda>pa s. bnd (pa_amo_op vt pa len op src s) (\<lambda>(amo_fb, dst, s).
        Inr (if \<not> amo_fb then exec_store_acc_fault else exec_ok, dst, s))) in
      if bare s then at start_addr s
      else if cross_page start_addr len then Inr (exec_store_misalign, None, s)
      else bnd (getTLBEntry vt start_addr s) (\<lambda>(entry, s).
        case entry of None \<Rightarrow> Inr (exec_store_pgfault, None, s) | Some e \<Rightarrow>
        if \<not> tlb_A e \<or> \<not> tlb_D e \<or> \<not> tlb_W e then Inr (exec_store_pgfault, None, s)
        else if effective_priv s = U_MODE \<and> \<not> tlb_U e then Inr (exec_store_pgfault, None, s)
        else if mst (status s) ms_sum = 0 \<and> effective_priv s = S_MODE \<and> tlb_U e
        then Inr (exec_store_pgfault, None, s)
        else bnd (tlb_paddr e start_addr) (\<lambda>paddr. at paddr s)))"

definition vaddrLoadReserved :: "'b slave_atomic_io \<Rightarrow> u64 \<Rightarrow> u64 \<Rightarrow> ('b, 'z) mmu_state_scheme
    \<Rightarrow> (RV64_ExecFeedbackCode_e \<times> u8 list option \<times> ('b, 'z) mmu_state_scheme) res" where
  "vaddrLoadReserved vt begin_addr len s =
     (let at = (\<lambda>pa s. bnd (doLoad vt pa len (doReserve vt pa len (rvHartID s) s)) (\<lambda>(pread_fb, b, s).
        Inr (if pread_fb \<noteq> FB_SUCCESS then exec_store_acc_fault else exec_ok, b, s))) in
      if bare s then at begin_addr s
      else if cross_page begin_addr len then Inr (exec_store_misalign, None, s)
      else bnd (getTLBEntry vt begin_addr s) (\<lambda>(entry, s).
        case entry of None \<Rightarrow> Inr (exec_store_pgfault, None, s) | Some e \<Rightarrow>
        if \<not> tlb_A e \<or> (\<not> tlb_R e \<and> \<not> (mst (status s) ms_mxr \<noteq> 0 \<and> \<not> tlb_X e))
        then Inr (exec_store_pgfault, None, s)
        else if effective_priv s = U_MODE \<and> \<not> tlb_U e then Inr (exec_store_pgfault, None, s)
        else if mst (status s) ms_sum = 0 \<and> currentPrivMode s = S_MODE \<and> tlb_U e
        then Inr (exec_store_acc_fault, None, s)
        else bnd (tlb_paddr e begin_addr) (\<lambda>paddr. at paddr s)))"

text \<open>
  \<open>sc_fail\<close> is assigned by the check. The two places that store differ in the code they return when
  the store fails: \<open>store_fail\<close>.
\<close>

definition sc_at :: "'b slave_atomic_io \<Rightarrow> u64 \<Rightarrow> u8 list \<Rightarrow> RV64_ExecFeedbackCode_e \<Rightarrow> ('b, 'z) mmu_state_scheme
    \<Rightarrow> (RV64_ExecFeedbackCode_e \<times> bool option \<times> ('b, 'z) mmu_state_scheme) res" where
  "sc_at vt pa buffer store_fail s =
     (let (ok, s) = doCheck vt pa (of_nat (length buffer)) (rvHartID s) s; sc_fail = \<not> ok in
      if sc_fail then Inr (exec_ok, Some sc_fail, s)
      else bnd (doStore vt pa buffer s) (\<lambda>(pwrite_fb, s).
        Inr (if pwrite_fb \<noteq> FB_SUCCESS then store_fail else exec_ok, Some sc_fail, s)))"

definition vaddrStoreConditional :: "'b slave_atomic_io \<Rightarrow> u64 \<Rightarrow> u8 list \<Rightarrow> ('b, 'z) mmu_state_scheme
    \<Rightarrow> (RV64_ExecFeedbackCode_e \<times> bool option \<times> ('b, 'z) mmu_state_scheme) res" where
  "vaddrStoreConditional vt begin_addr buffer s =
     (if bare s then sc_at vt begin_addr buffer exec_store_acc_fault s
      else if cross_page begin_addr (of_nat (length buffer)) then Inr (exec_store_misalign, None, s)
      else bnd (getTLBEntry vt begin_addr s) (\<lambda>(entry, s).
        case entry of None \<Rightarrow> Inr (exec_store_pgfault, None, s) | Some e \<Rightarrow>
        if \<not> tlb_A e \<or> \<not> tlb_D e \<or> \<not> tlb_W e then Inr (exec_store_pgfault, None, s)
        else if effective_priv s = U_MODE \<and> \<not> tlb_U e then Inr (exec_store_pgfault, None, s)
        else if mst (status s) ms_sum = 0 \<and> effective_priv s = S_MODE \<and> tlb_U e
        then Inr (exec_store_pgfault, None, s)
        else bnd (tlb_paddr e begin_addr) (\<lambda>paddr. sc_at vt paddr buffer exec_store_pgfault s)))"

text \<open>Like the rest of the unit, these change only the bus and the lookaside buffer.\<close>

lemma doReserve_frame: "mmu_only s (doReserve vt a n h s)"
  by (simp add: doReserve_def mmu_only_def)

lemma doCheck_frame: "doCheck vt a n h s = (ok, s') \<Longrightarrow> mmu_only s s'"
  by (auto simp: doCheck_def split: prod.splits)

lemma pa_amo_op_frame: "pa_amo_op vt a n op src s = Inr (ok, d, s') \<Longrightarrow> mmu_only s s'"
  by (auto simp: pa_amo_op_def Let_def res_simps split: option.splits if_splits
      dest!: doLoad_frame doStore_frame intro: mmu_only_trans)

lemma amo_frame: "vaddrAtomicMemOperation vt a n op src s = Inr (e, d, s') \<Longrightarrow> mmu_only s s'"
  by (auto simp: vaddrAtomicMemOperation_def Let_def res_simps split: option.splits if_splits
      dest!: pa_amo_op_frame getTLBEntry_frame intro: mmu_only_trans)

lemma lr_frame:
  assumes "vaddrLoadReserved vt a n s = Inr (e, d, s')" shows "mmu_only s s'"
proof -
  have at: "mmu_only s1 s2" if "doLoad vt pa n (doReserve vt pa n h s1) = Inr (fb, b, s2)" for pa h s1 fb b s2
    using mmu_only_trans doReserve_frame doLoad_frame[OF that] by blast
  show ?thesis
  proof (cases "bare s \<or> cross_page a n")
    case True then show ?thesis
      using assms by (auto simp: vaddrLoadReserved_def Let_def res_simps split: if_split_asm dest: at)
  next
    case False
    then obtain entry s1 where g: "getTLBEntry vt a s = Inr (entry, s1)"
      using assms by (auto simp: vaddrLoadReserved_def Let_def res_simps)
    have "mmu_only s1 s'"
      using assms False g by (cases entry)
        (auto simp: vaddrLoadReserved_def Let_def res_simps split: if_split_asm dest: at)
    then show ?thesis using getTLBEntry_frame[OF g] mmu_only_trans by blast
  qed
qed

lemma sc_at_frame: "sc_at vt a bs f s = Inr (e, d, s') \<Longrightarrow> mmu_only s s'"
  by (auto simp: sc_at_def Let_def res_simps split: if_splits prod.splits
      dest!: doCheck_frame doStore_frame intro: mmu_only_trans)

lemma sc_frame: "vaddrStoreConditional vt a bs s = Inr (e, d, s') \<Longrightarrow> mmu_only s s'"
  by (auto simp: vaddrStoreConditional_def Let_def res_simps split: option.splits if_splits
      dest!: sc_at_frame getTLBEntry_frame intro: mmu_only_trans)

section \<open>The reference\<close>

text \<open>The RISC-V read-modify-write functions on the signed readings of old memory and operand.\<close>

definition rv_amo :: "nat \<Rightarrow> AMO_Funct_enum \<Rightarrow> int \<Rightarrow> int \<Rightarrow> int option" where
  "rv_amo n op old src =
     (case op of
        AMOSWAP \<Rightarrow> Some src | AMOADD \<Rightarrow> Some (old + src) | AMOAND \<Rightarrow> Some (old AND src)
      | AMOOR \<Rightarrow> Some (old OR src) | AMOXOR \<Rightarrow> Some (old XOR src)
      | AMOMAX \<Rightarrow> Some (max old src) | AMOMIN \<Rightarrow> Some (min old src)
      | AMOMAXU \<Rightarrow> Some (if un n old < un n src then src else old)
      | AMOMINU \<Rightarrow> Some (if un n src < un n old then src else old)
      | _ \<Rightarrow> None)"

lemma un_signed: "- (2 ^ n) \<le> z \<Longrightarrow> z < 2 ^ n \<Longrightarrow> un n z = (if 0 \<le> z then z else z + 2 ^ n)"
proof (cases "0 \<le> z")
  case False
  assume "- (2 ^ n) \<le> z"
  with False have "(z + 2 ^ n) mod 2 ^ n = z + 2 ^ n" by (intro mod_pos_pos_trivial) auto
  with False show ?thesis by (simp add: un_def)
qed (simp add: un_def)

lemma amo_word_64:
  "amo_word op src old = (case rv_amo 64 op (sint old) (sint src) of None \<Rightarrow> Inl AssertFail | Some r \<Rightarrow> Inr (word_of_int r))"
  by (cases op) (auto simp: amo_word_def rv_amo_def un_uint word_sless_alt word_less_def max_def min_def add.commute
      and.commute or.commute xor.commute of_int_and_eq of_int_or_eq of_int_xor_eq intro: word_uint_eqI)

lemma rv_amo_width:
  assumes "- (2 ^ 31) \<le> x" "x < 2 ^ 31" "- (2 ^ 31) \<le> y" "y < 2 ^ 31"
  shows "rv_amo 64 op x y = rv_amo 32 op x y"
proof -
  have "un 64 x < un 64 y \<longleftrightarrow> un 32 x < un 32 y" if "- (2 ^ 31) \<le> x" "x < 2 ^ 31" "- (2 ^ 31) \<le> y" "y < 2 ^ 31" for x y
    using that by (simp add: un_signed)
  with assms show ?thesis by (simp add: rv_amo_def)
qed

lemma sint_bounds32: "- (2 ^ 31) \<le> sint w" "sint w < 2 ^ 31" for w :: u32
  using sint_ge[of w] sint_lt[of w] by simp_all

lemma amo_word_32:
  fixes old :: u32
  assumes "src = sext32 src"
  shows "map_sum id (ucast :: u64 \<Rightarrow> u32) (amo_word op src (scast old))
     = (case rv_amo 32 op (sint old) (sint (ucast src :: u32)) of None \<Rightarrow> Inl AssertFail | Some r \<Rightarrow> Inr (word_of_int r))"
proof -
  have "sint (scast old :: u64) = sint old" by (simp add: sint_up_scast is_up)
  moreover have "sint src = sint (ucast src :: u32)" using sint_sext32[of src] assms by simp
  ultimately show ?thesis
    using rv_amo_width[OF sint_bounds32 sint_bounds32, of op old "ucast src"]
    by (simp add: amo_word_64 ucast_word_of_int split: option.split)
qed

lemma bytes_of_low: "n \<le> 4 \<Longrightarrow> bytes_of n (ucast w :: u32) = bytes_of n (w :: u64)"
  by (rule nth_equalityI) (auto intro!: bit_word_eqI simp: bit_simps)

section \<open>Properties\<close>

text \<open>
  Doubleword atomics: when the bus answers a load with \<open>old\<close>, the operation hands back
  \<open>old\<close> and stores, in the same call, the RISC-V function of \<open>old\<close> and the operand.
\<close>

theorem amo_doubleword:
  assumes "io_load vt (subBus s) pa 8 = Inr (FB_SUCCESS, Some (bytes_of 8 old), b1)"
    and "rv_amo 64 op (sint old) (sint src) = Some r"
  shows "pa_amo_op vt pa 8 op src s = bnd (io_store vt b1 pa (bytes_of 8 (word_of_int r :: u64)))
           (\<lambda>(fb, b2). Inr (fb = FB_SUCCESS, Some old, s\<lparr>subBus := b2\<rparr>))"
  using assms
  by (simp add: pa_amo_op_def doLoad_def doStore_def amo_loaded_def word_of_bytes_bytes_of take_bit_word_eq_self
      amo_word_64 bnd_assoc case_prod_unfold)

text \<open>
  Word atomics: for an operand that is a sign extended word, the operation hands back the
  sign extended old word and stores the RISC-V function of the two words.
\<close>

theorem amo_word_op:
  assumes "io_load vt (subBus s) pa 4 = Inr (FB_SUCCESS, Some (bytes_of 4 old), b1)"
    and "src = sext32 src" and "rv_amo 32 op (sint old) (sint (ucast src :: u32)) = Some r"
  shows "pa_amo_op vt pa 4 op src s = bnd (io_store vt b1 pa (bytes_of 4 (word_of_int r :: u32)))
           (\<lambda>(fb, b2). Inr (fb = FB_SUCCESS, Some (scast (old :: u32)), s\<lparr>subBus := b2\<rparr>))"
proof -
  have "map_sum id ucast (amo_word op src (scast old)) = (Inr (word_of_int r) :: crash + u32)"
    using amo_word_32[OF assms(2), of op old] assms(3) by simp
  then obtain w where w: "amo_word op src (scast old) = Inr w" "ucast w = (word_of_int r :: u32)"
    by (cases "amo_word op src (scast old)") auto
  have "bytes_of 4 w = bytes_of 4 (word_of_int r :: u32)"
    using bytes_of_low[of 4 w] w(2) by simp
  with assms(1) w(1) show ?thesis
    by (simp add: pa_amo_op_def doLoad_def doStore_def amo_loaded_def word_of_bytes_bytes_of take_bit_word_eq_self
        bnd_assoc case_prod_unfold)
qed

text \<open>A bus of one doubleword.\<close>

definition cell_vt :: "u64 slave_atomic_io" where
  "cell_vt = \<lparr>io_load = (\<lambda>b a n. Inr (FB_SUCCESS, Some (bytes_of (unat n) b), b)),
     io_store = (\<lambda>b a bs. Inr (FB_SUCCESS, word_of_bytes (bs @ drop (length bs) (bytes_of 8 b)))),
     io_reserve = (\<lambda>b a n h. b), io_check = (\<lambda>b a n h. (False, b))\<rparr>"

definition cell_mmu :: "u64 \<Rightarrow> u64 mmu_state" where
  "cell_mmu v = \<lparr>currentPrivMode = M_MODE, satp = 0, status = 0, rvHartID = 0, tlb = [],
     lastSwappedIndex = 0, subBus = v\<rparr>"

lemma cell_load: "io_load cell_vt (subBus (cell_mmu v)) a n = Inr (FB_SUCCESS, Some (bytes_of (unat n) v), v)"
  by (simp add: cell_vt_def cell_mmu_def)

theorem amo_doubleword_witness:
  "pa_amo_op cell_vt 0 8 AMOMIN (-3) (cell_mmu 7)
     = bnd (io_store cell_vt 7 0 (bytes_of 8 (word_of_int (-3) :: u64)))
         (\<lambda>(fb, b2). Inr (fb = FB_SUCCESS, Some 7, (cell_mmu 7)\<lparr>subBus := b2\<rparr>))"
  by (rule amo_doubleword) (simp_all add: cell_load rv_amo_def)

theorem amo_word_op_witness:
  "pa_amo_op cell_vt 0 4 AMOADD (-3) (cell_mmu 7)
     = bnd (io_store cell_vt 7 0 (bytes_of 4 (word_of_int 4 :: u32)))
         (\<lambda>(fb, b2). Inr (fb = FB_SUCCESS, Some (scast (7 :: u32)), (cell_mmu 7)\<lparr>subBus := b2\<rparr>))"
proof -
  have "bytes_of 4 (7 :: u64) = bytes_of 4 (7 :: u32)" using bytes_of_low[of 4 7] by simp
  then show ?thesis
    by (intro amo_word_op) (simp_all add: cell_load rv_amo_def sext32_def)
qed

text \<open>
  Word maximum compares too much: with a doubleword operand whose low half is 0, \<open>amomax.w\<close> on
  the old word 5 stores 0, the low half of the operand, and not the maximum 5 of the two words.
\<close>

theorem amomax_w_high_half:
  assumes "io_load vt (subBus s) pa 4 = Inr (FB_SUCCESS, Some (bytes_of 4 (5 :: u32)), b1)"
  shows "pa_amo_op vt pa 4 AMOMAX 0x100000000 s = bnd (io_store vt b1 pa (bytes_of 4 (0 :: u32)))
           (\<lambda>(fb, b2). Inr (fb = FB_SUCCESS, Some 5, s\<lparr>subBus := b2\<rparr>))
     \<and> rv_amo 32 AMOMAX 5 (sint (ucast (0x100000000 :: u64) :: u32)) = Some 5"
proof -
  have "bytes_of 4 (0x100000000 :: u64) = bytes_of 4 (0 :: u32)"
    by (simp add: bytes_of_def upt_rec)
  then show ?thesis
    using assms by (simp add: pa_amo_op_def doLoad_def doStore_def amo_loaded_def word_of_bytes_bytes_of
        take_bit_word_eq_self bnd_assoc case_prod_unfold amo_word_def rv_amo_def)
qed

theorem amomax_w_high_half_witness:
  "pa_amo_op cell_vt 0 4 AMOMAX 0x100000000 (cell_mmu 5) = bnd (io_store cell_vt 5 0 (bytes_of 4 (0 :: u32)))
     (\<lambda>(fb, b2). Inr (fb = FB_SUCCESS, Some 5, (cell_mmu 5)\<lparr>subBus := b2\<rparr>))"
proof -
  have "bytes_of 4 (5 :: u64) = bytes_of 4 (5 :: u32)" using bytes_of_low[of 4 5] by simp
  then have "io_load cell_vt (subBus (cell_mmu 5)) 0 4 = Inr (FB_SUCCESS, Some (bytes_of 4 (5 :: u32)), 5)"
    by (simp add: cell_load)
  from amomax_w_high_half [OF this] show ?thesis by blast
qed

section \<open>Load-reserved and store-conditional\<close>

lemma bare_bus [simp]: "bare (s\<lparr>subBus := b\<rparr>) = bare s"
  by (simp add: bare_def)

context atomic_slave
begin

lemma lr_reserves:
  assumes "bare s" and "vaddrLoadReserved vt a n s = Inr (code, b, s')"
  shows "(\<exists>b'. s' = s\<lparr>subBus := b'\<rparr>) \<and> reserved (subBus s') = Some (a, n, rvHartID s)"
  using assms by (auto simp: vaddrLoadReserved_def doReserve_def doLoad_def bnd_eq_Inr dest!: load_keeps
      simp: reserve_sets intro: exI[of _ "subBus s'"])

lemma sc_outcome:
  assumes "bare s"
  shows "vaddrStoreConditional vt a bs s =
     (if reserved (subBus s) = Some (a, of_nat (length bs), rvHartID s)
      then bnd (io_store vt (unreserved (subBus s)) a bs) (\<lambda>(fb, b'). Inr (if fb \<noteq> FB_SUCCESS then exec_store_acc_fault
             else exec_ok, Some False, s\<lparr>subBus := b'\<rparr>))
      else Inr (exec_ok, Some True, s\<lparr>subBus := unreserved (subBus s)\<rparr>))"
  using assms by (simp add: vaddrStoreConditional_def sc_at_def doCheck_def check_is doStore_def bnd_assoc case_prod_unfold)

lemma sc_drops:
  assumes "bare s" and "vaddrStoreConditional vt a bs s = Inr (code, f, s')"
  shows "bare s' \<and> reserved (subBus s') = None"
  using assms unfolding sc_outcome[OF assms(1)] by (auto simp: drops bnd_eq_Inr dest!: store_keeps split: if_splits)

lemma sc_fails:
  assumes "bare s" and "reserved (subBus s) = None"
  shows "vaddrStoreConditional vt a bs s = Inr (exec_ok, Some True, s)"
  using assms by (simp add: sc_outcome none_dropped)

end

text \<open>
  C34. Load-reserved and store-conditional without translation, on the system bus, of one hart. A store-conditional right after a load-reserved,
  of the same address and width, is the store of the bus, and reports success, with a fault when the
  bus refuses the store. One of another address or width reports failure and changes nothing but that the reservation is gone: it does not
  store. A store-conditional right after another one, whatever that one did, reports failure and changes nothing at all.
\<close>

theorem lr_sc_pair:
  assumes "bare s" and "vaddrLoadReserved (addrbus_io vt) a (of_nat (length bs)) s = Inr (code, b, s1)"
  shows "(case subBus s1 of (m, h) \<Rightarrow>
       vaddrStoreConditional (addrbus_io vt) a bs s1 =
         bnd (addrbus_store vt (m\<lparr>reservationValid := False\<rparr>, h) a bs) (\<lambda>(fb, b').
           Inr (if fb \<noteq> FB_SUCCESS then exec_store_acc_fault else exec_ok, Some False, s1\<lparr>subBus := b'\<rparr>))
     \<and> (a' \<noteq> a \<or> (of_nat (length bs') :: u64) \<noteq> of_nat (length bs) \<longrightarrow>
         vaddrStoreConditional (addrbus_io vt) a' bs' s1 = Inr (exec_ok, Some True, s1\<lparr>subBus := (m\<lparr>reservationValid := False\<rparr>, h)\<rparr>)))
     \<and> (vaddrStoreConditional (addrbus_io vt) a' bs' s1 = Inr (code2, f, s2) \<longrightarrow>
         vaddrStoreConditional (addrbus_io vt) a'' bs'' s2 = Inr (exec_ok, Some True, s2))"
proof -
  have s1: "bare s1" "bus_reserved (subBus s1) = Some (a, of_nat (length bs), rvHartID s1)"
    using ab.lr_reserves[OF assms(1,2)] assms(1) by auto
  have io: "io_store (addrbus_io vt) = addrbus_store vt" by (simp add: addrbus_io_def)
  show ?thesis
    using ab.sc_outcome[OF s1(1), of vt] ab.sc_drops[OF s1(1), of vt a' bs' code2 f s2] ab.sc_fails[of s2 vt a'' bs''] s1(2)
    by (auto simp: io bus_unreserved_def split: prod.split)
qed

text \<open>A bus whose main memory is eight bytes at 0, and a core above it in machine mode.\<close>

definition small_bus :: "unit addr_bus \<times> unit" where
  "small_bus = (setMem addrbus_new 0 [0, 0, 0, 0, 0, 0, 0, 0] None, ())"

definition small_mmu :: "(unit addr_bus \<times> unit) mmu_state" where
  "small_mmu = \<lparr>currentPrivMode = M_MODE, satp = 0, status = 0, rvHartID = 0, tlb = [],
     lastSwappedIndex = 0, subBus = small_bus\<rparr>"

definition no_dev :: "unit \<Rightarrow> unit slave_io" where
  "no_dev _ = \<lparr>io_load = (\<lambda>s a n. Inr (FB_OUT_OF_RANGE, None, s)), io_store = (\<lambda>s a bs. Inr (FB_OUT_OF_RANGE, s))\<rparr>"

theorem lr_sc_pair_witness:
  "\<exists>s1 s2. vaddrLoadReserved (addrbus_io no_dev) 0 4 small_mmu = Inr (exec_ok, Some [0, 0, 0, 0], s1)
     \<and> vaddrStoreConditional (addrbus_io no_dev) 0 [1, 2, 3, 4] s1 = Inr (exec_ok, Some False, s2)
     \<and> mainMem (fst (subBus s2)) = Some [1, 2, 3, 4, 0, 0, 0, 0]
     \<and> vaddrStoreConditional (addrbus_io no_dev) 0 [5, 6, 7, 8] s2 = Inr (exec_ok, Some True, s2)"
proof -
  have bare: "bare small_mmu" by (simp add: bare_def small_mmu_def get_f_def)
  let ?b1 = "reserve (fst small_bus) 0 4 0"
  let ?s1 = "small_mmu\<lparr>subBus := (?b1, ())\<rparr>"
  have lr: "vaddrLoadReserved (addrbus_io no_dev) 0 (of_nat (length [1, 2, 3, 4 :: u8])) small_mmu = Inr (exec_ok, Some [0, 0, 0, 0], ?s1)"
    using bare by (simp add: vaddrLoadReserved_def doReserve_def doLoad_def addrbus_io_def addrbus_load_def
        in_main_mem_def mem_read_def small_mmu_def small_bus_def setMem_def addrbus_new_def reserve_def Let_def
        addr_bus.defs slave_atomic.defs)
  let ?b2 = "?b1\<lparr>reservationValid := False, mainMem := Some [1, 2, 3, 4, 0, 0, 0, 0]\<rparr>"
  have st: "addrbus_store no_dev (?b1\<lparr>reservationValid := False\<rparr>, ()) 0 [1, 2, 3, 4] = Inr (FB_SUCCESS, (?b2, ()))"
    by (simp add: addrbus_store_def kill_reservation_def in_main_mem_def mem_write_def small_bus_def setMem_def
        addrbus_new_def reserve_def Let_def addr_bus.defs slave_atomic.defs)
  note lr_sc = lr_sc_pair [OF bare lr]
  let ?s2 = "?s1\<lparr>subBus := (?b2, ())\<rparr>"
  have sc: "vaddrStoreConditional (addrbus_io no_dev) 0 [1, 2, 3, 4] ?s1 = Inr (exec_ok, Some False, ?s2)"
    using lr_sc st by simp
  then have "vaddrStoreConditional (addrbus_io no_dev) 0 [5, 6, 7, 8] ?s2 = Inr (exec_ok, Some True, ?s2)"
    using lr_sc by blast
  then show ?thesis using lr sc by (intro exI[of _ ?s1] exI[of _ ?s2]) simp
qed

end
