(* ===== verification/Privilege.thy ===== *)
theory Privilege
  imports Mmu
begin

text \<open>
  Traps, interrupts, control registers and the privileged instructions of the simple core,
  \<open>src/rv64_privilege.cpp\<close>, and the memory accesses of \<open>src/rv64_common.cpp\<close> that raise traps.
\<close>

section \<open>Traps\<close>

definition mk_cause :: "u64 \<Rightarrow> u64 \<Rightarrow> u64" where
  "mk_cause cause interrupt = put_f CSReg_Cause_t_pos ca_interrupt interrupt (put_f CSReg_Cause_t_pos ca_cause cause 0)"

text \<open>\<open>1 << n\<close> on \<open>int\<close>, used as a 64-bit mask: bit 31 is the sign, a shift by 32 or more is undefined.\<close>

definition int_shl_1 :: "u64 \<Rightarrow> u64 res" where
  "int_shl_1 n = (if n < 32 then Inr (scast (push_bit (unat n) 1 :: u32)) else Inl Undefined)"

text \<open>\<open>trap_dest\<close>: whether the trap goes to supervisor mode.\<close>

definition trap_dest_S :: "u64 \<Rightarrow> 'b rv64core \<Rightarrow> bool res" where
  "trap_dest_S cause s =
     (if currentPrivMode s \<noteq> M_MODE then
        bnd (int_shl_1 (cau cause ca_cause)) (\<lambda>m.
          if cau cause ca_interrupt \<noteq> 0 then Inr (csrMIntDelegation s AND m \<noteq> 0)
          else Inr (csrMExceptionDelegation s AND m \<noteq> 0))
      else Inr False)"

definition trap_vector :: "u64 \<Rightarrow> u64 \<Rightarrow> u64" where
  "trap_vector vec cause =
     push_bit 2 (tvec vec tv_base) + (if tvec vec tv_mode = 1 then cau cause ca_cause * 4 else 0)"

definition trap_to_S :: "u64 \<Rightarrow> u64 \<Rightarrow> 'b rv64core \<Rightarrow> 'b rv64core" where
  "trap_to_S cause tval s =
     s\<lparr>csrSupervisorTrapVal := tval, csrSupervisorCause := cause,
       csrSExceptionPC := currentProgramCounter s,
       status := sst_put ss_spp (PrivMode_val (currentPrivMode s)) (sst_put ss_sie 0
                   (sst_put ss_spie (sst (status s) ss_sie) (status s))),
       trapProgramCounter := trap_vector (csrSTrapVecBaseAddr s) cause, nextPrivMode := S_MODE\<rparr>"

definition trap_to_M :: "u64 \<Rightarrow> u64 \<Rightarrow> 'b rv64core \<Rightarrow> 'b rv64core" where
  "trap_to_M cause tval s =
     s\<lparr>csrMachineTrapVal := tval, csrMachineCause := cause,
       csrMExceptionPC := currentProgramCounter s,
       status := mst_put ms_mpp (PrivMode_val (currentPrivMode s)) (mst_put ms_mie 0
                   (mst_put ms_mpie (mst (status s) ms_mie) (status s))),
       trapProgramCounter := trap_vector (csrMTrapVecBaseAddr s) cause, nextPrivMode := M_MODE\<rparr>"

definition raiseTrap :: "u64 \<Rightarrow> u64 \<Rightarrow> 'b rv64core \<Rightarrow> 'b rv64core res" where
  "raiseTrap cause tval s =
     guard (\<not> needTrap s) (guard (cau cause ca_cause \<noteq> exec_val exec_ok)
       (bnd (trap_dest_S cause (s\<lparr>needTrap := True\<rparr>)) (\<lambda>to_S.
         let s' = (if to_S then trap_to_S cause tval else trap_to_M cause tval) (s\<lparr>needTrap := True\<rparr>) in
         guard (\<not> (cau cause ca_cause = exec_val exec_instr_pgfault \<and> tval = trapProgramCounter s')) (Inr s'))))"

definition raise_exc :: "RV64_ExecFeedbackCode_e \<Rightarrow> u64 \<Rightarrow> 'b rv64core \<Rightarrow> 'b rv64core res" where
  "raise_exc e tval s = raiseTrap (mk_cause (exec_val e) 0) tval s"

section \<open>Interrupts\<close>

definition raise_int :: "IntType_e \<Rightarrow> 'b rv64core \<Rightarrow> 'b rv64core res" where
  "raise_int i s = raiseTrap (mk_cause (of_nat (IntType_val i)) 1) 0 s"

definition update_pending :: "irq_store \<Rightarrow> 'b rv64core \<Rightarrow> 'b rv64core" where
  "update_pending w s =
     s\<lparr>csrMCycleNum := csrMCycleNum s + 1,
       csrIntPending :=
         put_f CSReg_IntPending_t_pos ip_s_e_ip (bool_word (w (Seip (intStatus s))))
         (put_f CSReg_IntPending_t_pos ip_m_t_ip (bool_word (w (Mtip (intStatus s))))
         (put_f CSReg_IntPending_t_pos ip_m_s_ip (bool_word (w (Msip (intStatus s))))
         (put_f CSReg_IntPending_t_pos ip_m_e_ip (bool_word (w (Meip (intStatus s)))) (csrIntPending s)))),
       needTrap := False, currentPrivMode := nextPrivMode s\<rparr>"

definition preExec :: "irq_store \<Rightarrow> 'b rv64core \<Rightarrow> 'b rv64core res" where
  "preExec w s0 =
     (let s = update_pending w s0; int_bits = csrIntPending s AND csrIntEnable s in
      if bits_to_int_type int_bits = int_no_int then Inr s
      else if currentPrivMode s = M_MODE then
        let m_mode_int_bits = int_bits AND NOT (csrMIntDelegation s) in
        if mst (status s) ms_mie \<noteq> 0 \<and> m_mode_int_bits \<noteq> 0 then raise_int (bits_to_int_type m_mode_int_bits) s
        else Inr s
      else
        let int_type = bits_to_int_type int_bits in
        if int_bits AND csrMIntDelegation s \<noteq> 0 then
          if currentPrivMode s < S_MODE then raise_int int_type s
          else if mst (status s) ms_sie \<noteq> 0 then raise_int int_type s
          else Inr s
        else
          if currentPrivMode s < M_MODE then raise_int int_type s
          else if mst (status s) ms_mie \<noteq> 0 then raise_int int_type s
          else Inr s)"

section \<open>Control and status registers\<close>

definition copy_fields :: "('f \<Rightarrow> nat \<times> nat) \<Rightarrow> ('g \<Rightarrow> nat \<times> nat) \<Rightarrow> ('f \<times> 'g) list \<Rightarrow> u64 \<Rightarrow> u64 \<Rightarrow> u64" where
  "copy_fields dpos spos fs src dst = fold (\<lambda>(f, g) w. put_f dpos f (get_f spos g src) w) fs dst"

definition sstatus_read_fields :: "(CSReg_SStatus_t_field \<times> CSReg_MStatus_t_field) list" where
  "sstatus_read_fields = [(ss_sie, ms_sie), (ss_spie, ms_spie), (ss_ube, ms_ube), (ss_spp, ms_spp), (ss_vs, ms_vs),
     (ss_fs, ms_fs), (ss_xs, ms_xs), (ss_sum, ms_sum), (ss_mxr, ms_mxr), (ss_uxl, ms_uxl), (ss_sd, ms_sd)]"

text \<open>\<open>None\<close> stands for \<open>return false\<close>.\<close>

definition csrRead :: "'b rv64core \<Rightarrow> u32 \<Rightarrow> u64 option" where
  "csrRead s csr_index =
     (case RV_CSR_Addr_enum_of csr_index of
        Some csr_mvendorid \<Rightarrow> Some 0
      | Some csr_marchid \<Rightarrow> Some 0
      | Some csr_mimpid \<Rightarrow> Some 0
      | Some csr_mhartid \<Rightarrow> Some (rvHartID s)
      | Some csr_mconfigptr \<Rightarrow> Some 0
      | Some csr_mstatus \<Rightarrow> Some (status s)
      | Some csr_misa \<Rightarrow> Some (csrMachineISA s)
      | Some csr_medeleg \<Rightarrow> Some (csrMExceptionDelegation s)
      | Some csr_mideleg \<Rightarrow> Some (csrMIntDelegation s)
      | Some csr_mie \<Rightarrow> Some (csrIntEnable s)
      | Some csr_mtvec \<Rightarrow> Some (csrMTrapVecBaseAddr s)
      | Some csr_mcounteren \<Rightarrow> Some (csrMCounterEN s)
      | Some csr_mscratch \<Rightarrow> Some (csrMscratch s)
      | Some csr_mepc \<Rightarrow> Some (csrMExceptionPC s)
      | Some csr_mcause \<Rightarrow> Some (csrMachineCause s)
      | Some csr_mtval \<Rightarrow> Some (csrMachineTrapVal s)
      | Some csr_mip \<Rightarrow> Some (csrIntPending s)
      | Some csr_mcycle \<Rightarrow> Some (csrMCycleNum s)
      | Some csr_minstret \<Rightarrow> Some (minstret s)
      | Some csr_sstatus \<Rightarrow>
          Some (copy_fields CSReg_SStatus_t_pos CSReg_MStatus_t_pos sstatus_read_fields (status s) 0)
      | Some csr_sie \<Rightarrow> Some (csrIntEnable s AND S_MODE_INT_MASK)
      | Some csr_stvec \<Rightarrow> Some (csrSTrapVecBaseAddr s)
      | Some csr_scounteren \<Rightarrow> Some (csrSCounterEN s)
      | Some csr_sscratch \<Rightarrow> Some (csrSscratch s)
      | Some csr_sepc \<Rightarrow> Some (csrSExceptionPC s)
      | Some csr_scause \<Rightarrow> Some (csrSupervisorCause s)
      | Some csr_stval \<Rightarrow> Some (csrSupervisorTrapVal s)
      | Some csr_sip \<Rightarrow> Some (csrIntPending s AND S_MODE_INT_MASK)
      | Some csr_satp \<Rightarrow>
          if currentPrivMode s = S_MODE \<and> mst (status s) ms_tvm \<noteq> 0 then None else Some (satp s)
      | Some csr_cycle \<Rightarrow>
          if currentPrivMode s \<le> S_MODE \<and> (get_f CSR_CounterEN_t_pos ce_cycle (csrMCounterEN s) = 0
               \<or> get_f CSR_CounterEN_t_pos ce_cycle (csrSCounterEN s) = 0) then None
          else Some (csrMCycleNum s)
      | Some csr_tselect \<Rightarrow> Some 1
      | Some csr_tdata1 \<Rightarrow> Some 0
      | Some csr_time \<Rightarrow> Some (csrMCycleNum s)
      | _ \<Rightarrow> None)"

abbreviation ms_copy :: "CSReg_MStatus_t_field list \<Rightarrow> u64 \<Rightarrow> u64 \<Rightarrow> u64" where
  "ms_copy fs \<equiv> copy_fields CSReg_MStatus_t_pos CSReg_MStatus_t_pos (map (\<lambda>f. (f, f)) fs)"

abbreviation ss_copy :: "CSReg_SStatus_t_field list \<Rightarrow> u64 \<Rightarrow> u64 \<Rightarrow> u64" where
  "ss_copy fs \<equiv> copy_fields CSReg_SStatus_t_pos CSReg_SStatus_t_pos (map (\<lambda>f. (f, f)) fs)"

definition write_mstatus :: "u64 \<Rightarrow> u64 \<Rightarrow> u64 res" where
  "write_mstatus csr_data st =
     (let st1 = ms_copy [ms_sie, ms_mie, ms_spie, ms_mpie] csr_data st in
      guard (mst st1 ms_spie \<noteq> 2) (guard (mst st1 ms_mpie \<noteq> 2)
        (Inr (ms_copy [ms_spp, ms_mpp, ms_mprv, ms_sum, ms_mxr, ms_tvm, ms_tw, ms_tsr] csr_data st1))))"

definition write_sstatus :: "u64 \<Rightarrow> u64 \<Rightarrow> u64 res" where
  "write_sstatus csr_data st =
     (let st1 = ss_copy [ss_sie, ss_spie] csr_data st in
      guard (sst st1 ss_spie \<noteq> 2) (Inr (ss_copy [ss_spp, ss_sum, ss_mxr] csr_data st1)))"

definition csrWrite :: "'b rv64core \<Rightarrow> u32 \<Rightarrow> u64 \<Rightarrow> (bool \<times> 'b rv64core) res" where
  "csrWrite s csr_index csr_data =
     (case RV_CSR_Addr_enum_of csr_index of
        Some csr_mstatus \<Rightarrow> bnd (write_mstatus csr_data (status s)) (\<lambda>st. Inr (True, s\<lparr>status := st\<rparr>))
      | Some csr_misa \<Rightarrow> Inr (True, s)
      | Some csr_medeleg \<Rightarrow> Inr (True, s\<lparr>csrMExceptionDelegation := csr_data AND S_MODE_EXC_MASK\<rparr>)
      | Some csr_mideleg \<Rightarrow> Inr (True, s\<lparr>csrMIntDelegation := csr_data AND S_MODE_INT_MASK\<rparr>)
      | Some csr_mie \<Rightarrow> Inr (True, s\<lparr>csrIntEnable := csr_data AND M_MODE_INT_MASK\<rparr>)
      | Some csr_mtvec \<Rightarrow> guard (tvec csr_data tv_mode \<le> 1) (Inr (True, s\<lparr>csrMTrapVecBaseAddr := csr_data\<rparr>))
      | Some csr_mcounteren \<Rightarrow> Inr (True, s\<lparr>csrMCounterEN := csr_data AND COUNTER_MASK\<rparr>)
      | Some csr_mscratch \<Rightarrow> Inr (True, s\<lparr>csrMscratch := csr_data\<rparr>)
      | Some csr_mepc \<Rightarrow> Inr (True, s\<lparr>csrMExceptionPC := csr_data\<rparr>)
      | Some csr_mcause \<Rightarrow> Inr (True, s\<lparr>csrMachineCause := csr_data\<rparr>)
      | Some csr_mtval \<Rightarrow> Inr (True, s\<lparr>csrMachineTrapVal := csr_data\<rparr>)
      | Some csr_mip \<Rightarrow> Inr (True, s\<lparr>csrIntPending := csr_data AND M_MODE_INT_MASK\<rparr>)
      | Some csr_mcycle \<Rightarrow> Inr (True, s\<lparr>csrMCycleNum := csr_data\<rparr>)
      | Some csr_sstatus \<Rightarrow> bnd (write_sstatus csr_data (status s)) (\<lambda>st. Inr (True, s\<lparr>status := st\<rparr>))
      | Some csr_sie \<Rightarrow> Inr (True, s\<lparr>csrIntEnable :=
            (csrIntEnable s AND NOT S_MODE_INT_MASK) OR (csr_data AND S_MODE_INT_MASK)\<rparr>)
      | Some csr_stvec \<Rightarrow> Inr (True, s\<lparr>csrSTrapVecBaseAddr :=
            if 1 < tvec csr_data tv_mode then put_f CSReg_TrapVector_t_pos tv_mode 0 csr_data else csr_data\<rparr>)
      | Some csr_scounteren \<Rightarrow> Inr (True, s\<lparr>csrSCounterEN := csr_data AND COUNTER_MASK\<rparr>)
      | Some csr_sscratch \<Rightarrow> Inr (True, s\<lparr>csrSscratch := csr_data\<rparr>)
      | Some csr_sepc \<Rightarrow> Inr (True, s\<lparr>csrSExceptionPC := csr_data\<rparr>)
      | Some csr_scause \<Rightarrow> Inr (True, s\<lparr>csrSupervisorCause := csr_data\<rparr>)
      | Some csr_stval \<Rightarrow> Inr (True, s\<lparr>csrSupervisorTrapVal := csr_data\<rparr>)
      | Some csr_sip \<Rightarrow> Inr (True, s\<lparr>csrIntPending :=
            (csrIntPending s AND NOT S_MODE_INT_MASK) OR (csr_data AND S_MODE_INT_MASK)\<rparr>)
      | Some csr_satp \<Rightarrow>
          if currentPrivMode s = S_MODE \<and> mst (status s) ms_tvm \<noteq> 0 then Inr (False, s)
          else Inr (True, s\<lparr>satp :=
            if satp_get csr_data satp_mode \<noteq> 0 \<and> satp_get csr_data satp_mode \<noteq> 8
            then put_f SATP_Reg_t_pos satp_mode 0 csr_data else csr_data\<rparr>)
      | Some csr_tselect \<Rightarrow> Inr (True, s)
      | Some csr_tdata1 \<Rightarrow> Inr (True, s)
      | Some csr_time \<Rightarrow> Inr (True, s)
      | _ \<Rightarrow> Inr (False, s))"

definition csrSetbit :: "'b rv64core \<Rightarrow> u32 \<Rightarrow> u64 \<Rightarrow> (bool \<times> 'b rv64core) res" where
  "csrSetbit s csr_index csr_mask =
     (case csrRead s csr_index of None \<Rightarrow> Inr (False, s)
      | Some tmp \<Rightarrow> csrWrite s csr_index (tmp OR csr_mask))"

definition csrClearbit :: "'b rv64core \<Rightarrow> u32 \<Rightarrow> u64 \<Rightarrow> (bool \<times> 'b rv64core) res" where
  "csrClearbit s csr_index csr_mask =
     (case csrRead s csr_index of None \<Rightarrow> Inr (False, s)
      | Some tmp \<Rightarrow> csrWrite s csr_index (tmp AND NOT csr_mask))"

definition csr_op_permission_check :: "'b rv64core \<Rightarrow> u16 \<Rightarrow> bool \<Rightarrow> bool" where
  "csr_op_permission_check s csr_index write =
     (if PrivMode_val (currentPrivMode s) < ucast (drop_bit 8 csr_index AND 3) then False
      else if drop_bit 10 csr_index AND 3 = 3 \<and> write then False
      else True)"

section \<open>Privileged instructions\<close>

definition ecall :: "'b rv64core \<Rightarrow> 'b rv64core res" where
  "ecall s = raiseTrap (mk_cause (PrivMode_val (currentPrivMode s) + 8) 0) 0 s"

definition ebreak :: "'b rv64core \<Rightarrow> 'b rv64core res" where
  "ebreak s = raise_exc exec_breakpoint 0 s"

definition mret :: "'b rv64core \<Rightarrow> bool \<times> 'b rv64core" where
  "mret s =
     (if currentPrivMode s \<noteq> M_MODE then (False, s)
      else
        let st1 = mst_put ms_mie (mst (status s) ms_mpie) (status s);
            next' = PrivMode_of (mst st1 ms_mpp);
            st2 = mst_put ms_mpie 1 st1;
            st3 = (if mst st2 ms_mpp \<noteq> PrivMode_val M_MODE then mst_put ms_mprv 0 st2 else st2);
            st4 = mst_put ms_mpp (PrivMode_val U_MODE) st3 in
        (True, s\<lparr>status := st4, nextPrivMode := next', needTrap := True,
                 trapProgramCounter := csrMExceptionPC s\<rparr>))"

definition sret :: "'b rv64core \<Rightarrow> bool \<times> 'b rv64core" where
  "sret s =
     (if currentPrivMode s < S_MODE then (False, s)
      else if mst (status s) ms_tsr \<noteq> 0 then (False, s)
      else
        let st1 = sst_put ss_sie (sst (status s) ss_spie) (status s);
            next' = PrivMode_of (sst st1 ss_spp);
            st2 = sst_put ss_spie 1 st1;
            st3 = (if sst st2 ss_spp \<noteq> PrivMode_val M_MODE then mst_put ms_mprv 0 st2 else st2);
            st4 = sst_put ss_spp (PrivMode_val U_MODE) st3 in
        (True, s\<lparr>status := st4, nextPrivMode := next', needTrap := True,
                 trapProgramCounter := csrSExceptionPC s\<rparr>))"

definition sfence_vma :: "u64 \<Rightarrow> u64 \<Rightarrow> 'b rv64core \<Rightarrow> bool \<times> 'b rv64core" where
  "sfence_vma vaddr asid s =
     (if currentPrivMode s < S_MODE \<or> (currentPrivMode s = S_MODE \<and> mst (status s) ms_tvm \<noteq> 0) then (False, s)
      else (True, SV39_FlushTLB_sfence_vma vaddr asid s))"

section \<open>Memory accesses of the core\<close>

text \<open>\<open>va_err\<close> is the number the unit returns; \<open>exec_ok\<close> marks a number that is none of the three faults.\<close>

definition access_feedback :: "u32 \<Rightarrow> RV64_ExecFeedbackCode_e \<Rightarrow> RV64_ExecFeedbackCode_e \<Rightarrow> RV64_ExecFeedbackCode_e
    \<Rightarrow> RV64_ExecFeedbackCode_e" where
  "access_feedback va_err acc_fault misalign pgfault =
     (if va_err = VAddr_RW_Feedback_val VADDR_ACCESS_FAULT then acc_fault
      else if va_err = VAddr_RW_Feedback_val VADDR_MIS_ALIGN then misalign
      else if va_err = VAddr_RW_Feedback_val VADDR_PAGE_FAULT then pgfault else exec_ok)"

definition memRead :: "'b slave_atomic_io \<Rightarrow> u64 \<Rightarrow> u64 \<Rightarrow> 'b rv64core
    \<Rightarrow> (bool \<times> u8 list option \<times> 'b rv64core) res" where
  "memRead vt start_addr len s =
     (if start_addr mod len \<noteq> 0 then
        bnd (raise_exc exec_load_misalign start_addr s) (\<lambda>s. Inr (False, None, s))
      else bnd (mmu_load vt s start_addr len) (\<lambda>(va_err, b, s).
        if va_err = FB_SUCCESS then Inr (True, b, s)
        else let feedback = access_feedback va_err exec_load_acc_fault exec_load_misalign exec_load_pgfault in
          guard (feedback \<noteq> exec_ok) (bnd (raise_exc feedback start_addr s) (\<lambda>s. Inr (False, b, s)))))"

definition memWrite :: "'b slave_atomic_io \<Rightarrow> u64 \<Rightarrow> u8 list \<Rightarrow> 'b rv64core \<Rightarrow> (bool \<times> 'b rv64core) res" where
  "memWrite vt start_addr buffer s =
     (if start_addr mod of_nat (length buffer) \<noteq> 0 then
        bnd (raise_exc exec_store_misalign start_addr s) (\<lambda>s. Inr (False, s))
      else bnd (mmu_store vt s start_addr buffer) (\<lambda>(va_err, s).
        if va_err = FB_SUCCESS then Inr (True, s)
        else let feedback = access_feedback va_err exec_store_acc_fault exec_store_misalign exec_store_pgfault in
          guard (feedback \<noteq> exec_ok) (bnd (raise_exc feedback start_addr s) (\<lambda>s. Inr (False, s)))))"

section \<open>The invariant of the core\<close>

text \<open>The reserved fields of \<open>mstatus\<close>, which the code asserts to be 0 after every instruction.\<close>

definition status_ok :: "u64 \<Rightarrow> bool" where
  "status_ok st \<longleftrightarrow> mst st ms_blank0 = 0 \<and> mst st ms_blank1 = 0 \<and> mst st ms_blank2 = 0
     \<and> mst st ms_blank3 = 0 \<and> mst st ms_blank4 = 0"

text \<open>
  \<open>x0\<close> holds 0, the reserved fields are 0, and only the six interrupts that exist are enabled.
\<close>

definition core_ok :: "'b rv64core \<Rightarrow> bool" where
  "core_ok s \<longleftrightarrow> GPR s 0 = 0 \<and> status_ok (status s) \<and> csrIntEnable s AND NOT M_MODE_INT_MASK = 0"

lemma ss_as_ms:
  "sst_put ss_sie = mst_put ms_sie" "sst_put ss_spie = mst_put ms_spie" "sst_put ss_spp = mst_put ms_spp"
  "sst_put ss_sum = mst_put ms_sum" "sst_put ss_mxr = mst_put ms_mxr"
  "sst w ss_sie = mst w ms_sie" "sst w ss_spie = mst w ms_spie" "sst w ss_spp = mst w ms_spp"
  "sst w ss_sum = mst w ms_sum" "sst w ss_mxr = mst w ms_mxr"
  by (simp_all add: put_f_def get_f_def fun_eq_iff)

lemma status_ok_put [simp]:
  "f \<notin> {ms_blank0, ms_blank1, ms_blank2, ms_blank3, ms_blank4} \<Longrightarrow> status_ok (mst_put f v st) = status_ok st"
  by (auto simp: status_ok_def msf.get_put)

lemma status_ok_0 [simp]: "status_ok 0"
  by (simp add: status_ok_def get_f_def)

lemma cause_fields [simp]:
  "cau (mk_cause c i) ca_cause = take_bit 63 c" "cau (mk_cause c i) ca_interrupt = take_bit 1 i"
  by (simp_all add: mk_cause_def caf.get_put)

lemma raiseTrap_frame:
  assumes "raiseTrap cause tval s = Inr s'"
  shows "needTrap s'" "GPR s' = GPR s" "csrIntEnable s' = csrIntEnable s" "status_ok (status s') = status_ok (status s)"
    "currentProgramCounter s' = currentProgramCounter s" "subBus s' = subBus s" "currentPrivMode s' = currentPrivMode s"
    "satp s' = satp s" "minstret s' = minstret s" "nextPrivMode s' = S_MODE \<or> nextPrivMode s' = M_MODE"
    "\<not> needTrap s"
  using assms
  by (auto simp: raiseTrap_def res_simps Let_def trap_to_S_def trap_to_M_def ss_as_ms split: if_splits)

lemma raiseTrap_ok: "core_ok s \<Longrightarrow> raiseTrap cause tval s = Inr s' \<Longrightarrow> core_ok s'"
  using raiseTrap_frame[of cause tval s s'] by (simp add: core_ok_def)

lemma raise_exc_ok: "core_ok s \<Longrightarrow> raise_exc e tval s = Inr s' \<Longrightarrow> core_ok s'"
  unfolding raise_exc_def by (rule raiseTrap_ok)

lemma update_pending_ok: "core_ok s \<Longrightarrow> core_ok (update_pending w s)"
  by (simp add: update_pending_def core_ok_def)

lemma preExec_ok: "core_ok s \<Longrightarrow> preExec w s = Inr s' \<Longrightarrow> core_ok s'"
  using update_pending_ok[of s w] raiseTrap_ok[of "update_pending w s" _ _ s']
  by (auto simp: preExec_def Let_def raise_int_def split: if_splits)

lemma mret_ok: "core_ok s \<Longrightarrow> core_ok (snd (mret s))"
  by (simp add: mret_def core_ok_def Let_def)

lemma sret_ok: "core_ok s \<Longrightarrow> core_ok (snd (sret s))"
  by (simp add: sret_def core_ok_def Let_def ss_as_ms)

lemma sfence_ok: "core_ok s \<Longrightarrow> core_ok (snd (sfence_vma v asid s))"
  by (simp add: sfence_vma_def core_ok_def SV39_FlushTLB_sfence_vma_def)

lemma copy_fields_Cons [simp]:
  "copy_fields dp sp ((f, g) # fs) src dst = copy_fields dp sp fs src (put_f dp f (get_f sp g src) dst)"
  "copy_fields dp sp [] src dst = dst"
  by (simp_all add: copy_fields_def)

lemma write_status_ok:
  "write_mstatus d st = Inr st' \<Longrightarrow> status_ok st' = status_ok st"
  "write_sstatus d st = Inr st' \<Longrightarrow> status_ok st' = status_ok st"
  by (auto simp: write_mstatus_def write_sstatus_def Let_def guard_def ss_as_ms split: if_splits)

lemma and_mask_out: "(a AND m) AND NOT m = 0" "S_MODE_INT_MASK AND NOT M_MODE_INT_MASK = 0" for a m :: u64
  by (auto intro!: bit_word_eqI simp: bit_simps M_MODE_INT_MASK_def)

lemma sie_mask_ok:
  assumes "e AND NOT M_MODE_INT_MASK = 0"
  shows "((e AND NOT S_MODE_INT_MASK) OR (d AND S_MODE_INT_MASK)) AND NOT M_MODE_INT_MASK = 0"
proof (rule bit_word_eqI)
  fix n :: nat assume "n < LENGTH(64)"
  have "bit (e AND NOT M_MODE_INT_MASK) n = bit (0 :: u64) n" "bit (S_MODE_INT_MASK AND NOT M_MODE_INT_MASK) n = bit (0 :: u64) n"
    using assms and_mask_out(2) by simp_all
  then show "bit (((e AND NOT S_MODE_INT_MASK) OR (d AND S_MODE_INT_MASK)) AND NOT M_MODE_INT_MASK) n = bit (0 :: u64) n"
    by (auto simp: bit_simps)
qed

lemma csrWrite_ok: "core_ok s \<Longrightarrow> csrWrite s idx d = Inr (b, s') \<Longrightarrow> core_ok s'"
  by (auto simp: csrWrite_def core_ok_def res_simps write_status_ok and_mask_out(1) sie_mask_ok
      split: option.splits RV_CSR_Addr_enum.splits if_splits)

lemma mmu_only_core:
  assumes "mmu_only s s'"
  shows "core_ok s' = core_ok s" "needTrap s' = needTrap s" "GPR s' = GPR s" "status s' = status s"
    "currentPrivMode s' = currentPrivMode s" "nextPrivMode s' = nextPrivMode s"
    "currentProgramCounter s' = currentProgramCounter s" "csrIntEnable s' = csrIntEnable s" "minstret s' = minstret s"
proof -
  obtain b t i where "s' = s\<lparr>subBus := b, tlb := t, lastSwappedIndex := i\<rparr>"
    using assms unfolding mmu_only_def by blast
  then show "core_ok s' = core_ok s" "needTrap s' = needTrap s" "GPR s' = GPR s" "status s' = status s"
    "currentPrivMode s' = currentPrivMode s" "nextPrivMode s' = nextPrivMode s"
    "currentProgramCounter s' = currentProgramCounter s" "csrIntEnable s' = csrIntEnable s" "minstret s' = minstret s"
    by (simp_all add: core_ok_def)
qed

lemma mmu_only_all:
  "mmu_only s s' \<Longrightarrow> core_ok s' = core_ok s \<and> needTrap s' = needTrap s \<and> GPR s' = GPR s \<and> status s' = status s
     \<and> currentPrivMode s' = currentPrivMode s \<and> nextPrivMode s' = nextPrivMode s
     \<and> currentProgramCounter s' = currentProgramCounter s \<and> minstret s' = minstret s"
  using mmu_only_core[of s s'] by blast

lemma raiseTrap_all:
  "raiseTrap cause tval s = Inr s' \<Longrightarrow> needTrap s' \<and> \<not> needTrap s \<and> (core_ok s \<longrightarrow> core_ok s')"
  using raiseTrap_frame(1,11) raiseTrap_ok by blast

lemma memRead_ok: "core_ok s \<Longrightarrow> memRead vt a n s = Inr (ok, b, s') \<Longrightarrow> core_ok s' \<and> (needTrap s' \<longleftrightarrow> needTrap s \<or> \<not> ok)"
  by (auto simp: memRead_def res_simps Let_def raise_exc_def split: if_splits
      dest!: mmu_load_frame mmu_only_all raiseTrap_all)

lemma memWrite_ok: "core_ok s \<Longrightarrow> memWrite vt a bs s = Inr (ok, s') \<Longrightarrow> core_ok s' \<and> (needTrap s' \<longleftrightarrow> needTrap s \<or> \<not> ok)"
  by (auto simp: memWrite_def res_simps Let_def raise_exc_def split: if_splits
      dest!: mmu_store_frame mmu_only_all raiseTrap_all)

lemma raiseTrap_cases:
  assumes "raiseTrap cause tval s = Inr s'"
  obtains to_S where "trap_dest_S cause s = Inr to_S"
    and "s' = (if to_S then trap_to_S cause tval else trap_to_M cause tval) (s\<lparr>needTrap := True\<rparr>)"
proof -
  have "trap_dest_S cause (s\<lparr>needTrap := True\<rparr>) = trap_dest_S cause s"
    by (simp add: trap_dest_S_def cong: if_cong)
  with assms show ?thesis by (auto simp: raiseTrap_def res_simps Let_def intro: that)
qed

lemma PrivMode_val_3 [simp]: "PrivMode_val p = 3 \<longleftrightarrow> p = M_MODE"
  by (cases p) simp_all

lemma one_bit:
  "take_bit (snd (CSReg_MStatus_t_pos f)) (mst w f) = mst w f"
  by (rule msf.take_get)

lemma int_shl_1_mask: "n < 31 \<Longrightarrow> int_shl_1 n = Inr (push_bit (unat n) 1)"
proof -
  assume n: "n < 31"
  then have k: "unat n < 31" by (simp add: word_less_nat_alt)
  have "(scast (push_bit (unat n) 1 :: u32) :: u64) = push_bit (unat n) 1"
    using k by (intro bit_word_eqI) (auto simp: bit_simps bit_1_iff min_def)
  moreover have "n < 32" using n by (rule less_trans) simp
  ultimately show ?thesis by (simp add: int_shl_1_def)
qed

text \<open>The bit that decides where a trap goes.\<close>

definition delegated :: "u64 \<Rightarrow> 'b rv64core \<Rightarrow> bool" where
  "delegated cause s \<longleftrightarrow> currentPrivMode s \<noteq> M_MODE
     \<and> bit (if cau cause ca_interrupt \<noteq> 0 then csrMIntDelegation s else csrMExceptionDelegation s)
           (unat (cau cause ca_cause))"

lemma trap_dest_S_delegated: "cau cause ca_cause < 31 \<Longrightarrow> trap_dest_S cause s = Inr (delegated cause s)"
  by (auto simp: trap_dest_S_def delegated_def int_shl_1_mask bit_iff_and_push_bit_not_eq_0)

section \<open>Properties\<close>

text \<open>A core with every register 0, in machine mode, on the bus \<open>b\<close>.\<close>

definition zero_core :: "'b \<Rightarrow> 'b rv64core" where
  "zero_core b = \<lparr>currentPrivMode = M_MODE, satp = 0, status = 0, rvHartID = 0,
     tlb = replicate 32 \<lparr>tlb_ppa = 0, tlb_vpa = 0, tlb_asid = 0, tlb_pagesize = 0, tlb_R = False,
       tlb_W = False, tlb_X = False, tlb_U = False, tlb_G = False, tlb_A = False, tlb_D = False\<rparr>,
     lastSwappedIndex = 0, subBus = b, intStatus = 0, GPR = (\<lambda>_. 0), csrMCycleNum = 0,
     csrMIntDelegation = 0, csrMExceptionDelegation = 0, csrMachineTrapVal = 0, csrMachineCause = 0,
     csrMExceptionPC = 0, csrMTrapVecBaseAddr = 0x100, csrMCounterEN = 0, csrMachineISA = 0, csrMscratch = 0,
     csrSupervisorTrapVal = 0, csrSupervisorCause = 0, csrSExceptionPC = 0, csrSTrapVecBaseAddr = 0x200,
     csrSCounterEN = 0, csrSscratch = 0, minstret = 0, csrIntPending = 0, csrIntEnable = 0,
     trapProgramCounter = 0, currentProgramCounter = 0x80000000, needTrap = False, nextPrivMode = M_MODE\<rparr>"

text \<open>A program that handles a trap and returns from it: the next instruction runs in the new mode.\<close>

definition enter :: "'b rv64core \<Rightarrow> 'b rv64core" where
  "enter s = s\<lparr>currentPrivMode := nextPrivMode s, needTrap := False, currentProgramCounter := trapProgramCounter s\<rparr>"

text \<open>
  C17. Trap and \<open>mret\<close> are inverse: after a trap to machine mode, an immediate \<open>mret\<close> is legal, goes back to the
  trapped instruction in the mode it ran in, with the interrupt enable as it was and every other
  status field, but \<open>MPP\<close>, \<open>MPIE\<close> and \<open>MPRV\<close>, unchanged.
\<close>

theorem trap_mret_roundtrip:
  assumes "raiseTrap cause tval s = Inr s1" and "nextPrivMode s1 = M_MODE"
  shows "\<exists>s2. mret (enter s1) = (True, s2) \<and> nextPrivMode s2 = currentPrivMode s
     \<and> trapProgramCounter s2 = currentProgramCounter s
     \<and> (\<forall>f. f \<notin> {ms_mpp, ms_mpie, ms_mprv} \<longrightarrow> mst (status s2) f = mst (status s) f)
     \<and> mst (status s2) ms_mprv = (if currentPrivMode s = M_MODE then mst (status s) ms_mprv else 0)"
proof (rule raiseTrap_cases[OF assms(1)])
  fix to_S assume s1: "s1 = (if to_S then trap_to_S cause tval else trap_to_M cause tval) (s\<lparr>needTrap := True\<rparr>)"
  have "\<not> to_S" using assms(2) s1 by (auto simp: trap_to_S_def)
  with s1 have s1: "s1 = trap_to_M cause tval (s\<lparr>needTrap := True\<rparr>)" by simp
  have v: "take_bit 2 (PrivMode_val p) = PrivMode_val p" for p by (cases p) simp_all
  have n: "nextPrivMode s1 = M_MODE" "trapProgramCounter s1 = trapProgramCounter s1" by (simp_all add: s1 trap_to_M_def)
  note w = one_bit[of ms_mie "status s", simplified]
  show ?thesis
    by (simp add: mret_def Let_def enter_def n(1) msf.get_put s1 trap_to_M_def v w)
qed

lemma zero_trap:
  "raiseTrap (mk_cause 2 0) 0 (zero_core ()) = Inr (trap_to_M (mk_cause 2 0) 0 ((zero_core ())\<lparr>needTrap := True\<rparr>))"
  by (simp add: raiseTrap_def trap_dest_S_def zero_core_def)

theorem trap_mret_roundtrip_witness:
  "\<exists>s2. mret (enter (trap_to_M (mk_cause 2 0) 0 ((zero_core ())\<lparr>needTrap := True\<rparr>))) = (True, s2)
     \<and> nextPrivMode s2 = M_MODE \<and> trapProgramCounter s2 = 0x80000000"
proof -
  have "nextPrivMode (trap_to_M (mk_cause 2 0) 0 ((zero_core ())\<lparr>needTrap := True\<rparr>)) = M_MODE"
    and f: "currentPrivMode (zero_core ()) = M_MODE" "currentProgramCounter (zero_core ()) = 0x80000000"
    by (simp_all add: trap_to_M_def zero_core_def)
  from trap_mret_roundtrip [OF zero_trap this(1)] show ?thesis unfolding f by blast
qed

text \<open>A core in user mode that delegates environment calls.\<close>

definition user_core :: "'b \<Rightarrow> 'b rv64core" where
  "user_core b = (zero_core b)\<lparr>currentPrivMode := U_MODE, nextPrivMode := U_MODE, csrMExceptionDelegation := 0x100\<rparr>"

lemma user_trap:
  "raiseTrap (mk_cause 8 0) 0 (user_core ()) = Inr (trap_to_S (mk_cause 8 0) 0 ((user_core ())\<lparr>needTrap := True\<rparr>))"
  by (simp add: raiseTrap_def trap_dest_S_def int_shl_1_mask user_core_def zero_core_def)

text \<open>
  C18. Trap and \<open>sret\<close> are inverse, for a trap taken to supervisor mode from user or supervisor mode while \<open>TSR\<close>
  is clear.
\<close>

theorem trap_sret_roundtrip:
  assumes "raiseTrap cause tval s = Inr s1" and "nextPrivMode s1 = S_MODE" and "currentPrivMode s \<in> {U_MODE, S_MODE}"
    and "mst (status s) ms_tsr = 0"
  shows "\<exists>s2. sret (enter s1) = (True, s2) \<and> nextPrivMode s2 = currentPrivMode s
     \<and> trapProgramCounter s2 = currentProgramCounter s
     \<and> (\<forall>f. f \<notin> {ms_spp, ms_spie, ms_mprv} \<longrightarrow> mst (status s2) f = mst (status s) f)
     \<and> mst (status s2) ms_mprv = 0"
proof (rule raiseTrap_cases[OF assms(1)])
  fix to_S assume s1: "s1 = (if to_S then trap_to_S cause tval else trap_to_M cause tval) (s\<lparr>needTrap := True\<rparr>)"
  have "to_S" using assms(2) s1 by (auto simp: trap_to_M_def split: if_splits)
  with s1 have s1: "s1 = trap_to_S cause tval (s\<lparr>needTrap := True\<rparr>)" by simp
  have v: "take_bit 1 (PrivMode_val (currentPrivMode s)) = PrivMode_val (currentPrivMode s)"
    "PrivMode_val (currentPrivMode s) \<noteq> PrivMode_val M_MODE"
    using assms(3) by auto
  note w = one_bit[of ms_sie "status s", simplified]
  show ?thesis
    using assms(4) v by (simp add: sret_def Let_def enter_def msf.get_put s1 trap_to_S_def w ss_as_ms)
qed

theorem trap_sret_roundtrip_witness:
  "\<exists>s2. sret (enter (trap_to_S (mk_cause 8 0) 0 ((user_core ())\<lparr>needTrap := True\<rparr>))) = (True, s2)
     \<and> nextPrivMode s2 = U_MODE \<and> trapProgramCounter s2 = 0x80000000"
proof -
  have "nextPrivMode (trap_to_S (mk_cause 8 0) 0 ((user_core ())\<lparr>needTrap := True\<rparr>)) = S_MODE"
    and "currentPrivMode (user_core ()) \<in> {U_MODE, S_MODE}" and "mst (status (user_core ())) ms_tsr = 0"
    and f: "currentPrivMode (user_core ()) = U_MODE" "currentProgramCounter (user_core ()) = 0x80000000"
    by (simp_all add: trap_to_S_def user_core_def zero_core_def get_f_def)
  from trap_sret_roundtrip [OF user_trap this(1-3)] show ?thesis unfolding f by blast
qed

text \<open>
  C19. Delegation: for a cause below 31, a trap goes to supervisor mode exactly when the core is below machine mode and
  the delegation register of its kind has the bit of its cause, otherwise to machine mode. It writes cause, value and
  program counter to the registers of that mode, pushes its interrupt enable and the mode of the core, jumps to its vector, and
  changes nothing else: no register of the other mode, no other field of \<open>mstatus\<close>, no register or lookaside buffer
  entry. From user, supervisor or machine mode it never leads to a lower mode.
\<close>

theorem raiseTrap_delegation:
  assumes "raiseTrap cause tval s = Inr s'" and "cau cause ca_cause < 31"
  shows "(if delegated cause s
      then s' = s\<lparr>needTrap := True, nextPrivMode := S_MODE, csrSupervisorCause := cause, csrSupervisorTrapVal := tval,
            csrSExceptionPC := currentProgramCounter s, trapProgramCounter := trap_vector (csrSTrapVecBaseAddr s) cause,
            status := status s'\<rparr>
          \<and> mst (status s') ms_sie = 0 \<and> mst (status s') ms_spie = mst (status s) ms_sie
          \<and> mst (status s') ms_spp = take_bit 1 (PrivMode_val (currentPrivMode s))
          \<and> (\<forall>f. f \<notin> {ms_sie, ms_spie, ms_spp} \<longrightarrow> mst (status s') f = mst (status s) f)
      else s' = s\<lparr>needTrap := True, nextPrivMode := M_MODE, csrMachineCause := cause, csrMachineTrapVal := tval,
            csrMExceptionPC := currentProgramCounter s, trapProgramCounter := trap_vector (csrMTrapVecBaseAddr s) cause,
            status := status s'\<rparr>
          \<and> mst (status s') ms_mie = 0 \<and> mst (status s') ms_mpie = mst (status s) ms_mie
          \<and> mst (status s') ms_mpp = PrivMode_val (currentPrivMode s)
          \<and> (\<forall>f. f \<notin> {ms_mie, ms_mpie, ms_mpp} \<longrightarrow> mst (status s') f = mst (status s) f))
     \<and> (currentPrivMode s \<noteq> H_MODE \<longrightarrow> currentPrivMode s \<le> nextPrivMode s')"
proof (rule raiseTrap_cases[OF assms(1)])
  fix to_S assume "trap_dest_S cause s = Inr to_S"
    and s': "s' = (if to_S then trap_to_S cause tval else trap_to_M cause tval) (s\<lparr>needTrap := True\<rparr>)"
  then have d: "to_S = delegated cause s" using trap_dest_S_delegated[OF assms(2), of s] by simp
  have le: "p \<le> M_MODE" "p \<noteq> H_MODE \<Longrightarrow> p \<noteq> M_MODE \<Longrightarrow> p \<le> S_MODE" for p
    by (cases p; simp add: less_eq_PrivMode_e_def)+
  show ?thesis
  proof (cases "delegated cause s")
    case True
    then have "currentPrivMode s \<noteq> M_MODE" by (simp add: delegated_def)
    with True s' d le(2) show ?thesis by (simp add: trap_to_S_def ss_as_ms msf.get_put one_bit[of ms_sie "status s", simplified])
  next
    case False
    have v: "take_bit 2 (PrivMode_val p) = PrivMode_val p" for p by (cases p) simp_all
    from False s' d le(1) show ?thesis by (simp add: trap_to_M_def msf.get_put v one_bit[of ms_mie "status s", simplified])
  qed
qed

theorem raiseTrap_delegation_witness:
  "\<exists>s'. raiseTrap (mk_cause 8 0) 0 (user_core ()) = Inr s' \<and> csrSupervisorCause s' = mk_cause 8 0
     \<and> trapProgramCounter s' = 0x200 \<and> nextPrivMode s' = S_MODE \<and> mst (status s') ms_mie = 0"
proof -
  obtain s' where s': "raiseTrap (mk_cause 8 0) 0 (user_core ()) = Inr s'" using user_trap by blast
  have "delegated (mk_cause 8 0) (user_core ())"
    by (simp add: delegated_def user_core_def zero_core_def bit_numeral_rec)
  moreover have v: "trap_vector (csrSTrapVecBaseAddr (user_core ())) (mk_cause 8 0) = 0x200"
    by (simp add: trap_vector_def user_core_def zero_core_def get_f_def bf_get_def)
  ultimately have r: "s' = (user_core ())\<lparr>needTrap := True, nextPrivMode := S_MODE, csrSupervisorCause := mk_cause 8 0, csrSupervisorTrapVal := 0,
        csrSExceptionPC := currentProgramCounter (user_core ()), trapProgramCounter := 0x200, status := status s'\<rparr>"
    and m: "mst (status s') ms_mie = mst (status (user_core ())) ms_mie"
    using raiseTrap_delegation [OF s'] by auto
  have "csrSupervisorCause s' = mk_cause 8 0" "trapProgramCounter s' = 0x200" "nextPrivMode s' = S_MODE"
    by (subst r, simp)+
  then show ?thesis using s' m by (simp add: user_core_def zero_core_def get_f_def)
qed

lemma int_cause: "i \<noteq> int_no_int \<Longrightarrow> cau (mk_cause (of_nat (IntType_val i)) 1) ca_cause = of_nat (IntType_val i)
    \<and> IntType_val i < 12 \<and> IntType_val i \<in> {1, 3, 5, 7, 9, 11}"
  by (cases i) simp_all

lemma raise_int_returns:
  assumes "i \<noteq> int_no_int" and "\<not> needTrap s"
  shows "\<exists>s'. raise_int i s = Inr s'"
proof -
  let ?c = "mk_cause (of_nat (IntType_val i)) 1"
  have c: "cau ?c ca_cause < 31" "cau ?c ca_cause \<noteq> exec_val exec_ok" "cau ?c ca_cause \<noteq> exec_val exec_instr_pgfault"
    using assms(1) by (cases i; simp)+
  show ?thesis
    unfolding raise_int_def raiseTrap_def trap_dest_S_delegated[OF c(1)]
    using c(2,3) assms(2) by (simp add: Let_def)
qed

lemma bit_push_1: "bit (push_bit n (1 :: u64)) k \<longleftrightarrow> k = n \<and> k < 64"
  by (auto simp: bit_exp_iff)

lemma bit_M_MODE_INT_MASK: "bit M_MODE_INT_MASK k \<longleftrightarrow> k \<in> {1, 3, 5, 7, 9, 11}"
proof -
  have "k \<in> {1, 3, 5, 7, 9, 11} \<Longrightarrow> k < 64" by auto
  then show ?thesis
    by (simp only: mask_defs bit_or_iff bit_push_1 IntType_val.simps insert_iff empty_iff) blast
qed

lemma no_int_bits:
  assumes "b AND NOT M_MODE_INT_MASK = 0" and "b \<noteq> 0"
  shows "bits_to_int_type b \<noteq> int_no_int"
proof
  assume n: "bits_to_int_type b = int_no_int"
  have "b = 0"
  proof (rule bit_word_eqI)
    fix k :: nat assume k: "k < LENGTH(64)"
    have "bit (b AND NOT M_MODE_INT_MASK) k = bit (0 :: u64) k" using assms(1) by simp
    moreover have "\<not> bit b (IntType_val i)" if "i \<noteq> int_no_int" for i
      using n that by (cases i) (auto simp: bits_to_int_type_def bit_iff_and_push_bit_not_eq_0 int_bit_def split: if_splits)
    from this[of int_m_ext] this[of int_m_sw] this[of int_m_timer] this[of int_s_ext] this[of int_s_sw] this[of int_s_timer]
    have "\<not> bit b 11" "\<not> bit b 3" "\<not> bit b 7" "\<not> bit b 9" "\<not> bit b 1" "\<not> bit b 5" by simp_all
    ultimately show "bit b k = bit (0 :: u64) k"
      using k by (auto simp: bit_and_iff bit_not_iff bit_M_MODE_INT_MASK)
  qed
  with assms(2) show False by simp
qed

lemma update_pending_simps [simp]:
  "csrIntEnable (update_pending w s) = csrIntEnable s" "needTrap (update_pending w s) = False"
  "currentPrivMode (update_pending w s) = nextPrivMode s" "csrMIntDelegation (update_pending w s) = csrMIntDelegation s"
  "status (update_pending w s) = status s" "nextPrivMode (update_pending w s) = nextPrivMode s"
  by (simp_all add: update_pending_def)

lemma preExec_total:
  assumes "csrIntEnable s AND NOT M_MODE_INT_MASK = 0"
  shows "\<exists>s'. preExec w s = Inr s' \<and> currentPrivMode s' = nextPrivMode s
     \<and> (\<not> needTrap s' \<longrightarrow> s' = update_pending w s)"
proof -
  let ?s = "update_pending w s"
  let ?b = "csrIntPending ?s AND csrIntEnable s"
  have m: "(?b AND x) AND NOT M_MODE_INT_MASK = 0" for x
  proof -
    have "(?b AND x) AND NOT M_MODE_INT_MASK = (csrIntEnable s AND NOT M_MODE_INT_MASK) AND (csrIntPending ?s AND x)"
      by (simp only: ac_simps)
    then show ?thesis using assms by simp
  qed
  have r: "\<exists>s'. raise_int i ?s = Inr s' \<and> currentPrivMode s' = nextPrivMode s \<and> needTrap s'" if "i \<noteq> int_no_int" for i
    using raise_int_returns[OF that, of ?s] raiseTrap_frame(1,7) unfolding raise_int_def by fastforce
  show ?thesis
  proof (cases "bits_to_int_type ?b = int_no_int")
    case True
    then show ?thesis by (simp add: preExec_def Let_def)
  next
    case False
    note r1 = r[OF False]
    have r2: "\<exists>s'. raise_int (bits_to_int_type (?b AND NOT (csrMIntDelegation s))) ?s = Inr s' \<and> currentPrivMode s' = nextPrivMode s \<and> needTrap s'"
      if "?b AND NOT (csrMIntDelegation s) \<noteq> 0"
      by (rule r[OF no_int_bits[OF m that]])
    show ?thesis
      using False r1 r2 by (auto simp: preExec_def Let_def)
  qed
qed

text \<open>
  C30. Taking interrupts never aborts: when only the six existing interrupts can be enabled, \<open>preExec\<close>
  returns for any state of the lines, in the mode that the last instruction chose, and without a trap it
  only counts the cycle and samples the lines.
\<close>

theorem preExec_returns:
  assumes "csrIntEnable s AND NOT M_MODE_INT_MASK = 0"
  shows "\<exists>s'. preExec w s = Inr s' \<and> currentPrivMode s' = nextPrivMode s
     \<and> (\<not> needTrap s' \<longrightarrow> s' = update_pending w s)"
  using assms by (rule preExec_total)

theorem preExec_returns_witness:
  "\<exists>s'. preExec (\<lambda>_. True) (zero_core ()) = Inr s' \<and> currentPrivMode s' = M_MODE"
proof -
  have "csrIntEnable (zero_core ()) AND NOT M_MODE_INT_MASK = 0" "nextPrivMode (zero_core ()) = M_MODE"
    by (simp_all add: zero_core_def)
  then show ?thesis using preExec_returns [of "zero_core ()" "\<lambda>_. True"] by auto
qed

text \<open>
  C31. A masked supervisor interrupt hides machine interrupts: in supervisor mode with \<open>SIE\<close> clear, one pending
  and enabled delegated interrupt keeps \<open>preExec\<close> from taking any trap, also when an interrupt that is
  not delegated, which the architecture always takes in this mode, is pending and enabled.
\<close>

theorem preExec_starves_machine_interrupts:
  assumes "nextPrivMode s = S_MODE" and "mst (status s) ms_sie = 0"
    and "csrIntPending (update_pending w s) AND csrIntEnable s AND csrMIntDelegation s \<noteq> 0"
  shows "preExec w s = Inr (update_pending w s)"
proof -
  have "\<not> S_MODE < S_MODE" "S_MODE \<noteq> M_MODE" by simp_all
  then show ?thesis using assms by (simp add: preExec_def Let_def ac_simps)
qed

text \<open>A core in supervisor mode whose machine timer and supervisor software interrupts are enabled, the latter delegated.\<close>

definition masked_core :: "unit rv64core" where
  "masked_core = (zero_core ())\<lparr>nextPrivMode := S_MODE, csrIntEnable := 0x82, csrMIntDelegation := 2, csrIntPending := 2\<rparr>"

theorem preExec_starves_machine_interrupts_witness:
  "preExec ((\<lambda>_. False)(Mtip 0 := True)) masked_core = Inr (update_pending ((\<lambda>_. False)(Mtip 0 := True)) masked_core)
   \<and> bit (csrIntPending (update_pending ((\<lambda>_. False)(Mtip 0 := True)) masked_core)) 7"
proof -
  have "csrIntPending (update_pending ((\<lambda>_. False)(Mtip 0 := True)) masked_core) = 0x82"
    by (simp add: update_pending_def masked_core_def zero_core_def put_f_def bf_set_def)
  then show ?thesis
    by (intro conjI preExec_starves_machine_interrupts)
       (simp_all add: masked_core_def zero_core_def get_f_def bit_numeral_rec)
qed

end
