(* ===== verification/Exec.thy ===== *)
theory Exec
  imports Privilege Amo Alu
begin

text \<open>
  The 32-bit instructions of \<open>RV64Core::step\<close> (\<open>src/rv64_exec.cpp\<close>), one definition per case of the switch on
  the opcode. Each returns the two local flags \<open>is_new_pc_set\<close> and \<open>is_instr_illegal\<close> with the state;
  \<open>next_inst\<close>, \<open>jumped\<close> and \<open>illegal\<close> name the three ways a case ends.
\<close>

type_synonym 'b exec_res = "(bool \<times> bool \<times> 'b rv64core) res"

definition next_inst :: "'b rv64core \<Rightarrow> 'b exec_res" where
  "next_inst s = Inr (False, False, s)"

definition jumped :: "'b rv64core \<Rightarrow> 'b exec_res" where
  "jumped s = Inr (True, False, s)"

definition illegal :: "'b rv64core \<Rightarrow> 'b exec_res" where
  "illegal s = Inr (False, True, s)"

lemmas exec_ends = next_inst_def jumped_def illegal_def

text \<open>\<open>setGPR(rd, v)\<close> at the end of a case, and a result of the arithmetic unit written to \<open>rd\<close>.\<close>

definition put_reg :: "reg \<Rightarrow> u64 \<Rightarrow> 'b rv64core \<Rightarrow> 'b exec_res" where
  "put_reg rd v s = bnd (setGPR s (ucast rd) v) next_inst"

definition put_alu :: "reg \<Rightarrow> u64 \<Rightarrow> u64 \<Rightarrow> ALU_Op_enum \<Rightarrow> bool \<Rightarrow> 'b rv64core \<Rightarrow> 'b exec_res" where
  "put_alu rd a b op op_32 s = bnd (alu_exec a b op op_32) (\<lambda>result. put_reg rd result s)"

section \<open>Upper immediates and jumps\<close>

definition exec_LUI :: "u32 \<Rightarrow> 'b rv64core \<Rightarrow> 'b exec_res" where
  "exec_LUI inst s = put_reg (rg inst u_rd) (push_bit 12 (scast (fld inst u_imm_31_12))) s"

definition exec_AUIPC :: "u32 \<Rightarrow> 'b rv64core \<Rightarrow> 'b exec_res" where
  "exec_AUIPC inst s =
     put_reg (rg inst u_rd) (push_bit 12 (scast (fld inst u_imm_31_12)) + currentProgramCounter s) s"

text \<open>The common end of the two jumps: a target that is not a multiple of \<open>PC_ALIGN\<close> traps.\<close>

definition jump_link :: "reg \<Rightarrow> u64 \<Rightarrow> u64 \<Rightarrow> 'b rv64core \<Rightarrow> 'b exec_res" where
  "jump_link rd npc link s =
     (if npc mod PC_ALIGN \<noteq> 0 then bnd (raise_exc exec_instr_misalign npc s) next_inst
      else bnd (setGPR s (ucast rd) link) (\<lambda>s. jumped (s\<lparr>currentProgramCounter := npc\<rparr>)))"

definition jal_offset :: "u32 \<Rightarrow> u32" where
  "jal_offset inst =
     push_bit 20 (fld inst j_imm_20) OR push_bit 12 (fld inst j_imm_19_12) OR push_bit 11 (fld inst j_imm_11)
       OR push_bit 1 (fld inst j_imm_10_1)"

definition exec_JAL :: "u32 \<Rightarrow> 'b rv64core \<Rightarrow> 'b exec_res" where
  "exec_JAL inst s =
     (let npc = currentProgramCounter s + scast (jal_offset inst) in
      jump_link (rg inst j_rd) npc (currentProgramCounter s + 4) s)"

definition exec_JALR :: "u32 \<Rightarrow> 'b rv64core \<Rightarrow> 'b exec_res" where
  "exec_JALR inst s =
     (let npc = GPR s (rg inst i_rs1) + scast (fld inst i_imm12 AND NOT 1);
          tmp = (scast (fld inst i_imm12) :: u64);
          tmp = (if tmp AND 1 \<noteq> 0 then tmp XOR 1 else tmp) in
      guard (npc = GPR s (rg inst i_rs1) + tmp)
        (jump_link (rg inst j_rd) npc (currentProgramCounter s + 4) s))"

section \<open>Branches\<close>

definition branch_offset :: "u32 \<Rightarrow> u32" where
  "branch_offset inst =
     push_bit 12 (fld inst b_imm_12) OR push_bit 11 (fld inst b_imm_11) OR push_bit 5 (fld inst b_imm_10_5)
       OR push_bit 1 (fld inst b_imm_4_1)"

definition branch_taken :: "Funct3_Branch_enum \<Rightarrow> u64 \<Rightarrow> u64 \<Rightarrow> bool" where
  "branch_taken f a b =
     (case f of FUNCT3_BEQ \<Rightarrow> a = b | FUNCT3_BNE \<Rightarrow> a \<noteq> b | FUNCT3_BLT \<Rightarrow> a <s b
        | FUNCT3_BGE \<Rightarrow> b \<le>s a | FUNCT3_BLTU \<Rightarrow> a < b | FUNCT3_BGEU \<Rightarrow> b \<le> a)"

definition exec_BRANCH :: "u32 \<Rightarrow> 'b rv64core \<Rightarrow> 'b exec_res" where
  "exec_BRANCH inst s =
     (let npc = currentProgramCounter s + scast (branch_offset inst) in
      case Funct3_Branch_enum_of (fld inst b_funct3) of
        None \<Rightarrow> illegal s
      | Some f \<Rightarrow>
          if branch_taken f (GPR s (rg inst b_rs1)) (GPR s (rg inst b_rs2)) then
            if npc mod PC_ALIGN \<noteq> 0 then bnd (raise_exc exec_instr_misalign npc s) jumped
            else jumped (s\<lparr>currentProgramCounter := npc\<rparr>)
          else next_inst s)"

section \<open>Loads and stores\<close>

text \<open>
  A load reads into a local variable of its width, which is not initialised, and widens it into the
  register by \<open>widen\<close>.
\<close>

definition load_reg :: "'b slave_atomic_io \<Rightarrow> u64 \<Rightarrow> u64 \<Rightarrow> (u8 list \<Rightarrow> u64) \<Rightarrow> reg \<Rightarrow> 'b rv64core \<Rightarrow> 'b exec_res" where
  "load_reg vt mem_addr len widen rd s =
     bnd (memRead vt mem_addr len s) (\<lambda>(ok, buf, s).
       if ok then case buf of None \<Rightarrow> Inl Undefined | Some bs \<Rightarrow> put_reg rd (widen bs) s
       else next_inst s)"

definition widen_s8 :: "u8 list \<Rightarrow> u64" where "widen_s8 bs = scast (word_of_bytes bs :: u8)"
definition widen_s16 :: "u8 list \<Rightarrow> u64" where "widen_s16 bs = scast (word_of_bytes bs :: u16)"
definition widen_s32 :: "u8 list \<Rightarrow> u64" where "widen_s32 bs = scast (word_of_bytes bs :: u32)"
definition widen_u8 :: "u8 list \<Rightarrow> u64" where "widen_u8 bs = ucast (word_of_bytes bs :: u8)"
definition widen_u16 :: "u8 list \<Rightarrow> u64" where "widen_u16 bs = ucast (word_of_bytes bs :: u16)"
definition widen_u32 :: "u8 list \<Rightarrow> u64" where "widen_u32 bs = ucast (word_of_bytes bs :: u32)"

lemmas widen_defs = widen_s8_def widen_s16_def widen_s32_def widen_u8_def widen_u16_def widen_u32_def

definition exec_LOAD :: "'b slave_atomic_io \<Rightarrow> u32 \<Rightarrow> 'b rv64core \<Rightarrow> 'b exec_res" where
  "exec_LOAD vt inst s =
     (let mem_addr = GPR s (rg inst i_rs1) + scast (fld inst i_imm12); rd = rg inst i_rd in
      case Funct3_Load_enum_of (fld inst i_funct3) of
        Some FUNCT3_LB \<Rightarrow> load_reg vt mem_addr 1 widen_s8 rd s
      | Some FUNCT3_LH \<Rightarrow> load_reg vt mem_addr 2 widen_s16 rd s
      | Some FUNCT3_LW \<Rightarrow> load_reg vt mem_addr 4 widen_s32 rd s
      | Some FUNCT3_LD \<Rightarrow> load_reg vt mem_addr 8 word_of_bytes rd s
      | Some FUNCT3_LBU \<Rightarrow> load_reg vt mem_addr 1 widen_u8 rd s
      | Some FUNCT3_LHU \<Rightarrow> load_reg vt mem_addr 2 widen_u16 rd s
      | Some FUNCT3_LWU \<Rightarrow> load_reg vt mem_addr 4 widen_u32 rd s
      | None \<Rightarrow> illegal s)"

text \<open>The stores pass a pointer to the register: the low bytes of its value.\<close>

definition store_reg :: "'b slave_atomic_io \<Rightarrow> u64 \<Rightarrow> nat \<Rightarrow> reg \<Rightarrow> 'b rv64core \<Rightarrow> 'b exec_res" where
  "store_reg vt mem_addr len rs2 s =
     bnd (memWrite vt mem_addr (bytes_of len (GPR s rs2)) s) (\<lambda>(_, s). next_inst s)"

definition store_offset :: "u32 \<Rightarrow> u32" where
  "store_offset inst = push_bit 5 (fld inst s_imm_11_5) OR fld inst s_imm_4_0"

definition exec_STORE :: "'b slave_atomic_io \<Rightarrow> u32 \<Rightarrow> 'b rv64core \<Rightarrow> 'b exec_res" where
  "exec_STORE vt inst s =
     (let mem_addr = GPR s (rg inst s_rs1) + scast (store_offset inst); rs2 = rg inst s_rs2 in
      case Funct3_Store_enum_of (fld inst i_funct3) of
        Some FUNCT3_SB \<Rightarrow> store_reg vt mem_addr 1 rs2 s
      | Some FUNCT3_SH \<Rightarrow> store_reg vt mem_addr 2 rs2 s
      | Some FUNCT3_SW \<Rightarrow> store_reg vt mem_addr 4 rs2 s
      | Some FUNCT3_SD \<Rightarrow> store_reg vt mem_addr 8 rs2 s
      | None \<Rightarrow> illegal s)"

section \<open>Arithmetic\<close>

text \<open>
  The immediate operations. The result is the immediate operand, the operation and whether the
  encoding is illegal, as the code has them in \<open>imm\<close>, \<open>op\<close> and \<open>is_instr_illegal\<close>.
\<close>

definition opimm_decode :: "u32 \<Rightarrow> (u64 \<times> ALU_Op_enum \<times> bool) res" where
  "opimm_decode inst =
     (let imm = scast (fld inst i_imm12) :: u64; fun6 = Funct6_Op_enum_of (drop_bit 1 (fld inst r_funct7)) in
      case Funct3_Op_enum_of (fld inst i_funct3) of
        Some FUNCT3_ADD_SUB \<Rightarrow> Inr (imm, ALU_ADD, False)
      | Some FUNCT3_SLT \<Rightarrow> Inr (imm, ALU_SLT, False)
      | Some FUNCT3_SLTU \<Rightarrow> Inr (imm, ALU_SLTU, False)
      | Some FUNCT3_XOR \<Rightarrow> Inr (imm, ALU_XOR, False)
      | Some FUNCT3_OR \<Rightarrow> Inr (imm, ALU_OR, False)
      | Some FUNCT3_AND \<Rightarrow> Inr (imm, ALU_AND, False)
      | Some FUNCT3_SLL \<Rightarrow> Inr (imm, ALU_SLL, 64 \<le>s imm)
      | Some FUNCT3_SRL_SRA \<Rightarrow>
          Inr (imm AND (push_bit 6 1 - 1), if fun6 = Some FUNCT6_SRA then ALU_SRA else ALU_SRL,
               fun6 \<noteq> Some FUNCT6_NORMAL \<and> fun6 \<noteq> Some FUNCT6_SRA)
      | None \<Rightarrow> Inl AssertFail)"

definition exec_OPIMM :: "u32 \<Rightarrow> 'b rv64core \<Rightarrow> 'b exec_res" where
  "exec_OPIMM inst s =
     bnd (opimm_decode inst) (\<lambda>(imm, op, ill).
       if ill then illegal s else put_alu (rg inst r_rd) (GPR s (rg inst r_rs1)) imm op False s)"

definition opimm32_decode :: "u32 \<Rightarrow> u64 \<times> ALU_Op_enum \<times> bool" where
  "opimm32_decode inst =
     (let imm = scast (fld inst i_imm12) :: u64; fun7 = Funct7_Op_enum_of (fld inst r_funct7) in
      case Funct3_Op_enum_of (fld inst i_funct3) of
        Some FUNCT3_ADD_SUB \<Rightarrow> (imm, ALU_ADD, False)
      | Some FUNCT3_SLL \<Rightarrow> (imm, ALU_SLL, 64 \<le>s imm \<or> fun7 \<noteq> Some FUNCT7_NORMAL)
      | Some FUNCT3_SRL_SRA \<Rightarrow>
          (imm AND (push_bit 6 1 - 1), if fun7 = Some FUNCT7_SUB_SRA then ALU_SRA else ALU_SRL,
           fun7 \<noteq> Some FUNCT7_NORMAL \<and> fun7 \<noteq> Some FUNCT7_SUB_SRA)
      | _ \<Rightarrow> (imm, ALU_NOP, True))"

definition exec_OPIMM32 :: "u32 \<Rightarrow> 'b rv64core \<Rightarrow> 'b exec_res" where
  "exec_OPIMM32 inst s =
     (case opimm32_decode inst of (imm, op, ill) \<Rightarrow>
        if ill then illegal s else put_alu (rg inst r_rd) (GPR s (rg inst r_rs1)) imm op True s)"

text \<open>The register operations: \<open>op\<close>, or \<open>None\<close> when \<open>is_instr_illegal\<close> is set.\<close>

definition op_decode :: "u32 \<Rightarrow> ALU_Op_enum option res" where
  "op_decode inst =
     (case Funct7_Op_enum_of (fld inst r_funct7) of
        Some FUNCT7_NORMAL \<Rightarrow>
          (case Funct3_Op_enum_of (fld inst r_funct3) of
             Some FUNCT3_ADD_SUB \<Rightarrow> Inr (Some ALU_ADD)
           | Some FUNCT3_SLL \<Rightarrow> Inr (Some ALU_SLL)
           | Some FUNCT3_SLT \<Rightarrow> Inr (Some ALU_SLT)
           | Some FUNCT3_SLTU \<Rightarrow> Inr (Some ALU_SLTU)
           | Some FUNCT3_XOR \<Rightarrow> Inr (Some ALU_XOR)
           | Some FUNCT3_SRL_SRA \<Rightarrow> Inr (Some ALU_SRL)
           | Some FUNCT3_OR \<Rightarrow> Inr (Some ALU_OR)
           | Some FUNCT3_AND \<Rightarrow> Inr (Some ALU_AND)
           | None \<Rightarrow> Inl AssertFail)
      | Some FUNCT7_SUB_SRA \<Rightarrow>
          (case Funct3_Op_enum_of (fld inst r_funct3) of
             Some FUNCT3_ADD_SUB \<Rightarrow> Inr (Some ALU_SUB)
           | Some FUNCT3_SRL_SRA \<Rightarrow> Inr (Some ALU_SRA)
           | _ \<Rightarrow> Inr None)
      | Some FUNCT7_MUL \<Rightarrow>
          (case Funct3_M_enum_of (fld inst r_funct3) of
             Some FUNCT3_MUL \<Rightarrow> Inr (Some ALU_MUL)
           | Some FUNCT3_MULH \<Rightarrow> Inr (Some ALU_MULH)
           | Some FUNCT3_MULHSU \<Rightarrow> Inr (Some ALU_MULHSU)
           | Some FUNCT3_MULHU \<Rightarrow> Inr (Some ALU_MULHU)
           | Some FUNCT3_DIV \<Rightarrow> Inr (Some ALU_DIV)
           | Some FUNCT3_DIVU \<Rightarrow> Inr (Some ALU_DIVU)
           | Some FUNCT3_REM \<Rightarrow> Inr (Some ALU_REM)
           | Some FUNCT3_REMU \<Rightarrow> Inr (Some ALU_REMU)
           | None \<Rightarrow> Inl AssertFail)
      | None \<Rightarrow> Inr None)"

definition op32_decode :: "u32 \<Rightarrow> ALU_Op_enum option" where
  "op32_decode inst =
     (case Funct7_Op_enum_of (fld inst r_funct7) of
        Some FUNCT7_NORMAL \<Rightarrow>
          (case Funct3_Op_enum_of (fld inst r_funct3) of
             Some FUNCT3_ADD_SUB \<Rightarrow> Some ALU_ADD
           | Some FUNCT3_SLL \<Rightarrow> Some ALU_SLL
           | Some FUNCT3_SRL_SRA \<Rightarrow> Some ALU_SRL
           | _ \<Rightarrow> None)
      | Some FUNCT7_SUB_SRA \<Rightarrow>
          (case Funct3_Op_enum_of (fld inst r_funct3) of
             Some FUNCT3_ADD_SUB \<Rightarrow> Some ALU_SUB
           | Some FUNCT3_SRL_SRA \<Rightarrow> Some ALU_SRA
           | _ \<Rightarrow> None)
      | Some FUNCT7_MUL \<Rightarrow>
          (case Funct3_M_enum_of (fld inst r_funct3) of
             Some FUNCT3_MUL \<Rightarrow> Some ALU_MUL
           | Some FUNCT3_DIV \<Rightarrow> Some ALU_DIV
           | Some FUNCT3_DIVU \<Rightarrow> Some ALU_DIVU
           | Some FUNCT3_REM \<Rightarrow> Some ALU_REM
           | Some FUNCT3_REMU \<Rightarrow> Some ALU_REMU
           | _ \<Rightarrow> None)
      | None \<Rightarrow> None)"

definition exec_OP :: "u32 \<Rightarrow> 'b rv64core \<Rightarrow> 'b exec_res" where
  "exec_OP inst s =
     bnd (op_decode inst) (\<lambda>op.
       case op of None \<Rightarrow> illegal s
       | Some op \<Rightarrow> put_alu (rg inst r_rd) (GPR s (rg inst r_rs1)) (GPR s (rg inst r_rs2)) op False s)"

definition exec_OP32 :: "u32 \<Rightarrow> 'b rv64core \<Rightarrow> 'b exec_res" where
  "exec_OP32 inst s =
     (case op32_decode inst of None \<Rightarrow> illegal s
      | Some op \<Rightarrow> put_alu (rg inst r_rd) (GPR s (rg inst r_rs1)) (GPR s (rg inst r_rs2)) op True s)"

section \<open>Atomics\<close>

text \<open>
  The results of the three calls: \<open>exec_ok\<close> writes \<open>rd\<close>, anything else traps with the address. A result
  that the call reports but did not write is uninitialised.
\<close>

definition amo_result :: "RV64_ExecFeedbackCode_e \<Rightarrow> u64 option \<Rightarrow> u64 \<Rightarrow> reg \<Rightarrow> 'b rv64core \<Rightarrow> 'b exec_res" where
  "amo_result exc result addr rd s =
     (if exc = exec_ok then case result of None \<Rightarrow> Inl Undefined | Some r \<Rightarrow> put_reg rd r s
      else bnd (raise_exc exc addr s) next_inst)"

definition exec_AMO :: "'b slave_atomic_io \<Rightarrow> u32 \<Rightarrow> 'b rv64core \<Rightarrow> 'b exec_res" where
  "exec_AMO vt inst s =
     (let funct5 = drop_bit 2 (fld inst r_funct7); funct3 = fld inst r_funct3;
          len = push_bit (unat funct3) 1 :: u64; addr = GPR s (rg inst r_rs1); rd = rg inst r_rd in
      if funct3 \<noteq> 2 \<and> funct3 \<noteq> 3 then illegal s
      else case AMO_Funct_enum_of funct5 of
        None \<Rightarrow> illegal s
      | Some AMOLR \<Rightarrow>
          if fld inst r_rs2 \<noteq> 0 then illegal s
          else bnd (vaddrLoadReserved vt addr len s) (\<lambda>(exc, buf, s).
            amo_result exc (map_option (amo_loaded len) buf) addr rd s)
      | Some AMOSC \<Rightarrow>
          bnd (vaddrStoreConditional vt addr (bytes_of (unat len) (GPR s (rg inst r_rs2))) s) (\<lambda>(exc, result, s).
            amo_result exc (map_option bool_word result) addr rd s)
      | Some op \<Rightarrow>
          bnd (vaddrAtomicMemOperation vt addr len op (GPR s (rg inst r_rs2)) s) (\<lambda>(exc, result, s).
            amo_result exc result addr rd s))"

section \<open>System instructions\<close>

definition exec_PRIV :: "u32 \<Rightarrow> 'b rv64core \<Rightarrow> 'b exec_res" where
  "exec_PRIV inst s =
     (let imm = fld inst i_imm12; funct7 = drop_bit 5 (imm AND (push_bit 12 1 - 1)); rs2 = imm AND (push_bit 5 1 - 1);
          plain = (fld inst r_rs1 = 0 \<and> fld inst r_rd = 0);
          ended = (\<lambda>(ok, s). Inr (False, \<not> ok, s)) in
      case Funct7_Priv_enum_of funct7 of
        Some FUNCT7_ECALL_EBREAK \<Rightarrow>
          if plain then
            if rs2 = 0 then bnd (ecall s) next_inst
            else if rs2 = 1 then bnd (ebreak s) next_inst
            else illegal s
          else illegal s
      | Some FUNCT7_SRET_WFI \<Rightarrow>
          if plain then
            if rs2 = 2 then ended (sret s)
            else if rs2 = 5 then next_inst s
            else illegal s
          else next_inst s
      | Some FUNCT7_MRET \<Rightarrow>
          if rs2 = 2 \<and> plain then ended (mret s) else illegal s
      | Some FUNCT7_SFENCE_VMA \<Rightarrow>
          ended (sfence_vma (GPR s (rg inst r_rs1)) (GPR s (rg inst r_rs2) AND 0xffff) s)
      | None \<Rightarrow> illegal s)"

text \<open>
  The six CSR instructions have one shape: check the permission, read, write \<open>new\<close> of the value read when
  \<open>wr\<close> holds, and put the value read into \<open>rd\<close> when it is not \<open>x0\<close>. Each step is skipped once the
  instruction is known to be illegal. \<open>perm\<close> is the second argument of the permission check.
\<close>

definition csr_instr :: "u32 \<Rightarrow> bool \<Rightarrow> bool \<Rightarrow> (u64 \<Rightarrow> u64) \<Rightarrow> 'b rv64core \<Rightarrow> 'b exec_res" where
  "csr_instr inst perm wr new s =
     (let csr_index = fld inst i_imm12 AND (push_bit 12 1 - 1) in
      if \<not> csr_op_permission_check s (ucast csr_index) perm then illegal s
      else case csrRead s csr_index of None \<Rightarrow> illegal s
      | Some csr_result \<Rightarrow>
          bnd (if wr then csrWrite s csr_index (new csr_result) else Inr (True, s)) (\<lambda>(ok, s).
            if \<not> ok then illegal s
            else if rg inst i_rd \<noteq> 0 then put_reg (rg inst i_rd) csr_result s else next_inst s))"

definition exec_CSRRW :: "u32 \<Rightarrow> 'b rv64core \<Rightarrow> 'b exec_res" where
  "exec_CSRRW inst s = csr_instr inst True True (\<lambda>_. GPR s (rg inst i_rs1)) s"

definition exec_CSRRS :: "u32 \<Rightarrow> 'b rv64core \<Rightarrow> 'b exec_res" where
  "exec_CSRRS inst s =
     csr_instr inst (rg inst i_rs1 \<noteq> 0) (rg inst i_rs1 \<noteq> 0) (\<lambda>t. t OR GPR s (rg inst i_rs1)) s"

definition exec_CSRRC :: "u32 \<Rightarrow> 'b rv64core \<Rightarrow> 'b exec_res" where
  "exec_CSRRC inst s =
     csr_instr inst (rg inst i_rs1 \<noteq> 0) (rg inst i_rs1 \<noteq> 0) (\<lambda>t. t AND NOT (GPR s (rg inst i_rs1))) s"

definition exec_CSRRWI :: "u32 \<Rightarrow> 'b rv64core \<Rightarrow> 'b exec_res" where
  "exec_CSRRWI inst s = csr_instr inst True True (\<lambda>_. ucast (fld inst i_rs1)) s"

definition exec_CSRRSI :: "u32 \<Rightarrow> 'b rv64core \<Rightarrow> 'b exec_res" where
  "exec_CSRRSI inst s =
     csr_instr inst (rg inst i_rs1 \<noteq> 0) (rg inst i_rs1 \<noteq> 0) (\<lambda>t. t OR ucast (fld inst i_rs1)) s"

text \<open>\<open>~rs1\<close> is an \<open>int\<close>, sign extended to the width of the register.\<close>

definition exec_CSRRCI :: "u32 \<Rightarrow> 'b rv64core \<Rightarrow> 'b exec_res" where
  "exec_CSRRCI inst s =
     csr_instr inst (rg inst i_rs1 \<noteq> 0) (rg inst i_rs1 \<noteq> 0) (\<lambda>t. t AND scast (NOT (fld inst i_rs1))) s"

definition exec_SYSTEM :: "u32 \<Rightarrow> 'b rv64core \<Rightarrow> 'b exec_res" where
  "exec_SYSTEM inst s =
     (case Funct3_System_enum_of (fld inst i_funct3) of
        Some FUNCT3_PRIV \<Rightarrow> exec_PRIV inst s
      | Some FUNCT3_CSRRW \<Rightarrow> exec_CSRRW inst s
      | Some FUNCT3_CSRRS \<Rightarrow> exec_CSRRS inst s
      | Some FUNCT3_CSRRC \<Rightarrow> exec_CSRRC inst s
      | Some FUNCT3_CSRRWI \<Rightarrow> exec_CSRRWI inst s
      | Some FUNCT3_CSRRSI \<Rightarrow> exec_CSRRSI inst s
      | Some FUNCT3_CSRRCI \<Rightarrow> exec_CSRRCI inst s
      | _ \<Rightarrow> illegal s)"

section \<open>The switch on the opcode\<close>

definition exec_full :: "'b slave_atomic_io \<Rightarrow> u32 \<Rightarrow> 'b rv64core \<Rightarrow> 'b exec_res" where
  "exec_full vt inst s =
     (case RV64I_OpCode_enum_of (fld inst r_opcode) of
        Some OPCODE_LUI \<Rightarrow> exec_LUI inst s
      | Some OPCODE_AUIPC \<Rightarrow> exec_AUIPC inst s
      | Some OPCODE_JAL \<Rightarrow> exec_JAL inst s
      | Some OPCODE_JALR \<Rightarrow> exec_JALR inst s
      | Some OPCODE_BRANCH \<Rightarrow> exec_BRANCH inst s
      | Some OPCODE_LOAD \<Rightarrow> exec_LOAD vt inst s
      | Some OPCODE_STORE \<Rightarrow> exec_STORE vt inst s
      | Some OPCODE_OPIMM \<Rightarrow> exec_OPIMM inst s
      | Some OPCODE_OPIMM32 \<Rightarrow> exec_OPIMM32 inst s
      | Some OPCODE_OP \<Rightarrow> exec_OP inst s
      | Some OPCODE_OP32 \<Rightarrow> exec_OP32 inst s
      | Some OPCODE_AMO \<Rightarrow> exec_AMO vt inst s
      | Some OPCODE_FENCE \<Rightarrow> next_inst s
      | Some OPCODE_SYSTEM \<Rightarrow> exec_SYSTEM inst s
      | None \<Rightarrow> illegal s)"

end
