(* ===== verification/ExecC.thy ===== *)
theory ExecC
  imports Exec
begin

text \<open>
  The 16-bit instructions of \<open>RV64Core::step\<close>, one definition per case of the switch on \<open>rvc_opcode\<close>.
  \<open>cr\<close> and \<open>cr8\<close> are the register numbers of five and of three bits, \<open>cc\<close> a piece of an immediate, widened
  to 64 bits as an \<open>unsigned\<close> is; \<open>sext_from\<close> is the \<open>if (imm >> n) imm |= ...\<close> that extends the sign.
\<close>

definition cr :: "u32 \<Rightarrow> nat \<Rightarrow> nat \<Rightarrow> reg" where
  "cr inst r l = ucast (binary_concat inst r l 0)"

definition cr8 :: "u32 \<Rightarrow> nat \<Rightarrow> nat \<Rightarrow> reg" where
  "cr8 inst r l = 8 + ucast (binary_concat inst r l 0)"

definition cc :: "u32 \<Rightarrow> nat \<Rightarrow> nat \<Rightarrow> nat \<Rightarrow> u64" where
  "cc inst r l shift = ucast (binary_concat inst r l shift)"

definition sext_from :: "nat \<Rightarrow> u64 \<Rightarrow> u64" where
  "sext_from n imm = (if drop_bit n imm \<noteq> 0 then imm OR push_bit (n + 1) (- 1) else imm)"

section \<open>Immediates\<close>

definition c_imm6 :: "u32 \<Rightarrow> u64" where
  "c_imm6 inst = cc inst 12 12 5 OR cc inst 6 2 0"

definition c_addi4spn_imm :: "u32 \<Rightarrow> u64" where
  "c_addi4spn_imm inst = cc inst 12 11 4 OR cc inst 10 7 6 OR cc inst 6 6 2 OR cc inst 5 5 3"

definition c_word_offset :: "u32 \<Rightarrow> u64" where
  "c_word_offset inst = cc inst 6 6 2 OR cc inst 5 5 6 OR cc inst 12 10 3"

definition c_double_offset :: "u32 \<Rightarrow> u64" where
  "c_double_offset inst = cc inst 6 5 6 OR cc inst 12 10 3"

definition c_addi16sp_imm :: "u32 \<Rightarrow> u64" where
  "c_addi16sp_imm inst =
     sext_from 9 (cc inst 12 12 9 OR cc inst 6 6 4 OR cc inst 5 5 6 OR cc inst 4 3 7 OR cc inst 2 2 5)"

definition c_lui_imm :: "u32 \<Rightarrow> u64" where
  "c_lui_imm inst = sext_from 17 (cc inst 12 12 17 OR cc inst 6 2 12)"

definition c_j_imm :: "u32 \<Rightarrow> u64" where
  "c_j_imm inst =
     sext_from 11 (cc inst 12 12 11 OR cc inst 11 11 4 OR cc inst 10 9 8 OR cc inst 8 8 10 OR
                   cc inst 7 7 6 OR cc inst 6 6 7 OR cc inst 5 3 1 OR cc inst 2 2 5)"

definition c_branch_imm :: "u32 \<Rightarrow> u64" where
  "c_branch_imm inst =
     sext_from 8 (cc inst 12 12 8 OR cc inst 11 10 3 OR cc inst 6 5 6 OR cc inst 4 3 1 OR cc inst 2 2 5)"

definition c_lwsp_imm :: "u32 \<Rightarrow> u64" where
  "c_lwsp_imm inst = cc inst 6 4 2 OR cc inst 3 2 6 OR cc inst 12 12 5"

definition c_ldsp_imm :: "u32 \<Rightarrow> u64" where
  "c_ldsp_imm inst = cc inst 6 5 3 OR cc inst 4 2 6 OR cc inst 12 12 5"

definition c_swsp_imm :: "u32 \<Rightarrow> u64" where
  "c_swsp_imm inst = cc inst 12 9 2 OR cc inst 8 7 6"

definition c_sdsp_imm :: "u32 \<Rightarrow> u64" where
  "c_sdsp_imm inst = cc inst 12 10 3 OR cc inst 9 7 6"

section \<open>Instructions\<close>

definition exec_C_ADDI4SPN :: "u32 \<Rightarrow> 'b rv64core \<Rightarrow> 'b exec_res" where
  "exec_C_ADDI4SPN inst s =
     (let rd = cr8 inst 4 2; imm = c_addi4spn_imm inst; value = GPR s 2 + imm in
      if imm \<noteq> 0 then put_reg rd value s else illegal s)"

definition exec_C_LW :: "'b slave_atomic_io \<Rightarrow> u32 \<Rightarrow> 'b rv64core \<Rightarrow> 'b exec_res" where
  "exec_C_LW vt inst s =
     load_reg vt (GPR s (cr8 inst 9 7) + c_word_offset inst) 4 widen_s32 (cr8 inst 4 2) s"

definition exec_C_LD :: "'b slave_atomic_io \<Rightarrow> u32 \<Rightarrow> 'b rv64core \<Rightarrow> 'b exec_res" where
  "exec_C_LD vt inst s =
     load_reg vt (GPR s (cr8 inst 9 7) + c_double_offset inst) 8 word_of_bytes (cr8 inst 4 2) s"

definition exec_C_SW :: "'b slave_atomic_io \<Rightarrow> u32 \<Rightarrow> 'b rv64core \<Rightarrow> 'b exec_res" where
  "exec_C_SW vt inst s = store_reg vt (GPR s (cr8 inst 9 7) + c_word_offset inst) 4 (cr8 inst 4 2) s"

definition exec_C_SD :: "'b slave_atomic_io \<Rightarrow> u32 \<Rightarrow> 'b rv64core \<Rightarrow> 'b exec_res" where
  "exec_C_SD vt inst s = store_reg vt (GPR s (cr8 inst 9 7) + c_double_offset inst) 8 (cr8 inst 4 2) s"

definition exec_C_ADDI :: "u32 \<Rightarrow> 'b rv64core \<Rightarrow> 'b exec_res" where
  "exec_C_ADDI inst s =
     (let imm = sext_from 5 (c_imm6 inst); rd = cr inst 11 7 in
      if imm \<noteq> 0 then put_alu rd (GPR s rd) imm ALU_ADD False s else next_inst s)"

definition exec_C_ADDIW :: "u32 \<Rightarrow> 'b rv64core \<Rightarrow> 'b exec_res" where
  "exec_C_ADDIW inst s =
     (let imm = sext_from 5 (c_imm6 inst); rd = cr inst 11 7 in put_alu rd (GPR s rd) imm ALU_ADD True s)"

definition exec_C_LI :: "u32 \<Rightarrow> 'b rv64core \<Rightarrow> 'b exec_res" where
  "exec_C_LI inst s = put_reg (cr inst 11 7) (sext_from 5 (c_imm6 inst)) s"

definition exec_C_ADDI16SPN_LUI :: "u32 \<Rightarrow> 'b rv64core \<Rightarrow> 'b exec_res" where
  "exec_C_ADDI16SPN_LUI inst s =
     (let rd = cr inst 11 7 in
      if rd = 2 then
        let imm = c_addi16sp_imm inst; value = GPR s rd + imm in
        if imm \<noteq> 0 then put_reg rd value s else next_inst s
      else
        let imm = c_lui_imm inst in
        if imm \<noteq> 0 then put_reg rd imm s else next_inst s)"

definition exec_C_ALU :: "u32 \<Rightarrow> 'b rv64core \<Rightarrow> 'b exec_res" where
  "exec_C_ALU inst s =
     (let is_srli_srai = (binary_concat inst 11 11 0 = 0); rs1 = cr8 inst 9 7 in
      if is_srli_srai then
        let is_srai = (binary_concat inst 10 10 0 \<noteq> 0); imm = c_imm6 inst in
        if imm \<noteq> 0 then put_alu rs1 (GPR s rs1) imm (if is_srai then ALU_SRA else ALU_SRL) False s
        else next_inst s
      else
        let is_andi = (binary_concat inst 10 10 0 = 0) in
        if is_andi then put_alu rs1 (GPR s rs1) (sext_from 5 (c_imm6 inst)) ALU_AND False s
        else
          let rs2 = cr8 inst 4 2; instr_12 = (binary_concat inst 12 12 0 \<noteq> 0) in
          case RV64C_Funct2_enum_of (binary_concat inst 6 5 0) of
            Some FUNCT2_SUB \<Rightarrow> put_alu rs1 (GPR s rs1) (GPR s rs2) ALU_SUB instr_12 s
          | Some FUNCT2_XOR_ADDW \<Rightarrow>
              put_alu rs1 (GPR s rs1) (GPR s rs2) (if instr_12 then ALU_ADD else ALU_XOR) instr_12 s
          | Some FUNCT2_OR \<Rightarrow>
              if instr_12 then illegal s else put_alu rs1 (GPR s rs1) (GPR s rs2) ALU_OR False s
          | Some FUNCT2_AND \<Rightarrow>
              if instr_12 then illegal s else put_alu rs1 (GPR s rs1) (GPR s rs2) ALU_AND False s
          | None \<Rightarrow> next_inst s)"

definition exec_C_J :: "u32 \<Rightarrow> 'b rv64core \<Rightarrow> 'b exec_res" where
  "exec_C_J inst s =
     (let npc = currentProgramCounter s + c_j_imm inst in jumped (s\<lparr>currentProgramCounter := npc\<rparr>))"

definition exec_C_BEQZ :: "u32 \<Rightarrow> 'b rv64core \<Rightarrow> 'b exec_res" where
  "exec_C_BEQZ inst s =
     (if GPR s (cr8 inst 9 7) = 0
      then jumped (s\<lparr>currentProgramCounter := currentProgramCounter s + c_branch_imm inst\<rparr>) else next_inst s)"

definition exec_C_BNEZ :: "u32 \<Rightarrow> 'b rv64core \<Rightarrow> 'b exec_res" where
  "exec_C_BNEZ inst s =
     (if GPR s (cr8 inst 9 7) \<noteq> 0
      then jumped (s\<lparr>currentProgramCounter := currentProgramCounter s + c_branch_imm inst\<rparr>) else next_inst s)"

definition exec_C_SLLI :: "u32 \<Rightarrow> 'b rv64core \<Rightarrow> 'b exec_res" where
  "exec_C_SLLI inst s =
     (let imm = c_imm6 inst; rs1 = cr inst 11 7 in
      if imm \<noteq> 0 then put_alu rs1 (GPR s rs1) imm ALU_SLL False s else next_inst s)"

definition exec_C_LWSP :: "'b slave_atomic_io \<Rightarrow> u32 \<Rightarrow> 'b rv64core \<Rightarrow> 'b exec_res" where
  "exec_C_LWSP vt inst s = load_reg vt (GPR s 2 + c_lwsp_imm inst) 4 widen_s32 (cr inst 11 7) s"

definition exec_C_LDSP :: "'b slave_atomic_io \<Rightarrow> u32 \<Rightarrow> 'b rv64core \<Rightarrow> 'b exec_res" where
  "exec_C_LDSP vt inst s = load_reg vt (GPR s 2 + c_ldsp_imm inst) 8 word_of_bytes (cr inst 11 7) s"

text \<open>\<open>if (npc & 1) npc ^= 1\<close>, and the jump to a target that is not a multiple of \<open>PC_ALIGN\<close> traps.\<close>

definition clear_bit0 :: "u64 \<Rightarrow> u64" where
  "clear_bit0 npc = (if npc AND 1 \<noteq> 0 then npc XOR 1 else npc)"

definition exec_C_JR_MV_EB_JALR_ADD :: "u32 \<Rightarrow> 'b rv64core \<Rightarrow> 'b exec_res" where
  "exec_C_JR_MV_EB_JALR_ADD inst s =
     (let is_ebreak_jalr_add = (binary_concat inst 12 12 0 \<noteq> 0); rs2 = cr inst 6 2; rs1 = cr inst 11 7 in
      if is_ebreak_jalr_add then
        if rs2 = 0 then
          if rs1 = 0 then bnd (ebreak s) next_inst
          else
            let npc = clear_bit0 (GPR s rs1) in
            if npc mod PC_ALIGN \<noteq> 0 then bnd (raise_exc exec_instr_misalign npc s) next_inst
            else bnd (setGPR s 1 (currentProgramCounter s + 2)) (\<lambda>s. jumped (s\<lparr>currentProgramCounter := npc\<rparr>))
        else put_alu rs1 (GPR s rs1) (GPR s rs2) ALU_ADD False s
      else
        if rs2 = 0 then
          if rs1 = 0 then illegal s
          else
            let npc = clear_bit0 (GPR s rs1) in
            if npc mod PC_ALIGN \<noteq> 0 then bnd (raise_exc exec_instr_misalign npc s) next_inst
            else jumped (s\<lparr>currentProgramCounter := npc\<rparr>)
        else put_reg rs1 (GPR s rs2) s)"

definition exec_C_SWSP :: "'b slave_atomic_io \<Rightarrow> u32 \<Rightarrow> 'b rv64core \<Rightarrow> 'b exec_res" where
  "exec_C_SWSP vt inst s = store_reg vt (GPR s 2 + c_swsp_imm inst) 4 (cr inst 6 2) s"

definition exec_C_SDSP :: "'b slave_atomic_io \<Rightarrow> u32 \<Rightarrow> 'b rv64core \<Rightarrow> 'b exec_res" where
  "exec_C_SDSP vt inst s = store_reg vt (GPR s 2 + c_sdsp_imm inst) 8 (cr inst 6 2) s"

definition rvc_opcode :: "u32 \<Rightarrow> u32" where
  "rvc_opcode inst = push_bit 3 (inst AND 3) OR (drop_bit 13 inst AND 7)"

definition exec_rvc :: "'b slave_atomic_io \<Rightarrow> u32 \<Rightarrow> 'b rv64core \<Rightarrow> 'b exec_res" where
  "exec_rvc vt inst s =
     (case RV64C_OpCode_enum_of (rvc_opcode inst) of
        Some OPCODE_C_ADDI4SPN \<Rightarrow> exec_C_ADDI4SPN inst s
      | Some OPCODE_C_LW \<Rightarrow> exec_C_LW vt inst s
      | Some OPCODE_C_LD \<Rightarrow> exec_C_LD vt inst s
      | Some OPCODE_C_SW \<Rightarrow> exec_C_SW vt inst s
      | Some OPCODE_C_SD \<Rightarrow> exec_C_SD vt inst s
      | Some OPCODE_C_ADDI \<Rightarrow> exec_C_ADDI inst s
      | Some OPCODE_C_ADDIW \<Rightarrow> exec_C_ADDIW inst s
      | Some OPCODE_C_LI \<Rightarrow> exec_C_LI inst s
      | Some OPCODE_C_ADDI16SPN_LUI \<Rightarrow> exec_C_ADDI16SPN_LUI inst s
      | Some OPCODE_C_ALU \<Rightarrow> exec_C_ALU inst s
      | Some OPCODE_C_J \<Rightarrow> exec_C_J inst s
      | Some OPCODE_C_BEQZ \<Rightarrow> exec_C_BEQZ inst s
      | Some OPCODE_C_BNEZ \<Rightarrow> exec_C_BNEZ inst s
      | Some OPCODE_C_SLLI \<Rightarrow> exec_C_SLLI inst s
      | Some OPCODE_C_LWSP \<Rightarrow> exec_C_LWSP vt inst s
      | Some OPCODE_C_LDSP \<Rightarrow> exec_C_LDSP vt inst s
      | Some OPCODE_C_JR_MV_EB_JALR_ADD \<Rightarrow> exec_C_JR_MV_EB_JALR_ADD inst s
      | Some OPCODE_C_SWSP \<Rightarrow> exec_C_SWSP vt inst s
      | Some OPCODE_C_SDSP \<Rightarrow> exec_C_SDSP vt inst s
      | None \<Rightarrow> illegal s)"

end
