(* ===== verification/Contract.thy ===== *)
theory Contract
  imports ExecC
begin

text \<open>
  What holds of every instruction. The locale \<open>instr_contract\<close> asks for a relation \<open>Q\<close> between the
  state before an instruction and its outcome (a crash included) that the building blocks of the two switches
  satisfy, and proves that then every instruction satisfies it. \<open>Step\<close> and \<open>Isolation\<close> interpret it.
\<close>

definition is_compressed :: "u32 \<Rightarrow> bool" where
  "is_compressed inst \<longleftrightarrow> fld inst r_opcode AND 3 \<noteq> 3"

definition exec_inst :: "'b slave_atomic_io \<Rightarrow> u32 \<Rightarrow> 'b rv64core \<Rightarrow> 'b exec_res" where
  "exec_inst vt inst s = (if \<not> is_compressed inst then exec_full vt inst s else exec_rvc vt inst s)"

section \<open>The decoder is total\<close>

lemma three_bits: "unat (fld inst f) < 8" if "snd (RVInst_pos f) = 3" "\<not> RVInst_signed f"
  using that bf_get_lt[of 3 "fst (RVInst_pos f)" inst] by (auto simp: fld_def split: prod.splits)

lemma word_lt_8_cases:
  fixes w :: u32 assumes "unat w < 8"
  shows "w = 0 \<or> w = 1 \<or> w = 2 \<or> w = 3 \<or> w = 4 \<or> w = 5 \<or> w = 6 \<or> w = 7"
proof -
  have "unat w \<in> {0, 1, 2, 3, 4, 5, 6, 7}" using assms by auto
  then show ?thesis by (auto dest!: arg_cong[where f = "of_nat :: nat \<Rightarrow> u32"])
qed

lemma funct3_total:
  assumes "snd (RVInst_pos f) = 3" "\<not> RVInst_signed f"
  shows "Funct3_Op_enum_of (fld inst f) \<noteq> None" "Funct3_M_enum_of (fld inst f) \<noteq> None"
  unfolding Funct3_Op_enum_of_def Funct3_M_enum_of_def
  using word_lt_8_cases[OF three_bits[OF assms, of inst]]
  by (auto simp: enum_of_def Funct3_Op_enum_all_def Funct3_M_enum_all_def)

lemma decode_returns:
  "\<exists>imm op ill. opimm_decode inst = Inr (imm, op, ill) \<and> (\<not> ill \<longrightarrow> op \<noteq> ALU_NOP)"
  "\<exists>op. op_decode inst = Inr op \<and> op \<noteq> Some ALU_NOP"
  using funct3_total[of i_funct3 inst] funct3_total[of r_funct3 inst]
  by (auto simp: opimm_decode_def op_decode_def Let_def RVInst_signed_def split: option.splits Funct3_Op_enum.splits
      Funct7_Op_enum.splits Funct3_M_enum.splits)

lemma decode32_ops:
  "opimm32_decode inst = (imm, op, False) \<Longrightarrow> op \<noteq> ALU_NOP" "op32_decode inst \<noteq> Some ALU_NOP"
  by (auto simp: opimm32_decode_def op32_decode_def Let_def split: option.splits Funct3_Op_enum.splits
      Funct7_Op_enum.splits Funct3_M_enum.splits)

lemma alu_exec_returns: "op \<noteq> ALU_NOP \<Longrightarrow> \<exists>r. alu_exec a b op w = Inr r"
  by (cases op) (simp_all add: alu_exec_def Let_def)

lemma jalr_target: "(if t AND 1 \<noteq> 0 then t XOR 1 else t) = (t AND NOT 1 :: u64)"
proof (cases "bit t 0")
  case True
  then have "t AND 1 = 1" by (simp add: and_one_eq even_iff_mod_2_eq_zero bit_0)
  with True show ?thesis by (auto intro!: bit_word_eqI simp: bit_simps bit_0)
next
  case False
  then have "t AND 1 = 0" by (simp add: and_one_eq bit_0 even_iff_mod_2_eq_zero)
  with False show ?thesis by (auto intro!: bit_word_eqI simp: bit_simps bit_0)
qed

lemma exec_JALR_jump:
  "exec_JALR inst s = jump_link (rg inst j_rd) (GPR s (rg inst i_rs1) + scast (fld inst i_imm12 AND NOT 1))
     (currentProgramCounter s + 4) s"
proof -
  have "(scast (w AND NOT 1) :: u64) = scast w AND NOT 1" for w :: u32
    by (rule bit_word_eqI) (auto simp: bit_simps min_def)
  then show ?thesis by (simp add: exec_JALR_def Let_def jalr_target)
qed

section \<open>The contract of the instructions\<close>

locale instr_contract =
  fixes vt :: "'b slave_atomic_io" and inst :: u32
    and pre :: "'b rv64core \<Rightarrow> bool" and Q :: "'b rv64core \<Rightarrow> 'b exec_res \<Rightarrow> bool"
  assumes q_next: "pre s \<Longrightarrow> Q s (next_inst s)"
    and q_illegal: "pre s \<Longrightarrow> Q s (illegal s)"
    and q_jump: "pre s \<Longrightarrow> Q s (jumped (s\<lparr>currentProgramCounter := p\<rparr>))"
    and q_link: "pre s \<Longrightarrow> Q s (bnd (setGPR s (ucast rd) v) (\<lambda>s'. jumped (s'\<lparr>currentProgramCounter := p\<rparr>)))"
    and q_put: "pre s \<Longrightarrow> Q s (put_reg rd v s)"
    and q_raise: "pre s \<Longrightarrow> e \<in> {exec_instr_misalign, exec_breakpoint} \<Longrightarrow> Q s (bnd (raise_exc e t s) next_inst)"
    and q_raise_jumped: "pre s \<Longrightarrow> Q s (bnd (raise_exc exec_instr_misalign t s) jumped)"
    and q_ecall: "pre s \<Longrightarrow> Q s (bnd (ecall s) next_inst)"
    and q_load: "pre s \<Longrightarrow> n \<in> {1, 2, 4, 8} \<Longrightarrow> Q s (load_reg vt a n g rd s)"
    and q_store: "pre s \<Longrightarrow> k \<in> {1, 2, 4, 8} \<Longrightarrow> Q s (store_reg vt a k rs s)"
    and q_amo: "pre s \<Longrightarrow> Q s (exec_AMO vt inst s)"
    and q_csr: "pre s \<Longrightarrow> (wr \<longrightarrow> perm) \<Longrightarrow> RV64I_OpCode_enum_of (fld inst r_opcode) = Some OPCODE_SYSTEM
      \<Longrightarrow> Q s (csr_instr inst perm wr new s)"
    and q_mret: "pre s \<Longrightarrow> Q s (case mret s of (ok, s') \<Rightarrow> Inr (False, \<not> ok, s'))"
    and q_sret: "pre s \<Longrightarrow> Q s (case sret s of (ok, s') \<Rightarrow> Inr (False, \<not> ok, s'))"
    and q_sfence: "pre s \<Longrightarrow> Q s (case sfence_vma v asid s of (ok, s') \<Rightarrow> Inr (False, \<not> ok, s'))"
begin

lemmas q_ends = q_next q_illegal q_jump q_link q_put q_ecall q_load q_store q_amo q_csr
  q_mret q_sret q_sfence q_raise q_raise_jumped

lemma q_alu: "pre s \<Longrightarrow> op \<noteq> ALU_NOP \<Longrightarrow> Q s (put_alu rd a b op w s)"
  using alu_exec_returns[of op a b w] by (auto simp: put_alu_def q_put)

lemma q_jump_link: "pre s \<Longrightarrow> Q s (jump_link rd npc v s)"
  by (simp add: jump_link_def q_raise q_link del: setGPR_reg)

lemma q_branch: "pre s \<Longrightarrow> Q s (exec_BRANCH inst s)"
  by (simp add: exec_BRANCH_def Let_def q_illegal q_next q_jump q_raise_jumped split: option.split)

lemma q_memory: "pre s \<Longrightarrow> Q s (exec_LOAD vt inst s)" "pre s \<Longrightarrow> Q s (exec_STORE vt inst s)"
  by (simp_all add: exec_LOAD_def exec_STORE_def Let_def q_load q_store q_illegal
      split: option.split Funct3_Load_enum.split Funct3_Store_enum.split)

lemma q_imm: "pre s \<Longrightarrow> Q s (exec_OPIMM inst s)" "pre s \<Longrightarrow> Q s (exec_OPIMM32 inst s)"
proof -
  assume p: "pre s"
  obtain imm op ill where "opimm_decode inst = Inr (imm, op, ill)" "\<not> ill \<longrightarrow> op \<noteq> ALU_NOP"
    using decode_returns(1)[of inst] by blast
  then show "Q s (exec_OPIMM inst s)" using p by (simp add: exec_OPIMM_def q_illegal q_alu)
  obtain imm' op' ill' where "opimm32_decode inst = (imm', op', ill')" by (cases "opimm32_decode inst")
  then show "Q s (exec_OPIMM32 inst s)" using p decode32_ops(1) by (auto simp: exec_OPIMM32_def q_illegal q_alu)
qed

lemma q_op: "pre s \<Longrightarrow> Q s (exec_OP inst s)" "pre s \<Longrightarrow> Q s (exec_OP32 inst s)"
proof -
  assume p: "pre s"
  obtain op where "op_decode inst = Inr op" "op \<noteq> Some ALU_NOP" using decode_returns(2)[of inst] by blast
  then show "Q s (exec_OP inst s)" using p by (cases op) (simp_all add: exec_OP_def q_illegal q_alu)
  show "Q s (exec_OP32 inst s)"
    using p decode32_ops(2)[of inst] by (auto simp: exec_OP32_def q_illegal q_alu split: option.split)
qed

lemma q_priv: "pre s \<Longrightarrow> Q s (exec_PRIV inst s)"
  by (simp add: exec_PRIV_def Let_def ebreak_def q_ends split: option.split Funct7_Priv_enum.split)

lemma q_system: "pre s \<Longrightarrow> RV64I_OpCode_enum_of (fld inst r_opcode) = Some OPCODE_SYSTEM \<Longrightarrow> Q s (exec_SYSTEM inst s)"
  by (simp add: exec_SYSTEM_def q_priv q_illegal exec_CSRRW_def exec_CSRRS_def exec_CSRRC_def exec_CSRRWI_def
      exec_CSRRSI_def exec_CSRRCI_def q_csr split: option.split Funct3_System_enum.split)

lemma q_full: "pre s \<Longrightarrow> Q s (exec_full vt inst s)"
  by (simp add: exec_full_def exec_LUI_def exec_AUIPC_def exec_JAL_def exec_JALR_jump Let_def q_put q_jump_link q_branch
      q_memory q_imm q_op q_amo q_next q_system q_illegal split: option.split RV64I_OpCode_enum.split)

lemma q_c_alu: "pre s \<Longrightarrow> Q s (exec_C_ALU inst s)"
  by (simp add: exec_C_ALU_def Let_def q_alu q_illegal q_next split: option.split RV64C_Funct2_enum.split)

lemma q_c_jr: "pre s \<Longrightarrow> Q s (exec_C_JR_MV_EB_JALR_ADD inst s)"
  using q_link[of s 1] by (simp add: exec_C_JR_MV_EB_JALR_ADD_def ebreak_def Let_def q_raise q_alu q_put q_jump q_illegal)

lemma q_c_lui: "pre s \<Longrightarrow> Q s (exec_C_ADDI16SPN_LUI inst s)"
  by (simp add: exec_C_ADDI16SPN_LUI_def Let_def q_put q_next)

lemma q_rvc: "pre s \<Longrightarrow> Q s (exec_rvc vt inst s)"
  by (simp add: exec_rvc_def exec_C_ADDI4SPN_def exec_C_LW_def exec_C_LD_def exec_C_SW_def exec_C_SD_def exec_C_ADDI_def
      exec_C_ADDIW_def exec_C_LI_def exec_C_J_def exec_C_BEQZ_def exec_C_BNEZ_def exec_C_SLLI_def exec_C_LWSP_def
      exec_C_LDSP_def exec_C_SWSP_def exec_C_SDSP_def Let_def q_c_alu q_c_jr q_c_lui q_ends q_alu
      split: option.split RV64C_OpCode_enum.split)

theorem q_inst: "pre s \<Longrightarrow> Q s (exec_inst vt inst s)"
  by (simp add: exec_inst_def q_full q_rvc)

end

end
