(* ===== verification/Step.thy ===== *)
theory Step
  imports Contract
begin

text \<open>
  \<open>RV64Core::step\<close>: interrupts, fetch, execution and the common end of all paths (the label
  \<open>exception\<close>), and the properties of the whole core.
\<close>

definition next_pc :: "bool \<Rightarrow> bool \<Rightarrow> 'b rv64core \<Rightarrow> u64" where
  "next_pc is_compressed_inst is_new_pc_set s =
     (if needTrap s then trapProgramCounter s
      else if \<not> is_new_pc_set then currentProgramCounter s + (if is_compressed_inst then 2 else 4)
      else currentProgramCounter s)"

definition finish :: "u32 \<Rightarrow> bool \<Rightarrow> bool \<times> bool \<times> 'b rv64core \<Rightarrow> 'b rv64core res" where
  "finish inst is_compressed_inst out =
     (case out of (is_new_pc_set, is_instr_illegal, s) \<Rightarrow>
      bnd (if is_instr_illegal then raise_exc exec_illegal_instr (ucast inst) s else Inr s) (\<lambda>s.
        let s1 = s\<lparr>currentProgramCounter := next_pc is_compressed_inst is_new_pc_set s\<rparr>;
            s2 = (if \<not> needTrap s1 then s1\<lparr>minstret := minstret s1 + 1\<rparr> else s1);
            s3 = s2\<lparr>needTrap := False\<rparr> in
        guard (mst (status s3) ms_blank0 = 0) (guard (mst (status s3) ms_blank1 = 0)
          (guard (mst (status s3) ms_blank2 = 0) (guard (mst (status s3) ms_blank3 = 0)
            (guard (mst (status s3) ms_blank4 = 0) (Inr s3)))))))"

text \<open>The cause of a failed fetch; 0, which the code asserts against, for any other feedback.\<close>

definition fetch_cause :: "VAddr_RW_Feedback \<Rightarrow> u64" where
  "fetch_cause feedback =
     (if feedback = VADDR_PAGE_FAULT then exec_val exec_instr_pgfault
      else if feedback = VADDR_ACCESS_FAULT then exec_val exec_instr_acc_fault else 0)"

text \<open>\<open>goto exception\<close> before the decoder: \<open>inst\<close> keeps its value and no flag is set.\<close>

definition step :: "irq_store \<Rightarrow> 'b slave_atomic_io \<Rightarrow> 'b rv64core \<Rightarrow> 'b rv64core res" where
  "step w vt s =
     bnd (preExec w s) (\<lambda>s.
       if needTrap s then finish 0 False (False, False, s)
       else if currentProgramCounter s mod PC_ALIGN \<noteq> 0 then
         bnd (raise_exc exec_instr_misalign (currentProgramCounter s) s) (\<lambda>s. finish 0 False (False, False, s))
       else
         bnd (VAddr_InstFetch_MMU_API vt (currentProgramCounter s) (replicate 4 0) s) (\<lambda>(feedback, buf, s).
           let inst = word_of_bytes buf in
           if feedback \<noteq> VADDR_ACCESS_OK then
             guard (fetch_cause feedback \<noteq> 0)
               (bnd (raiseTrap (mk_cause (fetch_cause feedback) 0) (currentProgramCounter s) s)
                 (\<lambda>s. finish inst False (False, False, s)))
           else bnd (exec_inst vt inst s) (finish inst (is_compressed inst))))"

text \<open>
  The same step without the five asserts on \<open>mstatus\<close> at its end, to say that they never fail.
\<close>

definition finish_unchecked :: "u32 \<Rightarrow> bool \<Rightarrow> bool \<times> bool \<times> 'b rv64core \<Rightarrow> 'b rv64core res" where
  "finish_unchecked inst is_compressed_inst out =
     (case out of (is_new_pc_set, is_instr_illegal, s) \<Rightarrow>
      bnd (if is_instr_illegal then raise_exc exec_illegal_instr (ucast inst) s else Inr s) (\<lambda>s.
        Inr (s\<lparr>currentProgramCounter := next_pc is_compressed_inst is_new_pc_set s,
               minstret := minstret s + (if needTrap s then 0 else 1), needTrap := False\<rparr>)))"

definition step_unchecked :: "irq_store \<Rightarrow> 'b slave_atomic_io \<Rightarrow> 'b rv64core \<Rightarrow> 'b rv64core res" where
  "step_unchecked w vt s =
     bnd (preExec w s) (\<lambda>s.
       if needTrap s then finish_unchecked 0 False (False, False, s)
       else if currentProgramCounter s mod PC_ALIGN \<noteq> 0 then
         bnd (raise_exc exec_instr_misalign (currentProgramCounter s) s) (\<lambda>s. finish_unchecked 0 False (False, False, s))
       else
         bnd (VAddr_InstFetch_MMU_API vt (currentProgramCounter s) (replicate 4 0) s) (\<lambda>(feedback, buf, s).
           let inst = word_of_bytes buf in
           if feedback \<noteq> VADDR_ACCESS_OK then
             guard (fetch_cause feedback \<noteq> 0)
               (bnd (raiseTrap (mk_cause (fetch_cause feedback) 0) (currentProgramCounter s) s)
                 (\<lambda>s. finish_unchecked inst False (False, False, s)))
           else bnd (exec_inst vt inst s) (finish_unchecked inst (is_compressed inst))))"

section \<open>The invariant is kept by every instruction\<close>

text \<open>
  What a case of the switches may leave: a core that is well formed, and no trap pending when the
  instruction is reported illegal, so that the trap for it can be raised.
\<close>

definition good :: "bool \<times> bool \<times> 'b rv64core \<Rightarrow> bool" where
  "good out \<longleftrightarrow> (case out of (_, ill, s) \<Rightarrow> core_ok s \<and> (ill \<longrightarrow> \<not> needTrap s))"

lemma good_ends [simp]:
  "post good (next_inst s) = core_ok s" "post good (jumped s) = core_ok s"
  "post good (illegal s) = (core_ok s \<and> \<not> needTrap s)" "good (np, ill, s) = (core_ok s \<and> (ill \<longrightarrow> \<not> needTrap s))"
  by (simp_all add: exec_ends good_def)

lemma core_ok_updates [simp]:
  "core_ok (s\<lparr>currentProgramCounter := p\<rparr>) = core_ok s"
  "r \<noteq> 0 \<Longrightarrow> core_ok (s\<lparr>GPR := (GPR s)(r := v)\<rparr>) = core_ok s"
  by (simp_all add: core_ok_def)

lemma put_reg_good [simp]: "core_ok s \<Longrightarrow> post good (put_reg rd v s)"
  by (simp add: put_reg_def)

lemma post_bndI: "(\<And>x. m = Inr x \<Longrightarrow> post P (f x)) \<Longrightarrow> post P (bnd m f)"
  by (cases m) simp_all

lemma raise_good [simp]:
  "core_ok s \<Longrightarrow> post good (bnd (raise_exc e t s) next_inst)" "core_ok s \<Longrightarrow> post good (bnd (raise_exc e t s) jumped)"
  by (auto intro!: post_bndI dest: raise_exc_ok)

lemma load_reg_good [simp]: "core_ok s \<Longrightarrow> post good (load_reg vt a n g rd s)"
  unfolding load_reg_def by (rule post_bndI) (auto split: option.splits simp: memRead_ok)

lemma store_reg_good [simp]: "core_ok s \<Longrightarrow> post good (store_reg vt a n r s)"
  unfolding store_reg_def by (rule post_bndI) (auto simp: memWrite_ok)

lemma amo_result_good [simp]: "core_ok s \<Longrightarrow> post good (amo_result e r a rd s)"
  by (auto simp: amo_result_def split: option.splits)

lemma csrWrite_needTrap: "csrWrite s idx d = Inr (b, s') \<Longrightarrow> needTrap s' = needTrap s"
  by (auto simp: csrWrite_def res_simps split: option.splits RV_CSR_Addr_enum.splits if_splits)

lemma csr_instr_good [simp]: "core_ok s \<Longrightarrow> \<not> needTrap s \<Longrightarrow> post good (csr_instr inst perm wr new s)"
  by (auto simp: csr_instr_def Let_def csrWrite_ok csrWrite_needTrap intro!: post_bndI split: option.splits if_splits)


lemmas atomic_frames = amo_frame[THEN mmu_only_all] lr_frame[THEN mmu_only_all] sc_frame[THEN mmu_only_all]

lemma exec_AMO_good [simp]: "core_ok s \<Longrightarrow> \<not> needTrap s \<Longrightarrow> post good (exec_AMO vt inst s)"
  by (auto simp: exec_AMO_def Let_def dest: atomic_frames intro!: post_bndI split: option.splits AMO_Funct_enum.splits)

lemma returns_ok:
  "core_ok s \<Longrightarrow> mret s = (b, s') \<Longrightarrow> core_ok s' \<and> (\<not> b \<longrightarrow> needTrap s' = needTrap s)"
  "core_ok s \<Longrightarrow> sret s = (b, s') \<Longrightarrow> core_ok s' \<and> (\<not> b \<longrightarrow> needTrap s' = needTrap s)"
  "core_ok s \<Longrightarrow> sfence_vma v asid s = (b, s') \<Longrightarrow> core_ok s' \<and> (\<not> b \<longrightarrow> needTrap s' = needTrap s)"
  using mret_ok[of s] sret_ok[of s] sfence_ok[of s v asid]
  by (auto simp: mret_def sret_def sfence_vma_def Let_def split: if_split_asm)

lemma ended_good [simp]:
  assumes "core_ok s" "\<not> needTrap s"
  shows "post good (case mret s of (ok, s') \<Rightarrow> Inr (False, \<not> ok, s'))"
    "post good (case sret s of (ok, s') \<Rightarrow> Inr (False, \<not> ok, s'))"
    "post good (case sfence_vma v asid s of (ok, s') \<Rightarrow> Inr (False, \<not> ok, s'))"
    "post good (bnd (ecall s) next_inst)" "post good (bnd (ebreak s) next_inst)"
proof -
  show "post good (case mret s of (ok, s') \<Rightarrow> Inr (False, \<not> ok, s'))"
    using assms returns_ok(1)[OF assms(1)] by (cases "mret s") simp
  show "post good (case sret s of (ok, s') \<Rightarrow> Inr (False, \<not> ok, s'))"
    using assms returns_ok(2)[OF assms(1)] by (cases "sret s") simp
  show "post good (case sfence_vma v asid s of (ok, s') \<Rightarrow> Inr (False, \<not> ok, s'))"
    using assms returns_ok(3)[OF assms(1)] by (cases "sfence_vma v asid s") simp
  show "post good (bnd (ecall s) next_inst)"
    unfolding ecall_def by (rule post_bndI) (use raiseTrap_ok[OF assms(1)] in simp)
  show "post good (bnd (ebreak s) next_inst)"
    using assms by (simp add: ebreak_def)
qed

interpretation keep: instr_contract vt inst "\<lambda>s. core_ok s \<and> \<not> needTrap s" "\<lambda>s out. post good out" for vt inst
  by unfold_locales (auto simp: raise_good ended_good)

text \<open>The asserts at the end of \<open>step\<close> never fail on a well formed core.\<close>

lemma finish_returns:
  assumes "core_ok s" "\<not> ill" 
  shows "finish inst c (np, ill, s) =
    Inr (s\<lparr>currentProgramCounter := next_pc c np s, minstret := minstret s + (if needTrap s then 0 else 1), needTrap := False\<rparr>)"
  using assms by (simp add: finish_def Let_def core_ok_def status_ok_def)

lemma finish_illegal:
  assumes "core_ok s" "\<not> needTrap s"
  shows "finish inst c (np, True, s) = bnd (raise_exc exec_illegal_instr (ucast inst) s) (\<lambda>s'. finish inst c (np, False, s'))"
  by (simp add: finish_def)

lemma finish_cases:
  "finish inst c (np, ill, s1) = Inr s' \<Longrightarrow>
     \<exists>s2. (if ill then raise_exc exec_illegal_instr (ucast inst) s1 else Inr s1) = Inr s2
       \<and> s' = s2\<lparr>currentProgramCounter := next_pc c np s2, minstret := minstret s2 + (if needTrap s2 then 0 else 1), needTrap := False\<rparr>"
  unfolding finish_def prod.case bnd_eq_Inr
  by (erule exE) (auto simp: Let_def guard_def split: if_split_asm)

lemma finish_ok: "good out \<Longrightarrow> post (\<lambda>s'. core_ok s' \<and> \<not> needTrap s') (finish inst c out)"
proof -
  have base: "post (\<lambda>s'. core_ok s' \<and> \<not> needTrap s') (finish inst c (np, False, s))" if "core_ok s" for np s
    using that finish_returns[of s False inst c np] by (simp add: core_ok_def)
  assume g: "good out"
  obtain np ill s where out: "out = (np, ill, s)" by (cases out)
  show ?thesis
  proof (cases ill)
    case True
    with g have "finish inst c out = bnd (raise_exc exec_illegal_instr (ucast inst) s) (\<lambda>s'. finish inst c (np, False, s'))"
      unfolding out by (simp add: finish_illegal)
    moreover have "core_ok s'" if "raise_exc exec_illegal_instr (ucast inst) s = Inr s'" for s'
      using raise_exc_ok[OF _ that] g unfolding out by simp
    ultimately show ?thesis using base by (simp only:) (rule post_bndI, blast)
  next
    case False then show ?thesis using g base unfolding out by simp
  qed
qed

lemma finish_asserts: "good out \<Longrightarrow> finish inst c out = finish_unchecked inst c out"
proof -
  assume g: "good out"
  obtain np ill s where out: "out = (np, ill, s)" by (cases out)
  have eq: "finish inst c (np, False, s') = finish_unchecked inst c (np, False, s')" if "core_ok s'" for s'
    using that by (simp add: finish_returns finish_unchecked_def)
  show ?thesis
  proof (cases ill)
    case True
    show ?thesis
    proof (cases "raise_exc exec_illegal_instr (ucast inst) s")
      case (Inr b)
      then have "core_ok b" using raise_exc_ok[OF _ Inr] g unfolding out by simp
      then show ?thesis using g True Inr unfolding out by (simp add: finish_illegal finish_returns finish_unchecked_def)
    qed (use g True in \<open>simp add: out finish_illegal finish_unchecked_def\<close>)
  next
    case False then show ?thesis using g eq unfolding out by simp
  qed
qed

lemma preExec_cases:
  "preExec w s = Inr s' \<Longrightarrow>
     s' = update_pending w s \<and> \<not> needTrap s' \<or> (\<exists>c. raiseTrap c 0 (update_pending w s) = Inr s' \<and> needTrap s')"
  by (auto simp: preExec_def Let_def raise_int_def raiseTrap_frame(1) update_pending_def split: if_split_asm)

text \<open>
  The ways a step can go: an interrupt, a misaligned program counter, a failed fetch, or an instruction
  that is executed.
\<close>

lemma step_cases:
  assumes "step w vt s = Inr s'"
  shows "(\<exists>s1 cause tval t i. mmu_only (update_pending w s) s1 \<and> raiseTrap cause tval s1 = Inr t
            \<and> finish i False (False, False, t) = Inr s')
       \<or> (\<exists>s1 inst np ill t. mmu_only (update_pending w s) s1 \<and> \<not> needTrap s1 \<and> exec_inst vt inst s1 = Inr (np, ill, t)
            \<and> finish inst (is_compressed inst) (np, ill, t) = Inr s')"
    (is "?trap \<or> ?exec")
proof -
  let ?p = "update_pending w s"
  have trapI: ?trap if "mmu_only ?p s1" "raiseTrap cause tval s1 = Inr t" "finish i False (False, False, t) = Inr s'"
    for s1 cause tval t i using that by blast
  obtain s1 where pre: "preExec w s = Inr s1" using assms by (auto simp: step_def res_simps)
  show ?thesis
  proof (cases "needTrap s1")
    case True
    then obtain c where "raiseTrap c 0 ?p = Inr s1" using preExec_cases[OF pre] by auto
    moreover have "finish 0 False (False, False, s1) = Inr s'" using assms pre True by (simp add: step_def)
    ultimately show ?thesis using trapI[of ?p] by simp
  next
    case False
    then have s1: "s1 = ?p" using preExec_cases[OF pre] by auto
    show ?thesis
    proof (cases "currentProgramCounter s1 mod PC_ALIGN = 0")
      case mis: False
      then show ?thesis using assms pre False trapI[of ?p]
        by (auto simp: step_def res_simps s1 raise_exc_def)
    next
      case aligned: True
      then obtain fb buf s2 where f: "VAddr_InstFetch_MMU_API vt (currentProgramCounter s1) (replicate 4 0) s1 = Inr (fb, buf, s2)"
        using assms pre False by (auto simp: step_def res_simps)
      have m: "mmu_only ?p s2" using fetch_frame[OF f] s1 by simp
      have nt: "\<not> needTrap s2" using mmu_only_core(2)[OF m] False s1 by simp
      show ?thesis
      proof (cases "fb = VADDR_ACCESS_OK")
        case True
        then obtain np ill t where "exec_inst vt (word_of_bytes buf) s2 = Inr (np, ill, t)"
          and "finish (word_of_bytes buf) (is_compressed (word_of_bytes buf)) (np, ill, t) = Inr s'"
          using assms pre False aligned f by (auto simp: step_def res_simps Let_def)
        then show ?thesis using m nt by blast
      next
        case no: False then show ?thesis using assms pre False aligned f trapI[OF m]
          by (auto simp: step_def res_simps Let_def)
      qed
    qed
  qed
qed

lemma step_ok:
  assumes ok: "core_ok s" and st: "step w vt s = Inr s'"
  shows "core_ok s' \<and> \<not> needTrap s'"
proof -
  have p: "core_ok (update_pending w s)" using ok by (rule update_pending_ok)
  have fin: ?thesis if "finish i c out = Inr s'" "good out" for i c out
    using postD[OF finish_ok[OF that(2)] that(1)] .
  from step_cases[OF st] show ?thesis
  proof (elim disjE exE conjE)
    fix s1 cause tval t i assume m: "mmu_only (update_pending w s) s1" and r: "raiseTrap cause tval s1 = Inr t"
      and f: "finish i False (False, False, t) = Inr s'"
    have "core_ok t" using raiseTrap_ok[OF _ r] mmu_only_core(1)[OF m] p by simp
    then show ?thesis using fin[OF f] by simp
  next
    fix s1 inst np ill t assume m: "mmu_only (update_pending w s) s1" and n: "\<not> needTrap s1"
      and e: "exec_inst vt inst s1 = Inr (np, ill, t)" and f: "finish inst (is_compressed inst) (np, ill, t) = Inr s'"
    have "good (np, ill, t)" using postD[OF keep.q_inst e] mmu_only_core(1)[OF m] p n by simp
    then show ?thesis using fin[OF f] by simp
  qed
qed

lemma bnd_cong_Inr: "(\<And>x. m = Inr x \<Longrightarrow> f x = g x) \<Longrightarrow> bnd m f = bnd m g"
  by (cases m) simp_all

text \<open>No assert at the end of a step fails, whatever the step does: interrupt, failed fetch or instruction.\<close>

lemma step_asserts:
  assumes ok: "core_ok s" shows "step w vt s = step_unchecked w vt s"
proof -
  have fin: "finish i c (False, False, t) = finish_unchecked i c (False, False, t)" if "core_ok t" for i c t
    by (rule finish_asserts) (use that in simp)
  show ?thesis
    unfolding step_def step_unchecked_def
  proof (rule bnd_cong_Inr, goal_cases)
    case (1 s1)
    note pre = 1
    have ok1: "core_ok s1" using preExec_ok[OF ok pre] .
    have ex: "bnd (exec_inst vt i t) (finish i c) = bnd (exec_inst vt i t) (finish_unchecked i c)"
      if "core_ok t" "\<not> needTrap t" for i c t
      by (rule bnd_cong_Inr) (metis finish_asserts postD[OF keep.q_inst] that)
    have tr: "bnd (raiseTrap cs v t) (\<lambda>s. finish i False (False, False, s)) = bnd (raiseTrap cs v t) (\<lambda>s. finish_unchecked i False (False, False, s))"
      if "core_ok t" for cs v t i
      by (rule bnd_cong_Inr) (use raiseTrap_ok[OF that] fin in blast)
    have fe: "core_ok t \<and> needTrap t = needTrap s1"
      if "VAddr_InstFetch_MMU_API vt (currentProgramCounter s1) (replicate 4 0) s1 = Inr (fb, buf, t)" for fb buf t
      using mmu_only_core(1,2)[OF fetch_frame[OF that]] ok1 by simp
    have fetched: "core_ok t \<and> \<not> needTrap t"
      if "VAddr_InstFetch_MMU_API vt (currentProgramCounter s1) (replicate 4 0) s1 = Inr (fb, buf, t)" "\<not> needTrap s1" for fb buf t
      using fe[OF that(1)] that(2) by simp
    show ?case
    proof (intro if_cong refl, goal_cases)
      case 1 show ?case by (rule fin[OF ok1])
    next
      case 2 show ?case unfolding raise_exc_def by (rule tr[OF ok1])
    next
      case 3
      show ?case
      proof (rule bnd_cong_Inr, clarify, goal_cases)
        case (1 fb buf t)
        then have t: "core_ok t" "\<not> needTrap t" using fetched 3 by blast+
        show ?case unfolding Let_def ex[OF t] tr[OF t(1)] ..
      qed
    qed
  qed
qed

section \<open>Running the core\<close>

text \<open>
  \<open>run\<close> is \<open>while (true) step()\<close>. The states it goes through, with any interrupt lines at each step.
\<close>

inductive core_run :: "'b slave_atomic_io \<Rightarrow> 'b rv64core \<Rightarrow> 'b rv64core \<Rightarrow> bool" for vt s0 where
  run_start: "core_run vt s0 s0"
| run_step: "core_run vt s0 s \<Longrightarrow> step w vt s = Inr s' \<Longrightarrow> core_run vt s0 s'"

inductive_cases core_runE: "core_run vt s0 s"

lemma reset_ok: "core_ok (reset s) \<and> \<not> needTrap (reset s)"
  by (simp add: reset_def core_ok_def)

lemma new_ok: "core_ok (fst (RV64Core_new mem0 b hart i w)) \<and> \<not> needTrap (fst (RV64Core_new mem0 b hart i w))"
  by (simp add: RV64Core_new_def reset_ok)

lemma core_run_ok: "core_run vt s0 s \<Longrightarrow> core_ok s0 \<Longrightarrow> \<not> needTrap s0 \<Longrightarrow> core_ok s \<and> \<not> needTrap s"
  by (induction rule: core_run.induct) (auto dest: step_ok)

text \<open>A bus that answers every load with the bytes of one instruction, and accepts every store.\<close>

definition rom_vt :: "u32 \<Rightarrow> unit slave_atomic_io" where
  "rom_vt inst = \<lparr>io_load = (\<lambda>s a n. Inr (FB_SUCCESS, Some (bytes_of (unat n) inst), s)),
     io_store = (\<lambda>s a bs. Inr (FB_SUCCESS, s)), io_reserve = (\<lambda>s a n h. s), io_check = (\<lambda>s a n h. (False, s))\<rparr>"


text \<open>
  C1. The invariant of the core: in every state that \<open>run\<close> reaches from a constructed core, on any bus
  and with any interrupt lines, \<open>x0\<close> is 0, the reserved fields of \<open>mstatus\<close> are 0, only existing interrupts are
  enabled and no trap is left pending; and the five asserts at the end of the next step never fail: with any lines, and
  whether the step takes an interrupt, fails to fetch, traps, or executes an instruction, legal or not, it is the step
  without these asserts.
\<close>

theorem core_run_invariant:
  assumes "core_run vt (fst (RV64Core_new mem0 b hart i w)) s"
  shows "GPR s 0 = 0 \<and> status_ok (status s) \<and> csrIntEnable s AND NOT M_MODE_INT_MASK = 0 \<and> \<not> needTrap s
    \<and> (\<forall>w. step w vt s = step_unchecked w vt s)"
proof -
  have "core_ok s" "\<not> needTrap s" using core_run_ok[OF assms] new_ok[of mem0 b hart i w] by simp_all
  then show ?thesis using step_asserts[of s _ vt] by (simp add: core_ok_def)
qed

text \<open>The first step of a core on a bus that only holds \<open>nop\<close>.\<close>

theorem core_run_invariant_witness:
  "\<exists>s. core_run (rom_vt 0x13) (fst (RV64Core_new (zero_core ()) () 0 0 (\<lambda>_. False))) s
     \<and> step (\<lambda>_. False) (rom_vt 0x13) (fst (RV64Core_new (zero_core ()) () 0 0 (\<lambda>_. False))) = Inr s \<and> GPR s 0 = 0"
proof -
  let ?s = "fst (RV64Core_new (zero_core ()) () 0 0 (\<lambda>_. False))"
  have "returns (step (\<lambda>_. False) (rom_vt 0x13) ?s)" by code_simp
  then obtain t where t: "step (\<lambda>_. False) (rom_vt 0x13) ?s = Inr t" by (auto simp: returns_iff)
  have r: "core_run (rom_vt 0x13) ?s t" by (rule run_step[OF run_start t])
  show ?thesis using core_run_invariant[OF r] r t by blast
qed

end
