(* ===== verification/Isolation.thy ===== *)
theory Isolation
  imports Step
begin

text \<open>
  What code below machine mode can change: the contract of the instructions, interpreted for the
  machine registers and for user mode, and lifted to a whole \<open>step\<close>.
\<close>

section \<open>CSR access rights\<close>

definition csr_level :: "RV_CSR_Addr_enum \<Rightarrow> u64" where
  "csr_level c = ucast (drop_bit 8 (RV_CSR_Addr_enum_val c) AND 3)"

lemma csr_level_cases:
  "csr_level c = 3
   \<or> csr_level c = 1 \<and> c \<in> {csr_sstatus, csr_sie, csr_stvec, csr_scounteren, csr_sscratch, csr_sepc, csr_scause, csr_stval, csr_sip, csr_satp}
   \<or> csr_level c = 0 \<and> c \<in> {csr_cycle, csr_time, csr_instret}"
  by (cases c) (simp_all add: csr_level_def)

lemma csr_check:
  assumes "csr_op_permission_check s (ucast idx) wr" and "RV_CSR_Addr_enum_of idx = Some c"
  shows "csr_level c \<le> PrivMode_val (currentPrivMode s)" "csr_level c = 0 \<Longrightarrow> \<not> wr"
proof -
  have i: "idx = RV_CSR_Addr_enum_val c" using RV_CSR_Addr_enum_val_of[OF assms(2)] by simp
  have "x AND 3 = take_bit 2 x" "y AND 3 = take_bit 2 y" for x :: u16 and y :: u32
    by (simp_all add: take_bit_eq_mask mask_eq_exp_minus_1)
  then have "(ucast (drop_bit 8 (ucast idx :: u16) AND 3) :: u64) = ucast (drop_bit 8 idx AND 3)"
    by (auto intro!: bit_word_eqI simp: bit_simps)
  then show "csr_level c \<le> PrivMode_val (currentPrivMode s)"
    using assms(1) unfolding csr_op_permission_check_def csr_level_def i by (simp split: if_split_asm)
  assume "csr_level c = 0"
  then have "c \<in> {csr_cycle, csr_time, csr_instret}" using csr_level_cases[of c] by auto
  then have "drop_bit 10 (ucast idx :: u16) AND 3 = 3" unfolding i by auto
  then show "\<not> wr" using assms(1) by (auto simp: csr_op_permission_check_def split: if_split_asm)
qed

text \<open>The machine registers that only machine mode may change, and those that a trap to it also sets.\<close>

definition machine_regs :: "'b rv64core \<Rightarrow> u64 list" where
  "machine_regs s = [csrMTrapVecBaseAddr s, csrMscratch s, csrMIntDelegation s, csrMExceptionDelegation s, csrMCounterEN s,
     csrMachineISA s, rvHartID s, csrIntEnable s AND NOT S_MODE_INT_MASK,
     mst (status s) ms_tvm, mst (status s) ms_tw, mst (status s) ms_tsr]"

definition machine_trap_regs :: "'b rv64core \<Rightarrow> u64 list" where
  "machine_trap_regs s = [csrMExceptionPC s, csrMachineCause s, csrMachineTrapVal s,
     mst (status s) ms_mie, mst (status s) ms_mpie, mst (status s) ms_mpp]"

definition machine_kept :: "'b rv64core \<Rightarrow> 'b rv64core \<Rightarrow> bool" where
  "machine_kept s s' \<longleftrightarrow> machine_regs s' = machine_regs s
     \<and> (nextPrivMode s' \<noteq> M_MODE \<longrightarrow> machine_trap_regs s' = machine_trap_regs s)"

lemmas machine_defs = machine_kept_def machine_regs_def machine_trap_regs_def

lemma csrWrite_machine:
  assumes "csr_op_permission_check s (ucast idx) wr" and "currentPrivMode s \<noteq> M_MODE"
    and "csrWrite s idx d = Inr (b, s')"
  shows "machine_kept s s'"
proof (cases "RV_CSR_Addr_enum_of idx")
  case None then show ?thesis using assms(3) by (simp add: csrWrite_def machine_defs)
next
  case (Some c)
  have l: "csr_level c \<le> PrivMode_val (currentPrivMode s)" by (rule csr_check(1)[OF assms(1) Some])
  have m: "PrivMode_val (currentPrivMode s) < 3" using assms(2) by (cases "currentPrivMode s") simp_all
  have w: "machine_kept s (s\<lparr>status := st\<rparr>)" if "write_sstatus d (status s) = Inr st" for st
    using that by (auto simp: write_sstatus_def Let_def res_simps machine_defs ss_as_ms msf.get_put)
  have e: "((a AND NOT S_MODE_INT_MASK) OR (x AND S_MODE_INT_MASK)) AND NOT S_MODE_INT_MASK = a AND NOT S_MODE_INT_MASK"
    for a x by (rule bit_word_eqI) (auto simp: bit_simps)
  have "csr_level c \<noteq> 3" using l m by auto
  then have "c \<in> {csr_sstatus, csr_sie, csr_stvec, csr_scounteren, csr_sscratch, csr_sepc, csr_scause, csr_stval, csr_sip,
      csr_satp, csr_cycle, csr_time, csr_instret}" using csr_level_cases[of c] by auto
  then show ?thesis
    using assms(3) unfolding csrWrite_def Some
    by (elim insertE emptyE; hypsubst; simp only: option.case RV_CSR_Addr_enum.case)
      (auto simp: res_simps machine_defs e split: if_split_asm dest!: w)
qed

lemma raiseTrap_machine:
  assumes "raiseTrap cause tval s = Inr s'" shows "machine_kept s s'"
proof -
  obtain to_S where "s' = (if to_S then trap_to_S cause tval else trap_to_M cause tval) (s\<lparr>needTrap := True\<rparr>)"
    using assms by (rule raiseTrap_cases)
  then show ?thesis by (simp add: machine_defs trap_to_S_def trap_to_M_def ss_as_ms msf.get_put)
qed

lemma mmu_onlyE:
  assumes "mmu_only s s'" obtains b t i where "s' = s\<lparr>subBus := b, tlb := t, lastSwappedIndex := i\<rparr>"
  using assms unfolding mmu_only_def by blast

lemma mmu_only_machine:
  "mmu_only s s' \<Longrightarrow> machine_regs s' = machine_regs s \<and> machine_trap_regs s' = machine_trap_regs s"
  by (erule mmu_onlyE) (simp add: machine_regs_def machine_trap_regs_def)

lemma raise_after_mmu:
  "mmu_only s s1 \<Longrightarrow> raiseTrap cause tval s1 = Inr s' \<Longrightarrow> machine_kept s s'"
  using raiseTrap_machine[of cause tval s1 s'] mmu_only_machine[of s s1] by (auto simp: machine_kept_def)

lemma mmu_only_kept: "mmu_only s s1 \<Longrightarrow> machine_kept s s1"
  using mmu_only_machine[of s s1] by (simp add: machine_kept_def)

abbreviation keeps_machine :: "'b rv64core \<Rightarrow> 'b exec_res \<Rightarrow> bool" where
  "keeps_machine s out \<equiv> post (\<lambda>(_, ill, s'). machine_kept s s' \<and> (ill \<longrightarrow> s' = s)) out"

lemma memRead_machine: "memRead vt a n s = Inr (ok, b, s') \<Longrightarrow> machine_kept s s'"
  by (auto simp: memRead_def res_simps Let_def raise_exc_def split: if_split_asm
      dest: raiseTrap_machine dest!: mmu_load_frame intro: raise_after_mmu mmu_only_kept)

lemma memWrite_machine: "memWrite vt a bs s = Inr (ok, s') \<Longrightarrow> machine_kept s s'"
  by (auto simp: memWrite_def res_simps Let_def raise_exc_def split: if_split_asm
      dest: raiseTrap_machine dest!: mmu_store_frame intro: raise_after_mmu mmu_only_kept)

lemma kept_ends [simp]:
  "keeps_machine s (next_inst s') = machine_kept s s'" "keeps_machine s (jumped s') = machine_kept s s'"
  "keeps_machine s (illegal s') = (s' = s)" "machine_kept s s"
  by (auto simp: exec_ends machine_kept_def)

lemma csrWrite_False: "csrWrite s idx d = Inr (False, s') \<Longrightarrow> s' = s"
  by (auto simp: csrWrite_def res_simps split: option.splits RV_CSR_Addr_enum.splits if_splits)

lemma csrWrite_kept:
  "csrWrite s idx d = Inr (b, s') \<Longrightarrow> csr_op_permission_check s (ucast idx) wr \<Longrightarrow> currentPrivMode s \<noteq> M_MODE
     \<Longrightarrow> machine_kept s s' \<and> (\<not> b \<longrightarrow> s' = s)"
  using csrWrite_machine[of s idx wr d b s'] csrWrite_False[of s idx d s'] by (cases b) auto

lemma machine_kept_same [simp]:
  "machine_kept s (s'\<lparr>currentProgramCounter := p\<rparr>) = machine_kept s s'"
  "machine_kept s (s'\<lparr>GPR := g\<rparr>) = machine_kept s s'"
  "machine_kept s (s'\<lparr>minstret := n\<rparr>) = machine_kept s s'"
  "machine_kept s (s'\<lparr>needTrap := t\<rparr>) = machine_kept s s'"
  by (simp_all add: machine_defs)

lemma put_reg_kept [simp]: "machine_kept s s' \<Longrightarrow> keeps_machine s (put_reg rd v s')"
  by (simp add: put_reg_def)

lemma raise_kept:
  "keeps_machine s (bnd (raise_exc e t s) next_inst)" "keeps_machine s (bnd (raise_exc e t s) jumped)"
  "keeps_machine s (bnd (ecall s) next_inst)"
  by (auto simp: raise_exc_def ecall_def dest: raiseTrap_machine intro!: post_bndI)

lemma amo_result_kept: "mmu_only s s' \<Longrightarrow> keeps_machine s (amo_result e r a rd s')"
  by (auto simp: amo_result_def raise_exc_def mmu_only_kept dest: raise_after_mmu split: option.split intro!: post_bndI)

interpretation machine: instr_contract vt inst "\<lambda>s. currentPrivMode s \<noteq> M_MODE" keeps_machine for vt inst
proof (unfold_locales, goal_cases)
  case (4 s rd v p) show ?case by simp
next
  case (9 s n a g rd) show ?case
    unfolding load_reg_def by (rule post_bndI) (auto split: option.split dest: memRead_machine)
next
  case (10 s k a rs) show ?case
    unfolding store_reg_def by (rule post_bndI) (auto dest: memWrite_machine)
next
  case (11 s) show ?case
    by (auto simp: exec_AMO_def Let_def dest!: amo_frame lr_frame sc_frame intro!: post_bndI amo_result_kept
        split: option.split AMO_Funct_enum.split)
next
  case (12 s wr perm new) then show ?case
    by (auto simp: csr_instr_def Let_def dest!: csrWrite_kept intro!: post_bndI split: option.split if_split_asm)
next
  case (13 s) then show ?case by (simp add: mret_def)
next
  case (14 s) then show ?case
    by (simp add: sret_def Let_def machine_defs ss_as_ms msf.get_put)
next
  case (15 s v asid) then show ?case
    by (simp add: sfence_vma_def machine_defs SV39_FlushTLB_sfence_vma_def)
qed (simp_all add: raise_kept)

section \<open>A whole step\<close>

lemma machine_kept_trans:
  "machine_kept s s1 \<Longrightarrow> nextPrivMode s1 \<noteq> M_MODE \<Longrightarrow> machine_kept s1 s' \<Longrightarrow> machine_kept s s'"
  by (simp add: machine_kept_def)

lemma update_pending_machine: "machine_kept s (update_pending w s)"
  by (simp add: machine_defs update_pending_def)

lemma finish_kept:
  assumes "finish inst c (np, ill, s1) = Inr s'" shows "machine_kept s1 s'"
proof -
  obtain s2 where r: "(if ill then raise_exc exec_illegal_instr (ucast inst) s1 else Inr s1) = Inr s2"
    and s': "s' = s2\<lparr>currentProgramCounter := next_pc c np s2, minstret := minstret s2 + (if needTrap s2 then 0 else 1), needTrap := False\<rparr>"
    using finish_cases[OF assms] by blast
  have "machine_kept s1 s2"
    using r raiseTrap_machine[of _ _ s1 s2] unfolding raise_exc_def by (cases ill) auto
  then show ?thesis unfolding s' by simp
qed

lemma finish_nextPriv:
  "finish inst c (np, False, s1) = Inr s' \<Longrightarrow> nextPrivMode s' = nextPrivMode s1"
  by (drule finish_cases) auto

lemma step_kept:
  assumes below: "nextPrivMode s \<noteq> M_MODE" and st: "step w vt s = Inr s'"
  shows "machine_kept s s'"
proof -
  let ?p = "update_pending w s"
  have p: "machine_kept s ?p" "nextPrivMode ?p \<noteq> M_MODE" "currentPrivMode ?p \<noteq> M_MODE"
    using below update_pending_machine by (simp_all add: update_pending_def)
  from step_cases[OF st] show ?thesis
  proof (elim disjE exE conjE)
    fix s1 cause tval t i assume m: "mmu_only ?p s1" and r: "raiseTrap cause tval s1 = Inr t"
      and f: "finish i False (False, False, t) = Inr s'"
    have "machine_kept ?p t" using m r by (rule raise_after_mmu)
    moreover have "machine_regs s' = machine_regs t" "machine_trap_regs s' = machine_trap_regs t"
      using finish_cases[OF f] by (auto simp: machine_regs_def machine_trap_regs_def)
    ultimately show ?thesis
      using p(1,2) finish_nextPriv[OF f] by (simp add: machine_kept_def)
  next
    fix s1 inst np ill t assume m: "mmu_only ?p s1" and e: "exec_inst vt inst s1 = Inr (np, ill, t)"
      and f: "finish inst (is_compressed inst) (np, ill, t) = Inr s'"
    have s1: "machine_kept s s1" "nextPrivMode s1 \<noteq> M_MODE" "currentPrivMode s1 \<noteq> M_MODE"
      using m p machine_kept_trans[OF p(1,2) mmu_only_kept[OF m]] by (auto simp: mmu_only_core)
    have t: "machine_kept s1 t" "ill \<Longrightarrow> t = s1" using postD[OF machine.q_inst[OF s1(3)] e] by auto
    show ?thesis
    proof (cases ill)
      case True then show ?thesis using t s1 finish_kept[OF f] machine_kept_trans by blast
    next
      case False
      then have "machine_regs s' = machine_regs t" "machine_trap_regs s' = machine_trap_regs t" "nextPrivMode s' = nextPrivMode t"
        using finish_cases[OF f] by (auto simp: machine_regs_def machine_trap_regs_def)
      then show ?thesis using t(1) s1(1,2) by (simp add: machine_kept_def)
    qed
  qed
qed

section \<open>User mode\<close>

text \<open>
  The supervisor registers that only the supervisor sets, those that a trap also sets, and the
  place where a trap enters the handler of the mode it goes to.
\<close>

definition handler_regs :: "'b rv64core \<Rightarrow> u64 list" where
  "handler_regs s = [csrSTrapVecBaseAddr s, csrMTrapVecBaseAddr s, satp s, csrSscratch s, csrSCounterEN s, csrIntEnable s]"

definition trap_regs :: "'b rv64core \<Rightarrow> u64 list" where
  "trap_regs s = [status s, csrSExceptionPC s, csrSupervisorCause s, csrSupervisorTrapVal s,
     csrMExceptionPC s, csrMachineCause s, csrMachineTrapVal s]"

definition handler_entry :: "'b rv64core \<Rightarrow> PrivMode_e \<Rightarrow> u64 \<Rightarrow> bool" where
  "handler_entry s mode pc \<longleftrightarrow> mode \<in> {S_MODE, M_MODE} \<and>
     (\<exists>cause. pc = trap_vector (if mode = S_MODE then csrSTrapVecBaseAddr s else csrMTrapVecBaseAddr s) cause)"

definition confined :: "'b rv64core \<Rightarrow> 'b rv64core \<Rightarrow> bool" where
  "confined s s' \<longleftrightarrow> handler_regs s' = handler_regs s
     \<and> (if needTrap s' then handler_entry s (nextPrivMode s') (trapProgramCounter s')
        else trap_regs s' = trap_regs s \<and> nextPrivMode s' = nextPrivMode s)"

lemmas confined_defs = confined_def handler_regs_def trap_regs_def handler_entry_def

lemma raiseTrap_confined:
  assumes "raiseTrap cause tval s = Inr s'" shows "confined s s'"
proof -
  obtain to_S where "s' = (if to_S then trap_to_S cause tval else trap_to_M cause tval) (s\<lparr>needTrap := True\<rparr>)"
    using assms by (rule raiseTrap_cases)
  then show ?thesis by (auto simp: confined_defs trap_to_S_def trap_to_M_def)
qed

lemma mmu_only_confined: "mmu_only s s1 \<Longrightarrow> confined s1 s' = confined s s'"
  by (erule mmu_onlyE) (simp add: confined_defs)

abbreviation confines :: "'b rv64core \<Rightarrow> 'b exec_res \<Rightarrow> bool" where
  "confines s out \<equiv> post (\<lambda>(_, ill, s'). confined s s' \<and> (ill \<longrightarrow> s' = s)) out"

lemma confined_same [simp]:
  "confined s (s'\<lparr>currentProgramCounter := p\<rparr>) = confined s s'" "confined s (s'\<lparr>GPR := g\<rparr>) = confined s s'"
  by (simp_all add: confined_defs)

lemma confined_refl: "\<not> needTrap s \<Longrightarrow> confined s s"
  by (simp add: confined_def)

lemma raise_after_mmu_confined: "mmu_only s s1 \<Longrightarrow> raiseTrap cause tval s1 = Inr s' \<Longrightarrow> confined s s'"
  using raiseTrap_confined[of cause tval s1 s'] mmu_only_confined by blast

lemma mmu_confined: "mmu_only s s1 \<Longrightarrow> \<not> needTrap s \<Longrightarrow> confined s s1"
  using mmu_only_confined[of s s1 s1] confined_refl[of s1] mmu_only_core(2)[of s s1] by simp

lemma confines_ends [simp]:
  "confines s (next_inst s') = confined s s'" "confines s (jumped s') = confined s s'"
  "confines s (illegal s') = (s' = s \<and> confined s s)"
  by (auto simp: exec_ends)

lemma put_reg_confined [simp]: "confined s s' \<Longrightarrow> confines s (put_reg rd v s')"
  by (simp add: put_reg_def)

lemma memRead_confined: "memRead vt a n s = Inr (ok, b, s') \<Longrightarrow> \<not> needTrap s \<Longrightarrow> confined s s'"
  by (auto simp: memRead_def res_simps Let_def raise_exc_def split: if_split_asm
      dest: raiseTrap_confined dest!: mmu_load_frame intro: raise_after_mmu_confined mmu_confined)

lemma memWrite_confined: "memWrite vt a bs s = Inr (ok, s') \<Longrightarrow> \<not> needTrap s \<Longrightarrow> confined s s'"
  by (auto simp: memWrite_def res_simps Let_def raise_exc_def split: if_split_asm
      dest: raiseTrap_confined dest!: mmu_store_frame intro: raise_after_mmu_confined mmu_confined)

lemma raise_confined:
  "confines s (bnd (raise_exc e t s) next_inst)" "confines s (bnd (raise_exc e t s) jumped)"
  "confines s (bnd (ecall s) next_inst)"
  by (auto simp: raise_exc_def ecall_def dest: raiseTrap_confined intro!: post_bndI)

lemma amo_result_confined: "mmu_only s s' \<Longrightarrow> \<not> needTrap s \<Longrightarrow> confines s (amo_result e r a rd s')"
  by (auto simp: amo_result_def raise_exc_def mmu_confined dest: raise_after_mmu_confined split: option.split intro!: post_bndI)

text \<open>In user mode every CSR write is rejected: the only CSRs of the level are read-only.\<close>

lemma csr_user:
  assumes "csr_op_permission_check s (ucast idx) True" "currentPrivMode s = U_MODE"
  shows "csrRead s idx = None"
proof (cases "RV_CSR_Addr_enum_of idx")
  case (Some c)
  have "csr_level c \<le> 0" using csr_check(1)[OF assms(1) Some] assms(2) by simp
  then show ?thesis using csr_check(2)[OF assms(1) Some] by simp
qed (simp add: csrRead_def)

interpretation user: instr_contract vt inst "\<lambda>s. currentPrivMode s = U_MODE \<and> \<not> needTrap s" confines for vt inst
proof (unfold_locales, goal_cases)
  case (4 s rd v p) then show ?case by (simp add: confined_refl)
next
  case (9 s n a g rd) then show ?case
    unfolding load_reg_def by (intro post_bndI) (auto split: option.split dest: memRead_confined)
next
  case (10 s k a rs) then show ?case
    unfolding store_reg_def by (intro post_bndI) (auto dest: memWrite_confined)
next
  case (11 s) then show ?case
    by (auto simp: exec_AMO_def Let_def confined_refl dest!: amo_frame lr_frame sc_frame intro!: post_bndI amo_result_confined
        split: option.split AMO_Funct_enum.split)
next
  case (12 s wr perm new) then show ?case
    by (cases perm) (auto simp: csr_instr_def Let_def confined_refl csr_user split: option.split)
next
  case (14 s) then show ?case by (simp add: sret_def less_PrivMode_e_def confined_refl)
next
  case (15 s v asid) then show ?case by (simp add: sfence_vma_def less_PrivMode_e_def confined_refl)
qed (simp_all add: raise_confined confined_refl mret_def)

lemma update_pending_confined: "\<not> needTrap s \<Longrightarrow> confined s (update_pending w s)"
  by (simp add: confined_defs update_pending_def)

lemma user_step:
  assumes user: "nextPrivMode s = U_MODE" and st: "step w vt s = Inr s'"
  shows "handler_regs s' = handler_regs s
    \<and> (if nextPrivMode s' = U_MODE then trap_regs s' = trap_regs s
       else handler_entry s (nextPrivMode s') (currentProgramCounter s'))"
proof -
  let ?p = "update_pending w s"
  have p: "handler_regs ?p = handler_regs s" "trap_regs ?p = trap_regs s" "handler_entry ?p = handler_entry s"
    "nextPrivMode ?p = U_MODE" "currentPrivMode ?p = U_MODE" "\<not> needTrap ?p"
    using user by (simp_all add: update_pending_def handler_regs_def trap_regs_def handler_entry_def fun_eq_iff)
  have final: ?thesis
    if t: "confined ?p t" and f: "finish i c (np, False, t) = Inr s'" for t i c np
    using finish_cases[OF f] t p unfolding confined_def
    by (auto simp: handler_regs_def trap_regs_def next_pc_def handler_entry_def split: if_split_asm)
  from step_cases[OF st] show ?thesis
  proof (elim disjE exE conjE)
    fix s1 cause tval t i assume "mmu_only ?p s1" "raiseTrap cause tval s1 = Inr t" "finish i False (False, False, t) = Inr s'"
    then show ?thesis by (intro final raise_after_mmu_confined)
  next
    fix s1 inst np ill t assume m: "mmu_only ?p s1" and n: "\<not> needTrap s1" and e: "exec_inst vt inst s1 = Inr (np, ill, t)"
      and f: "finish inst (is_compressed inst) (np, ill, t) = Inr s'"
    have u: "currentPrivMode s1 = U_MODE" using mmu_only_core(5)[OF m] p by simp
    have t: "confined s1 t" "ill \<Longrightarrow> t = s1" using postD[OF user.q_inst e] u n by auto
    show ?thesis
    proof (cases ill)
      case False
      have "confined ?p t" using t(1) mmu_only_confined[OF m] by simp
      moreover have "finish inst (is_compressed inst) (np, False, t) = Inr s'" using f False by simp
      ultimately show ?thesis by (rule final)
    next
      case True
      then obtain c t' where r: "raiseTrap c (ucast inst) s1 = Inr t'"
        and "s' = t'\<lparr>currentProgramCounter := next_pc (is_compressed inst) np t', minstret := minstret t' + (if needTrap t' then 0 else 1), needTrap := False\<rparr>"
        using finish_cases[OF f] t(2) by (auto simp: raise_exc_def)
      moreover have "confined ?p t'" "needTrap t'" using raise_after_mmu_confined[OF m r] raiseTrap_frame(1)[OF r] by auto
      ultimately show ?thesis using p unfolding confined_def by (auto simp: handler_regs_def next_pc_def handler_entry_def)
    qed
  qed
qed

section \<open>Properties\<close>

text \<open>
  C3. User code is confined: a step that starts in user mode never changes the trap vectors, \<open>satp\<close>,
  \<open>sscratch\<close>, \<open>scounteren\<close> or the interrupt enables. Either it stays in user mode and leaves \<open>mstatus\<close> and every trap
  register alone, or the core is in supervisor or machine mode at the vector of that mode.
\<close>

theorem user_step_confined:
  assumes "nextPrivMode s = U_MODE" and "step w vt s = Inr s'"
  shows "handler_regs s' = handler_regs s
    \<and> (if nextPrivMode s' = U_MODE then trap_regs s' = trap_regs s
       else handler_entry s (nextPrivMode s') (currentProgramCounter s'))"
  using assms by (rule user_step)

theorem user_step_confined_witness:
  "\<exists>s'. step (\<lambda>_. False) (rom_vt 0x73) (user_core ()) = Inr s' \<and> handler_regs s' = handler_regs (user_core ())"
proof -
  have "returns (step (\<lambda>_. False) (rom_vt 0x73) (user_core ()))" by code_simp
  then obtain t where t: "step (\<lambda>_. False) (rom_vt 0x73) (user_core ()) = Inr t" by (auto simp: returns_iff)
  have "nextPrivMode (user_core ()) = U_MODE" by (simp add: user_core_def)
  from user_step_confined[OF this t] show ?thesis using t by blast
qed

text \<open>
  C4. Machine registers are protected: a step that starts below machine mode never changes \<open>mtvec\<close>, \<open>mscratch\<close>,
  \<open>medeleg\<close>, \<open>mideleg\<close>, \<open>mcounteren\<close>, \<open>misa\<close>, the hart id, the machine interrupt enables or the \<open>TVM\<close>, \<open>TW\<close> and \<open>TSR\<close>
  bits, and changes \<open>mepc\<close>, \<open>mcause\<close>, \<open>mtval\<close> and the machine interrupt stack of \<open>mstatus\<close> only by a trap to machine mode.
\<close>

theorem machine_regs_protected:
  assumes "nextPrivMode s \<noteq> M_MODE" and "step w vt s = Inr s'"
  shows "machine_regs s' = machine_regs s \<and> (nextPrivMode s' \<noteq> M_MODE \<longrightarrow> machine_trap_regs s' = machine_trap_regs s)"
  using step_kept[OF assms] by (simp add: machine_kept_def)

text \<open>A supervisor that writes \<open>sscratch\<close> with \<open>csrrwi\<close>.\<close>

theorem machine_regs_protected_witness:
  "\<exists>s'. step (\<lambda>_. False) (rom_vt 0x1402d073) (masked_core\<lparr>csrIntPending := 0\<rparr>) = Inr s'
     \<and> machine_regs s' = machine_regs masked_core"
proof -
  have "returns (step (\<lambda>_. False) (rom_vt 0x1402d073) (masked_core\<lparr>csrIntPending := 0\<rparr>))" by code_simp
  then obtain t where t: "step (\<lambda>_. False) (rom_vt 0x1402d073) (masked_core\<lparr>csrIntPending := 0\<rparr>) = Inr t"
    by (auto simp: returns_iff)
  have "nextPrivMode (masked_core\<lparr>csrIntPending := 0\<rparr>) \<noteq> M_MODE" by (simp add: masked_core_def)
  from machine_regs_protected[OF this t] show ?thesis using t by (auto simp: machine_regs_def)
qed

end
