(* ===== verification/Abort.thy ===== *)
theory Abort
  imports Isolation
begin

text \<open>
  When a step can abort the emulator, for a core without address translation on a bus that answers: a third
  interpretation of the contract of the instructions.
\<close>

section \<open>A bus that answers\<close>






section \<open>Traps\<close>



section \<open>Accesses\<close>




lemma put_reg_returns [simp]: "returns (put_reg rd v s)"
  by (simp add: put_reg_def next_inst_def)








section \<open>CSR writes\<close>







section \<open>A whole step\<close>






section \<open>Properties\<close>




end
