(* ===== verification/Decode.thy ===== *)
theory Decode
  imports Step
begin

text \<open>
  The decoder against the instruction set: the bits of the immediates, and every compressed instruction
  against the 32-bit instruction it abbreviates.
\<close>

section \<open>Immediates of the 32-bit formats\<close>

lemma bit_fld:
  assumes "RVInst_pos f = (lo, n)" "0 < n" "lo + n \<le> 32"
  shows "bit (fld inst f) k \<longleftrightarrow> k < 32 \<and> (if RVInst_signed f then bit inst (lo + min k (n - 1)) else k < n \<and> bit inst (lo + k))"
  using assms by (auto simp: fld_def bit_bf_get bit_signed_take_bit_iff bit_drop_bit_eq min_def dest: bit_imp_le_length)

lemmas fld_bits = bit_fld[OF RVInst_pos.simps(11), simplified RVInst_signed_def, simplified]
  bit_fld[OF RVInst_pos.simps(13), simplified RVInst_signed_def, simplified]
  bit_fld[OF RVInst_pos.simps(17), simplified RVInst_signed_def, simplified]
  bit_fld[OF RVInst_pos.simps(19), simplified RVInst_signed_def, simplified]
  bit_fld[OF RVInst_pos.simps(20), simplified RVInst_signed_def, simplified]
  bit_fld[OF RVInst_pos.simps(24), simplified RVInst_signed_def, simplified]
  bit_fld[OF RVInst_pos.simps(25), simplified RVInst_signed_def, simplified]
  bit_fld[OF RVInst_pos.simps(28), simplified RVInst_signed_def, simplified]
  bit_fld[OF RVInst_pos.simps(31), simplified RVInst_signed_def, simplified]
  bit_fld[OF RVInst_pos.simps(32), simplified RVInst_signed_def, simplified]
  bit_fld[OF RVInst_pos.simps(33), simplified RVInst_signed_def, simplified]
  bit_fld[OF RVInst_pos.simps(34), simplified RVInst_signed_def, simplified]

lemma bit_scast_32: "bit (scast (w :: u32) :: u64) k \<longleftrightarrow> k < 64 \<and> bit w (min k 31)"
  by (auto simp: bit_simps min_def)

lemma bit_push_32: "bit (push_bit n (w :: u32)) k \<longleftrightarrow> n \<le> k \<and> k < 32 \<and> bit w (k - n)"
  by (auto simp: bit_simps)

lemmas imm_bits = bit_scast_32 bit_push_32 bit_or_iff fld_bits

lemma imm_I: "bit (scast (fld inst i_imm12) :: u64) k \<longleftrightarrow> k < 64 \<and> bit inst (if k < 11 then k + 20 else 31)"
  unfolding imm_bits by (auto simp: min_def add.commute not_less)

lemma imm_S: "bit (scast (store_offset inst) :: u64) k \<longleftrightarrow>
    k < 64 \<and> bit inst (if k < 5 then k + 7 else if k < 11 then k + 20 else 31)"
  unfolding store_offset_def imm_bits by (cases "k = 11") (auto simp: min_def add.commute not_less)

lemma imm_B: "bit (scast (branch_offset inst) :: u64) k \<longleftrightarrow>
    k < 64 \<and> k \<noteq> 0 \<and> bit inst (if k < 5 then k + 7 else if k < 11 then k + 20 else if k = 11 then 7 else 31)"
  unfolding branch_offset_def imm_bits by (auto simp: min_def add.commute not_less)

lemma imm_J: "bit (scast (jal_offset inst) :: u64) k \<longleftrightarrow>
    k < 64 \<and> k \<noteq> 0 \<and> bit inst (if k < 11 then k + 20 else if k = 11 then 20 else if k < 20 then k else 31)"
  unfolding jal_offset_def imm_bits by (auto simp: min_def add.commute not_less)

lemma imm_U: "bit (push_bit 12 (scast (fld inst u_imm_31_12)) :: u64) k \<longleftrightarrow> 12 \<le> k \<and> k < 64 \<and> bit inst (if k < 31 then k else 31)"
  unfolding imm_bits bit_push_bit_iff by (cases "k = 31") (auto simp: min_def add.commute not_less)

section \<open>Immediates of the compressed formats\<close>

lemma bit_cc: "bit (cc inst r l shift) k \<longleftrightarrow> k < 32 \<and> shift \<le> k \<and> k - shift < r - l + 1 \<and> bit inst (l + (k - shift))"
proof -
  have "push_bit (r - l + 1) 1 - 1 = (mask (r - l + 1) :: u32)" by (simp add: mask_eq_exp_minus_1)
  then show ?thesis by (auto simp: cc_def binary_concat_def bit_simps add.commute dest: bit_imp_le_length)
qed

lemma bit_sext_from:
  assumes "\<And>j. n < j \<Longrightarrow> \<not> bit imm j" "n < 63"
  shows "bit (sext_from n imm) k \<longleftrightarrow> k < 64 \<and> bit imm (min k n)"
proof -
  have "drop_bit n imm \<noteq> 0 \<longleftrightarrow> bit imm n"
  proof
    assume "drop_bit n imm \<noteq> 0"
    then obtain j where "bit (drop_bit n imm) j" by (metis bit_eq_iff bit_0_eq bot_apply bot_bool_def)
    then have "bit imm (n + j)" by (simp add: bit_drop_bit_eq)
    then have "j = 0" using assms(1)[of "n + j"] by (cases "j = 0") auto
    then show "bit imm n" using \<open>bit imm (n + j)\<close> by simp
  next
    assume "bit imm n"
    then have "bit (drop_bit n imm) 0" by (simp add: bit_drop_bit_eq)
    then show "drop_bit n imm \<noteq> 0" by auto
  qed
  then show ?thesis
    using assms(1)[of k] by (auto simp: sext_from_def bit_simps min_def not_le dest: bit_imp_le_length)
qed

lemma imm_C6: "bit (sext_from 5 (c_imm6 inst)) k \<longleftrightarrow> k < 64 \<and> bit inst (if k < 5 then k + 2 else 12)"
proof -
  have "bit (sext_from 5 (c_imm6 inst)) k \<longleftrightarrow> k < 64 \<and> bit (c_imm6 inst) (min k 5)"
    by (rule bit_sext_from) (auto simp: c_imm6_def bit_cc bit_or_iff)
  then show ?thesis by (auto simp: c_imm6_def bit_cc bit_or_iff min_def add.commute not_less)
qed

lemma imm_CJ: "bit (c_j_imm inst) k \<longleftrightarrow> k < 64 \<and> k \<noteq> 0 \<and>
    bit inst (if k < 4 then k + 2 else if k = 4 then 11 else if k = 5 then 2 else if k = 6 then 7 else if k = 7 then 6
              else if k < 10 then k + 1 else if k = 10 then 8 else 12)"
proof -
  have "bit (c_j_imm inst) k \<longleftrightarrow> k < 64 \<and> bit (cc inst 12 12 11 OR cc inst 11 11 4 OR cc inst 10 9 8 OR cc inst 8 8 10 OR
                   cc inst 7 7 6 OR cc inst 6 6 7 OR cc inst 5 3 1 OR cc inst 2 2 5) (min k 11)"
    unfolding c_j_imm_def by (rule bit_sext_from) (auto simp: bit_cc bit_or_iff)
  note b = this
  show ?thesis
  proof (cases "k < 12")
    case True
    then have "k \<in> {0, 1, 2, 3, 4, 5, 6, 7, 8, 9, 10, 11}" unfolding insert_iff empty_iff by arith
    then show ?thesis unfolding b by (elim insertE emptyE; hypsubst; simp add: bit_cc bit_or_iff numeral_3_eq_3)
  next
    case False then show ?thesis unfolding b by (simp add: bit_cc bit_or_iff)
  qed
qed

section \<open>The encoder of the architecture\<close>

text \<open>
  The formats R, I, S, B, U and J as concatenations; the other five are the R format with the
  immediate cut into the fields.
\<close>

definition enc_R :: "7 word \<Rightarrow> reg \<Rightarrow> reg \<Rightarrow> 3 word \<Rightarrow> reg \<Rightarrow> 7 word \<Rightarrow> u32" where
  "enc_R f7 rs2 rs1 f3 rd op =
     push_bit 25 (ucast f7) OR push_bit 20 (ucast rs2) OR push_bit 15 (ucast rs1) OR push_bit 12 (ucast f3)
       OR push_bit 7 (ucast rd) OR ucast op"

definition enc_I :: "u64 \<Rightarrow> reg \<Rightarrow> 3 word \<Rightarrow> reg \<Rightarrow> 7 word \<Rightarrow> u32" where
  "enc_I imm rs1 f3 rd op = enc_R (ucast (drop_bit 5 imm)) (ucast imm) rs1 f3 rd op"

definition enc_S :: "u64 \<Rightarrow> reg \<Rightarrow> reg \<Rightarrow> 3 word \<Rightarrow> 7 word \<Rightarrow> u32" where
  "enc_S imm rs2 rs1 f3 op = enc_R (ucast (drop_bit 5 imm)) rs2 rs1 f3 (ucast imm) op"

definition enc_B :: "u64 \<Rightarrow> reg \<Rightarrow> reg \<Rightarrow> 3 word \<Rightarrow> 7 word \<Rightarrow> u32" where
  "enc_B imm rs2 rs1 f3 op =
     enc_R (ucast (bf_get 5 6 imm OR push_bit 6 (bf_get 12 1 imm))) rs2 rs1 f3
       (ucast (bf_set 0 1 (bf_get 11 1 imm) (bf_get 0 5 imm))) op"

definition enc_U :: "u64 \<Rightarrow> reg \<Rightarrow> 7 word \<Rightarrow> u32" where
  "enc_U imm rd op =
     enc_R (ucast (drop_bit 25 imm)) (ucast (drop_bit 20 imm)) (ucast (drop_bit 15 imm)) (ucast (drop_bit 12 imm)) rd op"

definition enc_J :: "u64 \<Rightarrow> reg \<Rightarrow> 7 word \<Rightarrow> u32" where
  "enc_J imm rd op =
     enc_R (ucast (bf_get 5 6 imm OR push_bit 6 (bf_get 20 1 imm))) (ucast (bf_set 0 1 (bf_get 11 1 imm) (bf_get 0 5 imm)))
       (ucast (bf_get 15 5 imm)) (ucast (bf_get 12 3 imm)) rd op"

lemma bit_enc_R: "bit (enc_R f7 rs2 rs1 f3 rd op) k \<longleftrightarrow>
    (if k < 7 then bit op k else if k < 12 then bit rd (k - 7) else if k < 15 then bit f3 (k - 12)
     else if k < 20 then bit rs1 (k - 15) else if k < 25 then bit rs2 (k - 20) else k < 32 \<and> bit f7 (k - 25))"
  by (auto simp: enc_R_def bit_simps dest: bit_imp_le_length)

lemma fld_enc_R [simp]:
  "rg (enc_R f7 rs2 rs1 f3 rd op) r_rd = rd" "rg (enc_R f7 rs2 rs1 f3 rd op) r_rs1 = rs1"
  "rg (enc_R f7 rs2 rs1 f3 rd op) r_rs2 = rs2" "fld (enc_R f7 rs2 rs1 f3 rd op) r_opcode = ucast op"
  "fld (enc_R f7 rs2 rs1 f3 rd op) r_funct3 = ucast f3" "fld (enc_R f7 rs2 rs1 f3 rd op) r_funct7 = ucast f7"
  by (rule bit_word_eqI; auto simp: rg_def fld_def RVInst_signed_def bit_bf_get bit_enc_R bit_ucast_iff dest: bit_imp_le_length)+

lemma same_place [simp]:
  "rg i i_rd = rg i r_rd" "rg i i_rs1 = rg i r_rs1" "rg i s_rs1 = rg i r_rs1" "rg i s_rs2 = rg i r_rs2"
  "rg i b_rs1 = rg i r_rs1" "rg i b_rs2 = rg i r_rs2" "rg i u_rd = rg i r_rd" "rg i j_rd = rg i r_rd"
  "fld i i_funct3 = fld i r_funct3" "fld i b_funct3 = fld i r_funct3"
  by (simp_all add: rg_def fld_def RVInst_signed_def)

lemma fld_enc [simp]:
  "rg (enc_I imm rs1 f3 rd op) r_rd = rd" "rg (enc_I imm rs1 f3 rd op) r_rs1 = rs1"
  "fld (enc_I imm rs1 f3 rd op) r_opcode = ucast op" "fld (enc_I imm rs1 f3 rd op) r_funct3 = ucast f3"
  "fld (enc_I imm rs1 f3 rd op) r_funct7 = ucast (ucast (drop_bit 5 imm) :: 7 word)"
  "rg (enc_S imm rs2 rs1 f3 op) r_rs1 = rs1" "rg (enc_S imm rs2 rs1 f3 op) r_rs2 = rs2"
  "fld (enc_S imm rs2 rs1 f3 op) r_opcode = ucast op" "fld (enc_S imm rs2 rs1 f3 op) r_funct3 = ucast f3"
  "rg (enc_B imm rs2 rs1 f3 op) r_rs1 = rs1" "rg (enc_B imm rs2 rs1 f3 op) r_rs2 = rs2"
  "fld (enc_B imm rs2 rs1 f3 op) r_opcode = ucast op" "fld (enc_B imm rs2 rs1 f3 op) r_funct3 = ucast f3"
  "rg (enc_U imm rd op) r_rd = rd" "fld (enc_U imm rd op) r_opcode = ucast op"
  "rg (enc_J imm rd op) r_rd = rd" "fld (enc_J imm rd op) r_opcode = ucast op"
  by (simp_all add: enc_I_def enc_S_def enc_B_def enc_U_def enc_J_def)

text \<open>The immediates come back from the encoding when they are sign extended to 64 bits.\<close>

lemma sext_bit: "signed_take_bit n imm = imm \<Longrightarrow> k < 64 \<Longrightarrow> n \<le> k \<Longrightarrow> bit imm k = bit imm n" for imm :: u64
  using bit_signed_take_bit_iff[of n imm k] by (simp add: min_def)

lemma enc_I_imm:
  assumes "signed_take_bit 11 imm = imm"
  shows "scast (fld (enc_I imm rs1 f3 rd op) i_imm12) = imm"
proof (rule bit_word_eqI)
  fix k assume k: "k < LENGTH(64)"
  show "bit (scast (fld (enc_I imm rs1 f3 rd op) i_imm12) :: u64) k = bit imm k"
    using k sext_bit[OF assms(1), of k]
    by (auto simp: imm_I enc_I_def bit_enc_R bit_ucast_iff bit_drop_bit_eq not_less add.commute)
qed

lemma enc_S_imm:
  assumes "signed_take_bit 11 imm = imm"
  shows "scast (store_offset (enc_S imm rs2 rs1 f3 op)) = imm"
proof (rule bit_word_eqI)
  fix k assume k: "k < LENGTH(64)"
  show "bit (scast (store_offset (enc_S imm rs2 rs1 f3 op)) :: u64) k = bit imm k"
    using k sext_bit[OF assms(1), of k]
    by (auto simp: imm_S enc_S_def bit_enc_R bit_ucast_iff bit_drop_bit_eq not_less add.commute)
qed

lemma enc_U_imm:
  assumes "signed_take_bit 31 imm = imm" "\<And>k. k < 12 \<Longrightarrow> \<not> bit imm k"
  shows "push_bit 12 (scast (fld (enc_U imm rd op) u_imm_31_12)) = imm"
proof (rule bit_word_eqI)
  fix k assume "k < LENGTH(64)"
  then show "bit (push_bit 12 (scast (fld (enc_U imm rd op) u_imm_31_12)) :: u64) k = bit imm k"
    using sext_bit[OF assms(1), of k] assms(2)[of k]
    by (auto simp: imm_U enc_U_def bit_enc_R bit_ucast_iff bit_drop_bit_eq not_less add.commute)
qed

lemma enc_B_imm:
  assumes "signed_take_bit 12 imm = imm" "\<not> bit imm 0"
  shows "scast (branch_offset (enc_B imm rs2 rs1 f3 op)) = imm"
proof (rule bit_word_eqI)
  fix k assume k: "k < LENGTH(64)"
  show "bit (scast (branch_offset (enc_B imm rs2 rs1 f3 op)) :: u64) k = bit imm k"
    using k sext_bit[OF assms(1), of k] assms(2)
    by (cases "k = 0") (auto simp: imm_B enc_B_def bit_enc_R bit_ucast_iff bit_or_iff bit_push_bit_iff bit_bf_get bit_bf_set not_less)
qed

lemma enc_J_imm:
  assumes "signed_take_bit 20 imm = imm" "\<not> bit imm 0"
  shows "scast (jal_offset (enc_J imm rd op)) = imm"
proof (rule bit_word_eqI)
  fix k assume k: "k < LENGTH(64)"
  show "bit (scast (jal_offset (enc_J imm rd op)) :: u64) k = bit imm k"
    using k sext_bit[OF assms(1), of k] assms(2)
    by (cases "k = 0") (auto simp: imm_J enc_J_def bit_enc_R bit_ucast_iff bit_or_iff bit_push_bit_iff bit_bf_get bit_bf_set not_less)
qed

section \<open>What the 32-bit instructions do, by encoding\<close>

lemmas enum_eval = RV64I_OpCode_enum_of_def RV64I_OpCode_enum_all_def Funct3_Load_enum_of_def Funct3_Load_enum_all_def
  Funct3_Store_enum_of_def Funct3_Store_enum_all_def Funct3_Op_enum_of_def Funct3_Op_enum_all_def
  Funct3_Branch_enum_of_def Funct3_Branch_enum_all_def Funct7_Op_enum_of_def Funct7_Op_enum_all_def
  Funct6_Op_enum_of_def Funct6_Op_enum_all_def enum_of_def

lemma exec_enc_load:
  assumes "signed_take_bit 11 imm = imm"
  shows "exec_full vt (enc_I imm rs1 2 rd 3) s = load_reg vt (GPR s rs1 + imm) 4 widen_s32 rd s"
    "exec_full vt (enc_I imm rs1 3 rd 3) s = load_reg vt (GPR s rs1 + imm) 8 word_of_bytes rd s"
  by (simp_all add: exec_full_def exec_LOAD_def enum_eval enc_I_imm[OF assms])

lemma exec_enc_store:
  assumes "signed_take_bit 11 imm = imm"
  shows "exec_full vt (enc_S imm rs2 rs1 2 35) s = store_reg vt (GPR s rs1 + imm) 4 rs2 s"
    "exec_full vt (enc_S imm rs2 rs1 3 35) s = store_reg vt (GPR s rs1 + imm) 8 rs2 s"
  by (simp_all add: exec_full_def exec_STORE_def enum_eval enc_S_imm[OF assms])

lemma exec_enc_opimm:
  assumes "signed_take_bit 11 imm = imm"
  shows "exec_full vt (enc_I imm rs1 0 rd 19) s = put_alu rd (GPR s rs1) imm ALU_ADD False s"
    "exec_full vt (enc_I imm rs1 7 rd 19) s = put_alu rd (GPR s rs1) imm ALU_AND False s"
    "exec_full vt (enc_I imm rs1 0 rd 27) s = put_alu rd (GPR s rs1) imm ALU_ADD True s"
  by (simp_all add: exec_full_def exec_OPIMM_def exec_OPIMM32_def opimm_decode_def opimm32_decode_def enum_eval enc_I_imm[OF assms])

lemma exec_enc_op:
  "exec_full vt (enc_R 0 rs2 rs1 0 rd 51) s = put_alu rd (GPR s rs1) (GPR s rs2) ALU_ADD False s"
  "exec_full vt (enc_R 32 rs2 rs1 0 rd 51) s = put_alu rd (GPR s rs1) (GPR s rs2) ALU_SUB False s"
  "exec_full vt (enc_R 0 rs2 rs1 4 rd 51) s = put_alu rd (GPR s rs1) (GPR s rs2) ALU_XOR False s"
  "exec_full vt (enc_R 0 rs2 rs1 6 rd 51) s = put_alu rd (GPR s rs1) (GPR s rs2) ALU_OR False s"
  "exec_full vt (enc_R 0 rs2 rs1 7 rd 51) s = put_alu rd (GPR s rs1) (GPR s rs2) ALU_AND False s"
  "exec_full vt (enc_R 0 rs2 rs1 0 rd 59) s = put_alu rd (GPR s rs1) (GPR s rs2) ALU_ADD True s"
  "exec_full vt (enc_R 32 rs2 rs1 0 rd 59) s = put_alu rd (GPR s rs1) (GPR s rs2) ALU_SUB True s"
  by (simp_all add: exec_full_def exec_OP_def exec_OP32_def op_decode_def op32_decode_def enum_eval)

lemma exec_enc_lui:
  assumes "signed_take_bit 31 imm = imm" "\<And>k. k < 12 \<Longrightarrow> \<not> bit imm k"
  shows "exec_full vt (enc_U imm rd 55) s = put_reg rd imm s"
  by (simp add: exec_full_def exec_LUI_def enum_eval enc_U_imm[OF assms])

lemma exec_enc_jal:
  assumes "signed_take_bit 20 imm = imm" "\<not> bit imm 0"
  shows "exec_full vt (enc_J imm rd 111) s = jump_link rd (currentProgramCounter s + imm) (currentProgramCounter s + 4) s"
  by (simp add: exec_full_def exec_JAL_def enum_eval enc_J_imm[OF assms])

lemma exec_enc_branch:
  assumes "signed_take_bit 12 imm = imm" "\<not> bit imm 0"
  shows "exec_full vt (enc_B imm rs2 rs1 0 99) s =
     (if GPR s rs1 = GPR s rs2 then
        if (currentProgramCounter s + imm) mod PC_ALIGN \<noteq> 0 then bnd (raise_exc exec_instr_misalign (currentProgramCounter s + imm) s) jumped
        else jumped (s\<lparr>currentProgramCounter := currentProgramCounter s + imm\<rparr>) else next_inst s)"
    "exec_full vt (enc_B imm rs2 rs1 1 99) s =
     (if GPR s rs1 \<noteq> GPR s rs2 then
        if (currentProgramCounter s + imm) mod PC_ALIGN \<noteq> 0 then bnd (raise_exc exec_instr_misalign (currentProgramCounter s + imm) s) jumped
        else jumped (s\<lparr>currentProgramCounter := currentProgramCounter s + imm\<rparr>) else next_inst s)"
  by (simp_all add: exec_full_def exec_BRANCH_def enum_eval enc_B_imm[OF assms] branch_taken_def)

lemma exec_enc_shift:
  assumes sh: "take_bit 6 sh = sh"
  shows "exec_full vt (enc_I sh rs1 1 rd 19) s = put_alu rd (GPR s rs1) sh ALU_SLL False s"
    "exec_full vt (enc_I sh rs1 5 rd 19) s = put_alu rd (GPR s rs1) sh ALU_SRL False s"
    "exec_full vt (enc_I (sh OR 0x400) rs1 5 rd 19) s = put_alu rd (GPR s rs1) sh ALU_SRA False s"
proof -
  have high: "\<not> bit sh k" if "6 \<le> k" for k using sh that by (metis bit_take_bit_iff not_le)
  have b400: "bit (0x400 :: u64) k \<longleftrightarrow> k = 10" for k using bit_push_1[of 10 k] by (auto simp: push_bit_of_1)
  have se: "signed_take_bit 11 sh = sh"
    by (rule bit_word_eqI) (auto simp: bit_signed_take_bit_iff high min_def)
  have se': "signed_take_bit 11 (sh OR 0x400) = sh OR 0x400"
  proof (rule bit_word_eqI)
    show "bit (signed_take_bit 11 (sh OR 0x400)) k = bit (sh OR 0x400) k" if "k < LENGTH(64)" for k
      using high[of k] b400[of k] b400[of 11] that unfolding bit_signed_take_bit_iff bit_or_iff by (auto simp: high min_def)
  qed
  have "unat sh < 64" using bf_get_lt[of 6 0 sh] sh by (simp add: bf_get_def)
  then have u: "0 \<le> uint sh" "uint sh < 64" unfolding uint_nat by linarith+
  then have "signed_take_bit 63 (uint sh) = uint sh" by (intro signed_take_bit_int_eq_self order.trans[OF _ u(1)]) simp_all
  then have lt: "\<not> 64 \<le>s sh" using u(2) by (simp add: word_sle_eq sint_uint)
  have f6: "drop_bit 1 (ucast (ucast (drop_bit 5 sh) :: 7 word)) = (0 :: u32)"
    by (rule bit_word_eqI, simp only: bit_drop_bit_eq bit_ucast_iff o_def) (auto simp: high)
  have f6': "drop_bit 1 (ucast (ucast (drop_bit 5 (sh OR 0x400)) :: 7 word)) = (16 :: u32)"
  proof (rule bit_word_eqI)
    fix k assume k: "k < LENGTH(32)"
    have "bit (16 :: u32) k \<longleftrightarrow> k = 4" using bit_push_32[of 4 1 k] k by (auto simp: push_bit_of_1 bit_1_iff)
    moreover have "bit (drop_bit 1 (ucast (ucast (drop_bit 5 (sh OR 0x400)) :: 7 word)) :: u32) k
        \<longleftrightarrow> k + 1 < 7 \<and> (bit sh (k + 6) \<or> bit (0x400 :: u64) (k + 6))"
      unfolding bit_drop_bit_eq bit_ucast_iff bit_or_iff o_def using k by (auto simp: add.commute)
    ultimately show "bit (drop_bit 1 (ucast (ucast (drop_bit 5 (sh OR 0x400)) :: 7 word)) :: u32) k = bit (16 :: u32) k"
      using high[of "k + 6"] b400[of "k + 6"] by auto
  qed
  have "push_bit 6 1 - 1 = (mask 6 :: u64)" by (simp add: mask_eq_exp_minus_1)
  then have low: "sh AND (push_bit 6 1 - 1) = sh" "(sh OR 0x400) AND (push_bit 6 1 - 1) = sh"
    using sh by (simp_all only: take_bit_eq_mask[symmetric] take_bit_or) simp
  show "exec_full vt (enc_I sh rs1 1 rd 19) s = put_alu rd (GPR s rs1) sh ALU_SLL False s"
    using lt by (simp add: exec_full_def exec_OPIMM_def opimm_decode_def enum_eval enc_I_imm[OF se])
  show "exec_full vt (enc_I sh rs1 5 rd 19) s = put_alu rd (GPR s rs1) sh ALU_SRL False s"
    using low by (simp add: exec_full_def exec_OPIMM_def opimm_decode_def enum_eval enc_I_imm[OF se] f6[unfolded One_nat_def])
  show "exec_full vt (enc_I (sh OR 0x400) rs1 5 rd 19) s = put_alu rd (GPR s rs1) sh ALU_SRA False s"
    using low by (simp add: exec_full_def exec_OPIMM_def opimm_decode_def enum_eval enc_I_imm[OF se'] f6'[simplified])
qed

section \<open>The compressed immediates are in range\<close>

lemma sextI:
  fixes imm :: u64
  assumes "\<And>k. n < k \<Longrightarrow> k < 64 \<Longrightarrow> bit imm k = bit imm n" shows "signed_take_bit n imm = imm"
proof (rule bit_word_eqI)
  fix k assume "k < LENGTH(64)"
  then show "bit (signed_take_bit n imm) k = bit imm k"
    using assms[of k] by (cases "n < k") (auto simp: bit_signed_take_bit_iff min_def)
qed

lemma small_sext: "(\<And>k. n \<le> k \<Longrightarrow> \<not> bit imm k) \<Longrightarrow> signed_take_bit n imm = imm" for imm :: u64
  by (rule sextI) simp

lemma small_take: "(\<And>k. n \<le> k \<Longrightarrow> \<not> bit imm k) \<Longrightarrow> take_bit n imm = imm" for imm :: u64
  by (rule bit_word_eqI) (metis bit_take_bit_iff not_le)

lemma min_sext:
  fixes imm :: u64
  assumes "\<And>k. bit imm k \<longleftrightarrow> k < 64 \<and> bit imm (min k m)" "m \<le> n" "n < 64"
  shows "signed_take_bit n imm = imm"
proof (rule sextI)
  show "bit imm k = bit imm n" if "n < k" "k < 64" for k
    using assms(1)[of k] assms(1)[of n] assms(2,3) that by (simp add: min_def)
qed

lemma imm_C16: "bit (c_addi16sp_imm inst) k \<longleftrightarrow> k < 64 \<and> bit (c_addi16sp_imm inst) (min k 9)"
  "\<not> bit (c_addi16sp_imm inst) 0"
proof -
  let ?m = "cc inst 12 12 9 OR cc inst 6 6 4 OR cc inst 5 5 6 OR cc inst 4 3 7 OR cc inst 2 2 5"
  have b: "bit (c_addi16sp_imm inst) k \<longleftrightarrow> k < 64 \<and> bit ?m (min k 9)" for k
    unfolding c_addi16sp_imm_def by (rule bit_sext_from) (auto simp: bit_cc bit_or_iff)
  show "bit (c_addi16sp_imm inst) k \<longleftrightarrow> k < 64 \<and> bit (c_addi16sp_imm inst) (min k 9)" "\<not> bit (c_addi16sp_imm inst) 0"
    unfolding b by (auto simp: bit_cc bit_or_iff)
qed

lemma imm_CLUI: "bit (c_lui_imm inst) k \<longleftrightarrow> k < 64 \<and> bit (c_lui_imm inst) (min k 17)"
  "k < 12 \<Longrightarrow> \<not> bit (c_lui_imm inst) k"
proof -
  let ?m = "cc inst 12 12 17 OR cc inst 6 2 12"
  have b: "bit (c_lui_imm inst) k \<longleftrightarrow> k < 64 \<and> bit ?m (min k 17)" for k
    unfolding c_lui_imm_def by (rule bit_sext_from) (auto simp: bit_cc bit_or_iff)
  show "bit (c_lui_imm inst) k \<longleftrightarrow> k < 64 \<and> bit (c_lui_imm inst) (min k 17)" "k < 12 \<Longrightarrow> \<not> bit (c_lui_imm inst) k"
    unfolding b by (auto simp: bit_cc bit_or_iff)
qed

lemma imm_CB: "bit (c_branch_imm inst) k \<longleftrightarrow> k < 64 \<and> bit (c_branch_imm inst) (min k 8)"
  "\<not> bit (c_branch_imm inst) 0"
proof -
  let ?m = "cc inst 12 12 8 OR cc inst 11 10 3 OR cc inst 6 5 6 OR cc inst 4 3 1 OR cc inst 2 2 5"
  have b: "bit (c_branch_imm inst) k \<longleftrightarrow> k < 64 \<and> bit ?m (min k 8)" for k
    unfolding c_branch_imm_def by (rule bit_sext_from) (auto simp: bit_cc bit_or_iff)
  show "bit (c_branch_imm inst) k \<longleftrightarrow> k < 64 \<and> bit (c_branch_imm inst) (min k 8)" "\<not> bit (c_branch_imm inst) 0"
    unfolding b by (auto simp: bit_cc bit_or_iff)
qed

lemma c_unsigned:
  "signed_take_bit 11 (c_addi4spn_imm i) = c_addi4spn_imm i" "signed_take_bit 11 (c_word_offset i) = c_word_offset i"
  "signed_take_bit 11 (c_double_offset i) = c_double_offset i" "signed_take_bit 11 (c_lwsp_imm i) = c_lwsp_imm i"
  "signed_take_bit 11 (c_ldsp_imm i) = c_ldsp_imm i" "signed_take_bit 11 (c_swsp_imm i) = c_swsp_imm i"
  "signed_take_bit 11 (c_sdsp_imm i) = c_sdsp_imm i"
  by (rule small_sext; force simp: c_addi4spn_imm_def c_word_offset_def c_double_offset_def c_lwsp_imm_def c_ldsp_imm_def
      c_swsp_imm_def c_sdsp_imm_def bit_cc bit_or_iff)+

lemma c_signed:
  "signed_take_bit 11 (sext_from 5 (c_imm6 i)) = sext_from 5 (c_imm6 i)" "take_bit 6 (c_imm6 i) = c_imm6 i"
  "signed_take_bit 20 (c_j_imm i) = c_j_imm i" "signed_take_bit 11 (c_addi16sp_imm i) = c_addi16sp_imm i"
  "signed_take_bit 31 (c_lui_imm i) = c_lui_imm i" "signed_take_bit 12 (c_branch_imm i) = c_branch_imm i"
  "\<not> bit (c_j_imm i) 0"
proof -
  show "signed_take_bit 11 (sext_from 5 (c_imm6 i)) = sext_from 5 (c_imm6 i)" by (rule sextI) (simp add: imm_C6)
  show "take_bit 6 (c_imm6 i) = c_imm6 i" by (rule small_take) (simp add: c_imm6_def bit_cc bit_or_iff)
  show "signed_take_bit 20 (c_j_imm i) = c_j_imm i" by (rule sextI) (simp add: imm_CJ)
  show "signed_take_bit 11 (c_addi16sp_imm i) = c_addi16sp_imm i"
    by (rule min_sext[OF imm_C16(1)]) simp_all
  show "signed_take_bit 31 (c_lui_imm i) = c_lui_imm i"
    by (rule min_sext[OF imm_CLUI(1)]) simp_all
  show "signed_take_bit 12 (c_branch_imm i) = c_branch_imm i"
    by (rule min_sext[OF imm_CB(1)]) simp_all
  show "\<not> bit (c_j_imm i) 0" by (simp add: imm_CJ)
qed

section \<open>The tables of the C extension\<close>

text \<open>
  The compressed formats as the instruction set manual prints them, with nothing taken from the decoder: the quadrant and
  \<open>funct3\<close> select the instruction, and an immediate is a list of the fields that hold it. A field is the place of its
  highest bit in the instruction and the bits of the immediate found there, downwards: \<open>(12, [5, 4, 3])\<close> is \<open>imm[5:3]\<close> in bits 12 to 10.
\<close>

definition imm_bit :: "u32 \<Rightarrow> nat \<Rightarrow> nat \<Rightarrow> u64" where
  "imm_bit c p d = (if bit c p then push_bit d 1 else 0)"

fun imm_field :: "u32 \<Rightarrow> nat \<Rightarrow> nat list \<Rightarrow> u64" where
  "imm_field c p [] = 0"
| "imm_field c p (d # ds) = imm_bit c p d OR imm_field c (p - 1) ds"

fun rvc_imm :: "u32 \<Rightarrow> (nat \<times> nat list) list \<Rightarrow> u64" where
  "rvc_imm c [] = 0"
| "rvc_imm c ((p, ds) # fs) = imm_field c p ds OR rvc_imm c fs"

text \<open>Register numbers of five bits, and of three for \<open>x8\<close> to \<open>x15\<close>.\<close>

definition rvc_reg :: "u32 \<Rightarrow> nat \<Rightarrow> reg" where
  "rvc_reg c p = ucast (drop_bit p c)"

definition rvc_reg3 :: "u32 \<Rightarrow> nat \<Rightarrow> reg" where
  "rvc_reg3 c p = 8 + ucast (ucast (drop_bit p c) :: 3 word)"

definition CI_imm :: "u32 \<Rightarrow> u64" where "CI_imm c = rvc_imm c [(12, [5]), (6, [4, 3, 2, 1, 0])]"
definition CL_word :: "u32 \<Rightarrow> u64" where "CL_word c = rvc_imm c [(12, [5, 4, 3]), (6, [2, 6])]"
definition CL_double :: "u32 \<Rightarrow> u64" where "CL_double c = rvc_imm c [(12, [5, 4, 3]), (6, [7, 6])]"
definition CIW_imm :: "u32 \<Rightarrow> u64" where "CIW_imm c = rvc_imm c [(12, [5, 4, 9, 8, 7, 6, 2, 3])]"
definition CI_16sp :: "u32 \<Rightarrow> u64" where "CI_16sp c = signed_take_bit 9 (rvc_imm c [(12, [9]), (6, [4, 6, 8, 7, 5])])"
definition CI_lui :: "u32 \<Rightarrow> u64" where "CI_lui c = signed_take_bit 17 (rvc_imm c [(12, [17]), (6, [16, 15, 14, 13, 12])])"
definition CJ_imm :: "u32 \<Rightarrow> u64" where "CJ_imm c = signed_take_bit 11 (rvc_imm c [(12, [11, 4, 9, 8, 10, 6, 7, 3, 2, 1, 5])])"
definition CB_imm :: "u32 \<Rightarrow> u64" where "CB_imm c = signed_take_bit 8 (rvc_imm c [(12, [8, 4, 3]), (6, [7, 6, 2, 1, 5])])"
definition CI_lwsp :: "u32 \<Rightarrow> u64" where "CI_lwsp c = rvc_imm c [(12, [5]), (6, [4, 3, 2, 7, 6])]"
definition CI_ldsp :: "u32 \<Rightarrow> u64" where "CI_ldsp c = rvc_imm c [(12, [5]), (6, [4, 3, 8, 7, 6])]"
definition CSS_word :: "u32 \<Rightarrow> u64" where "CSS_word c = rvc_imm c [(12, [5, 4, 3, 2, 7, 6])]"
definition CSS_double :: "u32 \<Rightarrow> u64" where "CSS_double c = rvc_imm c [(12, [5, 4, 3, 8, 7, 6])]"

text \<open>
  The expansions. \<open>None\<close> for reserved encodings, for \<open>c.jr\<close>, \<open>c.jalr\<close> and \<open>c.ebreak\<close> (the link of \<open>c.jalr\<close> is \<open>pc + 2\<close>, and
  \<open>jalr\<close> treats an odd target differently in this code), and for the floating point loads and stores.
\<close>

definition rvc_expand_alu :: "u32 \<Rightarrow> u32 option" where
  "rvc_expand_alu c =
     (let rd = rvc_reg3 c 7; rs2 = rvc_reg3 c 2; b = (\<lambda>k. bit c k) in
      if \<not> b 11 \<and> \<not> b 10 then Some (enc_I (CI_imm c) rd 5 rd 19)
      else if \<not> b 11 then Some (enc_I (CI_imm c OR 0x400) rd 5 rd 19)
      else if \<not> b 10 then Some (enc_I (signed_take_bit 5 (CI_imm c)) rd 7 rd 19)
      else if \<not> b 6 \<and> \<not> b 5 then Some (enc_R 32 rs2 rd 0 rd (if b 12 then 59 else 51))
      else if \<not> b 6 then Some (if b 12 then enc_R 0 rs2 rd 0 rd 59 else enc_R 0 rs2 rd 4 rd 51)
      else if b 12 then None
      else if \<not> b 5 then Some (enc_R 0 rs2 rd 6 rd 51) else Some (enc_R 0 rs2 rd 7 rd 51))"

definition rvc_expand :: "u32 \<Rightarrow> u32 option" where
  "rvc_expand c =
     (let quadrant = unat (take_bit 2 c); funct3 = unat (take_bit 3 (drop_bit 13 c));
          rd = rvc_reg c 7; rs2 = rvc_reg c 2; rd' = rvc_reg3 c 2; rs1' = rvc_reg3 c 7 in
      if quadrant = 0 then
        if funct3 = 0 then (if CIW_imm c = 0 then None else Some (enc_I (CIW_imm c) 2 0 rd' 19))
        else if funct3 = 2 then Some (enc_I (CL_word c) rs1' 2 rd' 3)
        else if funct3 = 3 then Some (enc_I (CL_double c) rs1' 3 rd' 3)
        else if funct3 = 6 then Some (enc_S (CL_word c) rd' rs1' 2 35)
        else if funct3 = 7 then Some (enc_S (CL_double c) rd' rs1' 3 35)
        else None
      else if quadrant = 1 then
        if funct3 = 0 then Some (enc_I (signed_take_bit 5 (CI_imm c)) rd 0 rd 19)
        else if funct3 = 1 then Some (enc_I (signed_take_bit 5 (CI_imm c)) rd 0 rd 27)
        else if funct3 = 2 then Some (enc_I (signed_take_bit 5 (CI_imm c)) 0 0 rd 19)
        else if funct3 = 3 then
          (if rd = 2 then if CI_16sp c = 0 then None else Some (enc_I (CI_16sp c) 2 0 2 19)
           else if CI_lui c = 0 then None else Some (enc_U (CI_lui c) rd 55))
        else if funct3 = 4 then rvc_expand_alu c
        else if funct3 = 5 then Some (enc_J (CJ_imm c) 0 111)
        else if funct3 = 6 then Some (enc_B (CB_imm c) 0 rs1' 0 99)
        else Some (enc_B (CB_imm c) 0 rs1' 1 99)
      else if quadrant = 2 then
        if funct3 = 0 then Some (enc_I (CI_imm c) rd 1 rd 19)
        else if funct3 = 2 then Some (enc_I (CI_lwsp c) 2 2 rd 3)
        else if funct3 = 3 then Some (enc_I (CI_ldsp c) 2 3 rd 3)
        else if funct3 = 4 then
          (if rs2 = 0 then None else Some (enc_R 0 rs2 (if bit c 12 then rd else 0) 0 rd 51))
        else if funct3 = 6 then Some (enc_S (CSS_word c) rs2 2 2 35)
        else if funct3 = 7 then Some (enc_S (CSS_double c) rs2 2 3 35)
        else None
      else None)"

text \<open>The decoder reads the same registers and immediates.\<close>

lemma bit_imm_bit: "bit (imm_bit c p d) k \<longleftrightarrow> k < 64 \<and> k = d \<and> bit c p"
  by (auto simp: imm_bit_def bit_simps bit_1_iff simp del: push_bit_of_1)

lemma cc_top: "s + n < 32 \<Longrightarrow> cc c (l + n) l s = imm_field c (l + n) (rev [s..<s + n + 1])"
proof (induction n)
  case 0
  then show ?case by (intro bit_word_eqI) (auto simp: bit_cc bit_imm_bit)
next
  case (Suc n)
  have "cc c (l + Suc n) l s = imm_bit c (l + Suc n) (s + Suc n) OR cc c (l + n) l s"
    using Suc.prems by (intro bit_word_eqI) (auto simp: bit_cc bit_imm_bit bit_or_iff less_Suc_eq)
  then show ?case using Suc by simp
qed

lemma cc_field: "l \<le> r \<Longrightarrow> s + (r - l) < 32 \<Longrightarrow> cc c r l s = imm_field c r (rev [s..<s + (r - l) + 1])"
  using cc_top[of s "r - l" c l] by simp

lemma sext_from_eq:
  assumes "\<And>j. n < j \<Longrightarrow> \<not> bit imm j" "n < 63" shows "sext_from n imm = signed_take_bit n imm"
  by (rule bit_word_eqI) (simp add: bit_sext_from[OF assms] bit_signed_take_bit_iff min.commute)

lemma small_upts: "[0..<5] = [0, 1, 2, 3, 4]"
  by (simp add: upt_rec)

lemmas place_bits = cc_field small_upts or.assoc or.commute or.left_commute

lemma decoder_immediates:
  "c_imm6 c = CI_imm c" "c_addi4spn_imm c = CIW_imm c" "c_word_offset c = CL_word c" "c_double_offset c = CL_double c"
  "c_lwsp_imm c = CI_lwsp c" "c_ldsp_imm c = CI_ldsp c" "c_swsp_imm c = CSS_word c" "c_sdsp_imm c = CSS_double c"
  by (simp_all add: c_imm6_def CI_imm_def c_addi4spn_imm_def CIW_imm_def c_word_offset_def CL_word_def c_double_offset_def CL_double_def
      c_lwsp_imm_def CI_lwsp_def c_ldsp_imm_def CI_ldsp_def c_swsp_imm_def CSS_word_def c_sdsp_imm_def CSS_double_def place_bits)

lemma decoder_signed_immediates:
  "sext_from 5 (c_imm6 c) = signed_take_bit 5 (CI_imm c)" "c_addi16sp_imm c = CI_16sp c" "c_lui_imm c = CI_lui c"
  "c_j_imm c = CJ_imm c" "c_branch_imm c = CB_imm c"
proof -
  show "sext_from 5 (c_imm6 c) = signed_take_bit 5 (CI_imm c)"
    by (subst sext_from_eq) (auto simp: decoder_immediates(1) CI_imm_def bit_imm_bit bit_or_iff)
  show "c_addi16sp_imm c = CI_16sp c"
    unfolding c_addi16sp_imm_def by (subst sext_from_eq) (auto simp: bit_imm_bit bit_or_iff CI_16sp_def place_bits)
  show "c_lui_imm c = CI_lui c"
    unfolding c_lui_imm_def by (subst sext_from_eq) (auto simp: bit_imm_bit bit_or_iff CI_lui_def place_bits)
  show "c_j_imm c = CJ_imm c"
    unfolding c_j_imm_def by (subst sext_from_eq) (auto simp: bit_imm_bit bit_or_iff CJ_imm_def place_bits numeral_eq_Suc)
  show "c_branch_imm c = CB_imm c"
    unfolding c_branch_imm_def by (subst sext_from_eq) (auto simp: bit_imm_bit bit_or_iff CB_imm_def place_bits numeral_eq_Suc)
qed

lemma bit_concat: "bit (binary_concat inst r l 0) k \<longleftrightarrow> k < 32 \<and> k < r - l + 1 \<and> bit inst (l + k)"
  using bit_cc[of inst r l 0 k] by (auto simp: cc_def bit_ucast_iff dest: bit_imp_le_length)

lemma decoder_registers:
  "cr c 11 7 = rvc_reg c 7" "cr c 6 2 = rvc_reg c 2" "cr8 c 9 7 = rvc_reg3 c 7" "cr8 c 4 2 = rvc_reg3 c 2"
proof -
  have 1: "ucast (binary_concat c r l 0) = (ucast (drop_bit l c) :: reg)" if "r = l + 4" for r l
    by (rule bit_word_eqI) (use that in \<open>auto simp: bit_ucast_iff bit_concat bit_drop_bit_eq\<close>)
  have 3: "ucast (binary_concat c r l 0) = (ucast (ucast (drop_bit l c) :: 3 word) :: reg)" if "r = l + 2" for r l
    by (rule bit_word_eqI) (use that in \<open>auto simp: bit_ucast_iff bit_concat bit_drop_bit_eq\<close>)
  show "cr c 11 7 = rvc_reg c 7" "cr c 6 2 = rvc_reg c 2" "cr8 c 9 7 = rvc_reg3 c 7" "cr8 c 4 2 = rvc_reg3 c 2"
    by (simp_all add: cr_def cr8_def rvc_reg_def rvc_reg3_def 1 3)
qed

text \<open>The opcode is the quadrant and \<open>funct3\<close> side by side.\<close>

lemma opcode_fields: "unat (rvc_opcode c) = 8 * unat (take_bit 2 c) + unat (take_bit 3 (drop_bit 13 c))"
  "unat (take_bit 2 c) < 4" "unat (take_bit 3 (drop_bit 13 c)) < 8"
proof -
  have m: "c AND 3 = take_bit 2 c" "drop_bit 13 c AND 7 = take_bit 3 (drop_bit 13 c)"
    by (simp_all add: take_bit_eq_mask mask_numeral)
  have lt: "unat (take_bit 2 c) < 4" "unat (take_bit 3 (drop_bit 13 c)) < 8"
    using take_bit_nat_less_exp[of 2 "unat c"] take_bit_nat_less_exp[of 3 "unat (drop_bit 13 c)"] by (simp_all add: unsigned_take_bit_eq)
  have "rvc_opcode c = push_bit 3 (take_bit 2 c) + take_bit 3 (drop_bit 13 c)"
    unfolding rvc_opcode_def m by (rule disjunctive_add[symmetric]) (auto simp: bit_simps)
  also have "\<dots> = 8 * take_bit 2 c + take_bit 3 (drop_bit 13 c)" by (simp add: push_bit_eq_mult)
  finally have "of_nat (8 * unat (take_bit 2 c) + unat (take_bit 3 (drop_bit 13 c))) = rvc_opcode c" by simp
  then show "unat (rvc_opcode c) = 8 * unat (take_bit 2 c) + unat (take_bit 3 (drop_bit 13 c))"
    by (rule of_nat_inverse) (use lt in simp)
  show "unat (take_bit 2 c) < 4" "unat (take_bit 3 (drop_bit 13 c)) < 8" by (fact lt)+
qed

section \<open>Compressed instructions abbreviate 32-bit instructions\<close>

text \<open>The same instructions in the terms of the decoder.\<close>

definition decode_C_ALU :: "u32 \<Rightarrow> u32 option" where
  "decode_C_ALU c =
     (let rd = cr8 c 9 7; rs2 = cr8 c 4 2; b = (\<lambda>k. bit c k) in
      if \<not> b 11 \<and> \<not> b 10 then Some (enc_I (c_imm6 c) rd 5 rd 19)
      else if \<not> b 11 then Some (enc_I (c_imm6 c OR 0x400) rd 5 rd 19)
      else if \<not> b 10 then Some (enc_I (sext_from 5 (c_imm6 c)) rd 7 rd 19)
      else if \<not> b 6 \<and> \<not> b 5 then Some (enc_R 32 rs2 rd 0 rd (if b 12 then 59 else 51))
      else if \<not> b 6 then Some (if b 12 then enc_R 0 rs2 rd 0 rd 59 else enc_R 0 rs2 rd 4 rd 51)
      else if b 12 then None
      else if \<not> b 5 then Some (enc_R 0 rs2 rd 6 rd 51) else Some (enc_R 0 rs2 rd 7 rd 51))"

definition rvc_decode :: "u32 \<Rightarrow> u32 option" where
  "rvc_decode c =
     (case RV64C_OpCode_enum_of (rvc_opcode c) of
        Some OPCODE_C_ADDI4SPN \<Rightarrow>
          if c_addi4spn_imm c = 0 then None else Some (enc_I (c_addi4spn_imm c) 2 0 (cr8 c 4 2) 19)
      | Some OPCODE_C_LW \<Rightarrow> Some (enc_I (c_word_offset c) (cr8 c 9 7) 2 (cr8 c 4 2) 3)
      | Some OPCODE_C_LD \<Rightarrow> Some (enc_I (c_double_offset c) (cr8 c 9 7) 3 (cr8 c 4 2) 3)
      | Some OPCODE_C_SW \<Rightarrow> Some (enc_S (c_word_offset c) (cr8 c 4 2) (cr8 c 9 7) 2 35)
      | Some OPCODE_C_SD \<Rightarrow> Some (enc_S (c_double_offset c) (cr8 c 4 2) (cr8 c 9 7) 3 35)
      | Some OPCODE_C_ADDI \<Rightarrow> Some (enc_I (sext_from 5 (c_imm6 c)) (cr c 11 7) 0 (cr c 11 7) 19)
      | Some OPCODE_C_ADDIW \<Rightarrow> Some (enc_I (sext_from 5 (c_imm6 c)) (cr c 11 7) 0 (cr c 11 7) 27)
      | Some OPCODE_C_LI \<Rightarrow> Some (enc_I (sext_from 5 (c_imm6 c)) 0 0 (cr c 11 7) 19)
      | Some OPCODE_C_ADDI16SPN_LUI \<Rightarrow>
          if cr c 11 7 = 2 then
            if c_addi16sp_imm c = 0 then None else Some (enc_I (c_addi16sp_imm c) 2 0 2 19)
          else if c_lui_imm c = 0 then None else Some (enc_U (c_lui_imm c) (cr c 11 7) 55)
      | Some OPCODE_C_ALU \<Rightarrow> decode_C_ALU c
      | Some OPCODE_C_J \<Rightarrow> Some (enc_J (c_j_imm c) 0 111)
      | Some OPCODE_C_BEQZ \<Rightarrow> Some (enc_B (c_branch_imm c) 0 (cr8 c 9 7) 0 99)
      | Some OPCODE_C_BNEZ \<Rightarrow> Some (enc_B (c_branch_imm c) 0 (cr8 c 9 7) 1 99)
      | Some OPCODE_C_SLLI \<Rightarrow> Some (enc_I (c_imm6 c) (cr c 11 7) 1 (cr c 11 7) 19)
      | Some OPCODE_C_LWSP \<Rightarrow> Some (enc_I (c_lwsp_imm c) 2 2 (cr c 11 7) 3)
      | Some OPCODE_C_LDSP \<Rightarrow> Some (enc_I (c_ldsp_imm c) 2 3 (cr c 11 7) 3)
      | Some OPCODE_C_JR_MV_EB_JALR_ADD \<Rightarrow>
          if cr c 6 2 = 0 then None
          else Some (enc_R 0 (cr c 6 2) (if bit c 12 then cr c 11 7 else 0) 0 (cr c 11 7) 51)
      | Some OPCODE_C_SWSP \<Rightarrow> Some (enc_S (c_swsp_imm c) (cr c 6 2) 2 2 35)
      | Some OPCODE_C_SDSP \<Rightarrow> Some (enc_S (c_sdsp_imm c) (cr c 6 2) 2 3 35)
      | None \<Rightarrow> None)"

lemma expand_alu_decode: "rvc_expand_alu c = decode_C_ALU c"
  unfolding rvc_expand_alu_def decode_C_ALU_def decoder_registers decoder_immediates decoder_signed_immediates[unfolded decoder_immediates] ..

lemma less_4_8: "(q :: nat) < 4 \<Longrightarrow> q = 0 \<or> q = 1 \<or> q = 2 \<or> q = 3" "(f :: nat) < 8 \<Longrightarrow> f = 0 \<or> f = 1 \<or> f = 2 \<or> f = 3 \<or> f = 4 \<or> f = 5 \<or> f = 6 \<or> f = 7"
  by linarith+

lemma expand_decode: "rvc_expand c = rvc_decode c"
proof -
  obtain q f where q: "unat (take_bit 2 c) = q" "q < 4" and f: "unat (take_bit 3 (drop_bit 13 c)) = f" "f < 8"
    using opcode_fields(2,3) by blast
  have "rvc_opcode c = of_nat (unat (rvc_opcode c))" by simp
  also have "\<dots> = of_nat (8 * q + f)" using opcode_fields(1)[of c] q f by simp
  finally have o: "rvc_opcode c = of_nat (8 * q + f)" .
  show ?thesis
    using less_4_8(1)[OF q(2)] less_4_8(2)[OF f(2)]
    unfolding rvc_expand_def rvc_decode_def o q(1) f(1) decoder_registers decoder_immediates
      decoder_signed_immediates[unfolded decoder_immediates] Let_def
    by (elim disjE; simp add: RV64C_OpCode_enum_of_def RV64C_OpCode_enum_all_def enum_of_def expand_alu_decode)
qed

text \<open>An addition of 0 to a register, and a shift by 0, change nothing; a sum with \<open>x0\<close> is a move.\<close>

lemma put_reg_same: "put_reg rd (GPR s rd) s = next_inst s"
  by (simp add: put_reg_def)

lemma put_alu_0:
  "put_alu rd (GPR s rd) 0 ALU_ADD False s = next_inst s" "put_alu rd (GPR s rd) 0 ALU_SLL False s = next_inst s"
  "put_alu rd (GPR s rd) 0 ALU_SRL False s = next_inst s" "put_alu rd (GPR s rd) 0 ALU_SRA False s = next_inst s"
  by (simp_all add: put_alu_def alu_exec_def put_reg_same)

lemma put_alu_add: "put_alu rd a b ALU_ADD False s = put_reg rd (a + b) s"
  by (simp add: put_alu_def alu_exec_def)

lemma one_bit_concat: "binary_concat c k k 0 = 0 \<longleftrightarrow> \<not> bit c k"
proof -
  have "binary_concat c k k 0 = of_bool (bit c k)"
    by (rule bit_word_eqI) (auto simp: binary_concat_def bit_simps bit_1_iff)
  then show ?thesis by simp
qed

lemma even_pc:
  assumes "(pc :: u64) mod PC_ALIGN = 0" "\<not> bit imm 0" shows "(pc + imm) mod PC_ALIGN = 0"
  using assms by (simp add: PC_ALIGN_def bit_0 flip: even_iff_mod_2_eq_zero)

lemma funct2_bits: "RV64C_Funct2_enum_of (binary_concat c 6 5 0) =
    Some (if bit c 6 then if bit c 5 then FUNCT2_AND else FUNCT2_OR else if bit c 5 then FUNCT2_XOR_ADDW else FUNCT2_SUB)"
proof -
  have "binary_concat c 6 5 0 = of_bool (bit c 5) + 2 * of_bool (bit c 6)"
  proof -
    have "binary_concat c 6 5 0 = of_bool (bit c 5) OR push_bit 1 (of_bool (bit c 6))"
      by (rule bit_word_eqI) (auto simp: binary_concat_def bit_simps bit_1_iff less_Suc_eq numeral_eq_Suc)
    then show ?thesis by (cases "bit c 5"; cases "bit c 6"; simp)
  qed
  then show ?thesis by (simp add: RV64C_Funct2_enum_of_def RV64C_Funct2_enum_all_def enum_of_def)
qed

lemma decode_C_ALU_exec:
  assumes "decode_C_ALU c = Some i" shows "exec_C_ALU c s = exec_full vt i s"
proof -
  note run = exec_enc_shift[OF c_signed(2)] exec_enc_opimm(2)[OF c_signed(1)]
  show ?thesis
  proof (cases "bit c 11")
    case False
    then show ?thesis
      using assms by (cases "bit c 10"; auto simp: decode_C_ALU_def exec_C_ALU_def Let_def one_bit_concat run split del: if_split; simp add: put_alu_0)
  next
    case True
    then show ?thesis
      using assms by (auto simp: decode_C_ALU_def exec_C_ALU_def Let_def one_bit_concat funct2_bits run exec_enc_op
          split: if_split_asm)
  qed
qed

lemma setGPR_0 [simp]: "setGPR s 0 v = Inr s"
  by (simp add: setGPR_def)

lemma rvc_exec:
  assumes x0: "GPR s 0 = 0" and pc: "currentProgramCounter s mod PC_ALIGN = 0" and e: "rvc_decode c = Some i"
  shows "exec_rvc vt c s = exec_full vt i s"
proof -
  note even = even_pc[OF pc c_signed(7)] even_pc[OF pc imm_CB(2)]
  note expand = exec_enc_load exec_enc_store exec_enc_opimm exec_enc_op exec_enc_lui exec_enc_jal exec_enc_branch exec_enc_shift
    c_signed c_unsigned imm_CLUI(2) imm_CB(2)
  note forms = exec_C_ADDI4SPN_def exec_C_LW_def exec_C_LD_def exec_C_SW_def exec_C_SD_def exec_C_ADDI_def
      exec_C_ADDIW_def exec_C_LI_def exec_C_J_def exec_C_BEQZ_def exec_C_BNEZ_def exec_C_SLLI_def exec_C_LWSP_def
      exec_C_LDSP_def exec_C_SWSP_def exec_C_SDSP_def exec_C_ADDI16SPN_LUI_def exec_C_JR_MV_EB_JALR_ADD_def
  obtain oc where oc: "RV64C_OpCode_enum_of (rvc_opcode c) = Some oc"
    using e by (auto simp: rvc_decode_def split: option.splits)
  show ?thesis
    using e x0 decode_C_ALU_exec[of c i s vt] unfolding rvc_decode_def exec_rvc_def oc
    by (cases oc) (auto simp: forms expand even Let_def put_alu_add put_alu_0 jump_link_def one_bit_concat put_reg_same
        split: if_split_asm)
qed

text \<open>
  C10. The compressed instruction set is an abbreviation: whenever a 16-bit word is the encoding of a compressed
  instruction of the tables of the architecture, from which \<open>rvc_expand\<close> makes the 32-bit word without any function of the
  decoder (its own bit by bit tables of the immediates, register fields, quadrants), the 200 lines of the compressed decoder
  do to every state and bus exactly what the decoder of 32-bit instructions does with that word, with \<open>x0\<close> and the
  program counter as the invariant keeps them.
\<close>

theorem rvc_expansion:
  assumes "rvc_expand c = Some i" and "GPR s 0 = 0" and "currentProgramCounter s mod PC_ALIGN = 0"
  shows "exec_rvc vt c s = exec_full vt i s"
  by (rule rvc_exec[OF assms(2,3)]) (use assms(1) in \<open>simp add: expand_decode\<close>)

text \<open>\<open>c.addi a0, 1\<close> is \<open>addi a0, a0, 1\<close>, on a core whose registers are 0.\<close>

theorem rvc_expansion_witness:
  "rvc_expand 0x505 = Some 0x00150513 \<and> exec_rvc (rom_vt 0) 0x505 (zero_core ()) = exec_full (rom_vt 0) 0x00150513 (zero_core ())"
proof -
  have e: "rvc_expand 0x505 = Some 0x00150513" by code_simp
  show ?thesis
    using e rvc_expansion[OF e, of "zero_core ()" "rom_vt 0"] by (simp add: zero_core_def PC_ALIGN_def)
qed

text \<open>
  C29. The immediates of all six formats round trip: an offset that fits its format, encoded as the architecture
  scatters it over the instruction, is the offset that the instruction gathers and sign extends to 64 bits.
\<close>

theorem immediates_roundtrip:
  assumes "signed_take_bit 11 imm12 = imm12"
    and "signed_take_bit 12 imm13 = imm13" and "\<not> bit imm13 0"
    and "signed_take_bit 20 imm21 = imm21" and "\<not> bit imm21 0"
    and "signed_take_bit 31 imm32 = imm32" and "take_bit 12 imm32 = 0"
  shows "scast (fld (enc_I imm12 rs1 f3 rd op) i_imm12) = imm12
    \<and> scast (store_offset (enc_S imm12 rs2 rs1 f3 op)) = imm12
    \<and> scast (branch_offset (enc_B imm13 rs2 rs1 f3 op)) = imm13
    \<and> scast (jal_offset (enc_J imm21 rd op)) = imm21
    \<and> exec_LUI (enc_U imm32 rd op) s = put_reg rd imm32 s"
proof -
  have "\<not> bit imm32 k" if "k < 12" for k
    using assms(7) that by (metis bit_0_eq bit_take_bit_iff bot_apply bot_bool_def)
  then have "push_bit 12 (scast (fld (enc_U imm32 rd op) u_imm_31_12)) = imm32" by (rule enc_U_imm[OF assms(6)])
  then show ?thesis
    using assms by (simp add: enc_I_imm enc_S_imm enc_B_imm enc_J_imm exec_LUI_def)
qed

theorem immediates_roundtrip_witness:
  "scast (jal_offset (enc_J (- 1048576) 1 111)) = (- 1048576 :: u64) \<and> scast (branch_offset (enc_B 0xffe 2 3 0 99)) = (0xffe :: u64)"
proof -
  have "signed_take_bit 12 (0xffe :: u64) = 0xffe" "\<not> bit (0xffe :: u64) 0" "signed_take_bit 20 (- 1048576 :: u64) = - 1048576"
    "\<not> bit (- 1048576 :: u64) 0" "signed_take_bit 11 (0 :: u64) = 0" "signed_take_bit 31 (0 :: u64) = 0" "take_bit 12 (0 :: u64) = 0"
    by code_simp+
  then show ?thesis
    using immediates_roundtrip[of 0 "0xffe" "- 1048576" 0] by blast
qed

text \<open>
  \<open>jalr\<close> clears the lowest bit of its immediate, and not of the sum, as the comment beside it wants: with an odd
  base register and an even offset it does not jump but raises an instruction address misaligned exception.
\<close>

theorem jalr_odd_base:
  assumes "signed_take_bit 11 imm = imm" and "\<not> bit imm 0" and "bit (GPR s rs1) 0"
  shows "exec_full vt (enc_I imm rs1 0 rd 103) s = bnd (raise_exc exec_instr_misalign (GPR s rs1 + imm) s) next_inst"
proof -
  have j: "scast (fld (enc_I imm rs1 0 rd 103) i_imm12 AND NOT 1) = imm"
  proof (rule bit_word_eqI)
    show "bit (scast (fld (enc_I imm rs1 0 rd 103) i_imm12 AND NOT 1) :: u64) k = bit imm k" if "k < LENGTH(64)" for k
    proof -
      have "bit (scast (fld (enc_I imm rs1 0 rd 103) i_imm12) :: u64) k = bit imm k" by (simp add: enc_I_imm[OF assms(1)])
      then show ?thesis
        using that assms(2) unfolding bit_scast_32 bit_and_iff by (cases "k = 0") (auto simp: bit_not_iff bit_1_iff min_def)
    qed
  qed
  have "(GPR s rs1 + imm) mod PC_ALIGN \<noteq> 0"
    using assms(2,3) by (simp add: PC_ALIGN_def bit_0 flip: even_iff_mod_2_eq_zero)
  then show ?thesis
    by (simp add: exec_full_def enum_eval exec_JALR_jump j[simplified] jump_link_def)
qed

theorem jalr_odd_base_witness:
  "exec_full (rom_vt 0) (enc_I 4 5 0 1 103) ((zero_core ())\<lparr>GPR := (\<lambda>_. 0x1001)\<rparr>)
     = bnd (raise_exc exec_instr_misalign 0x1005 ((zero_core ())\<lparr>GPR := (\<lambda>_. 0x1001)\<rparr>)) next_inst"
proof -
  have "signed_take_bit 11 (4 :: u64) = 4" "\<not> bit (4 :: u64) 0" "bit (0x1001 :: u64) 0" by code_simp+
  then show ?thesis
    using jalr_odd_base[of 4 "(zero_core ())\<lparr>GPR := (\<lambda>_. 0x1001)\<rparr>" 5 "rom_vt 0" 1] by simp
qed

end
