(* ===== verification/Debug.thy ===== *)
theory Debug
  imports Step
begin

text \<open>
  The debug interface of the core, \<open>src/rv64_debug.cpp\<close> and the register functions of \<open>src/rv64_common.cpp\<close>: reading and
  writing memory through the memory management unit, dumping and restoring the registers.
\<close>

datatype FuncReturnFeedback_e = MEMU_OK | MEMU_INVALID_PARAM | MEMU_NULL_PTR | MEMU_ADDR_CONFLICT | MEMU_INTNUM_CONFLICT
  | MEMU_INVALID_STATE | MEMU_NOT_FOUND | MEMU_NOT_ACCESSIBLE | MEMU_DATA_MODIFIED | MEMU_FILE_OPEN_ERR | MEMU_TIMEOUT
  | MEMU_ALIGNMENT_ERROR | MEMU_INVALID_ADDR | MEMU_PANIC | MEMU_UNKNOWN | MEMU_NOT_IMPL | MEMU_PROTOCOL_ERR
  | MEMU_CHKSUM_ERR | MEMU_MODULE_MISSING_ENV

record RegisterItem =
  reg_id :: u16
  disp_name :: string
  reg_size :: u8
  reg_val :: u64

definition GPR_NAME_ARR :: "string list" where
  "GPR_NAME_ARR =
     [''zero'', ''ra'', ''sp'', ''gp'', ''tp'', ''t0'', ''t1'', ''t2'',
      ''fp'', ''s1'', ''a0'', ''a1'', ''a2'', ''a3'', ''a4'', ''a5'',
      ''a6'', ''a7'', ''s2'', ''s3'', ''s4'', ''s5'', ''s6'', ''s7'',
      ''s8'', ''s9'', ''s10'', ''s11'', ''t3'', ''t4'', ''t5'', ''t6'']"

section \<open>Operations\<close>

text \<open>A buffer that the memory did not write is \<open>None\<close>.\<close>

definition MemRead_CoreDebugAPI :: "'b slave_atomic_io \<Rightarrow> u64 \<Rightarrow> u64 \<Rightarrow> 'b rv64core
    \<Rightarrow> (FuncReturnFeedback_e \<times> u8 list option \<times> 'b rv64core) res" where
  "MemRead_CoreDebugAPI vt start_addr len s =
     bnd (mmu_load vt s start_addr len) (\<lambda>(fb, b, s). Inr (if fb = FB_SUCCESS then MEMU_OK else MEMU_UNKNOWN, b, s))"

definition MemWrite_CoreDebugAPI :: "'b slave_atomic_io \<Rightarrow> u64 \<Rightarrow> u8 list \<Rightarrow> 'b rv64core
    \<Rightarrow> (FuncReturnFeedback_e \<times> 'b rv64core) res" where
  "MemWrite_CoreDebugAPI vt start_addr buffer s =
     bnd (mmu_store vt s start_addr buffer) (\<lambda>(fb, s). Inr (if fb = FB_SUCCESS then MEMU_OK else MEMU_UNKNOWN, s))"

definition DumpRegister_CoreAPI :: "'b rv64core \<Rightarrow> RegisterItem list \<Rightarrow> FuncReturnFeedback_e \<times> RegisterItem list" where
  "DumpRegister_CoreAPI s regs =
     (MEMU_OK, regs @ map (\<lambda>i. \<lparr>reg_id = of_nat i, disp_name = GPR_NAME_ARR ! i, reg_size = 8, reg_val = GPR s (of_nat i)\<rparr>) [0..<32]
        @ [\<lparr>reg_id = 32, disp_name = ''pc'', reg_size = 8, reg_val = currentProgramCounter s\<rparr>])"

definition WriteAllRegister_CoreAPI :: "RegisterItem list \<Rightarrow> 'b rv64core \<Rightarrow> FuncReturnFeedback_e \<times> 'b rv64core" where
  "WriteAllRegister_CoreAPI regs s =
     (if length regs \<noteq> 33 then (MEMU_INVALID_PARAM, s)
      else (MEMU_OK, s\<lparr>GPR := (\<lambda>r. reg_val (regs ! unat r)), currentProgramCounter := reg_val (regs ! 32)\<rparr>))"

definition writeProgramCounter :: "u64 \<Rightarrow> 'b rv64core \<Rightarrow> 'b rv64core" where
  "writeProgramCounter v s = s\<lparr>currentProgramCounter := v\<rparr>"

definition setGPRByIndex :: "u8 \<Rightarrow> u64 \<Rightarrow> 'b rv64core \<Rightarrow> 'b rv64core res" where
  "setGPRByIndex gpr_index v s =
     guard (gpr_index < 32) (Inr (if gpr_index = 0 then s else s\<lparr>GPR := (GPR s)(ucast gpr_index := v)\<rparr>))"

definition DumpProgramCounter_CoreAPI :: "'b rv64core \<Rightarrow> RegisterItem" where
  "DumpProgramCounter_CoreAPI s = \<lparr>reg_id = 33, disp_name = ''pc'', reg_size = 8, reg_val = currentProgramCounter s\<rparr>"

section \<open>Properties\<close>

lemma reg_less: "unat (r :: reg) < 32"
proof -
  have "unat r < 2 ^ LENGTH(5)" by (rule unsigned_less)
  then show ?thesis by simp
qed

lemma dump_vals:
  "map reg_val (snd (DumpRegister_CoreAPI s [])) = map (\<lambda>i. GPR s (of_nat i)) [0..<32] @ [currentProgramCounter s]"
  by (simp add: DumpRegister_CoreAPI_def comp_def)

text \<open>
  The register dump is complete: writing back the registers that were dumped changes nothing, a dump after a write
  of 33 registers shows the values written, and any other number of registers is refused without an effect. Register
  0 is no exception: a debugger can make \<open>x0\<close> differ from 0.
\<close>

theorem debug_registers_roundtrip:
  "WriteAllRegister_CoreAPI (snd (DumpRegister_CoreAPI s [])) s = (MEMU_OK, s)
   \<and> (length regs = 33 \<longrightarrow>
       map reg_val (snd (DumpRegister_CoreAPI (snd (WriteAllRegister_CoreAPI regs s)) [])) = map reg_val regs
       \<and> GPR (snd (WriteAllRegister_CoreAPI regs s)) 0 = reg_val (regs ! 0))
   \<and> (length regs \<noteq> 33 \<longrightarrow> WriteAllRegister_CoreAPI regs s = (MEMU_INVALID_PARAM, s))"
proof (intro conjI impI)
  have l: "length (snd (DumpRegister_CoreAPI s [])) = 33" by (simp add: DumpRegister_CoreAPI_def)
  have r: "reg_val (snd (DumpRegister_CoreAPI s []) ! unat r) = GPR s r" for r :: reg
    using reg_less[of r] by (simp add: DumpRegister_CoreAPI_def nth_append)
  have gpr: "(\<lambda>r. reg_val (snd (DumpRegister_CoreAPI s []) ! unat r)) = GPR s" by (rule ext, rule r)
  have pc: "reg_val (snd (DumpRegister_CoreAPI s []) ! 32) = currentProgramCounter s"
    by (simp add: DumpRegister_CoreAPI_def nth_append)
  show "WriteAllRegister_CoreAPI (snd (DumpRegister_CoreAPI s [])) s = (MEMU_OK, s)"
    using l pc gpr by (simp only: WriteAllRegister_CoreAPI_def not_True_eq_False if_False simp_thms) simp
next
  assume l: "length regs = 33"
  have u: "unat (of_nat i :: reg) = i" if "i < 32" for i using that by (intro unat_of_nat_small) simp
  show "map reg_val (snd (DumpRegister_CoreAPI (snd (WriteAllRegister_CoreAPI regs s)) [])) = map reg_val regs" (is "?d = ?v")
  proof (rule nth_equalityI)
    show "length ?d = length ?v" using l by (simp add: dump_vals)
    fix i assume "i < length ?d"
    then consider "i < 32" | "i = 32" by (fastforce simp: dump_vals)
    then show "?d ! i = ?v ! i"
      unfolding dump_vals using l u[of i] by cases (simp_all add: WriteAllRegister_CoreAPI_def nth_append)
  qed
  show "GPR (snd (WriteAllRegister_CoreAPI regs s)) 0 = reg_val (regs ! 0)"
    using l by (simp add: WriteAllRegister_CoreAPI_def)
qed (simp add: WriteAllRegister_CoreAPI_def)

text \<open>Writing 33 times the value 7 makes \<open>x0\<close> hold 7.\<close>

theorem debug_registers_roundtrip_witness:
  "GPR (snd (WriteAllRegister_CoreAPI (replicate 33 \<lparr>reg_id = 0, disp_name = [], reg_size = 8, reg_val = 7\<rparr>) (zero_core ()))) 0 = 7"
  using debug_registers_roundtrip[of "zero_core ()" "replicate 33 \<lparr>reg_id = 0, disp_name = [], reg_size = 8, reg_val = 7\<rparr>"]
  by simp

end
