(* ===== verification/Uartlite.thy ===== *)
theory Uartlite
  imports DevIf
begin

text \<open>
  The serial port \<open>Uartlite\<close> of \<open>modules/device/uartlite/include/Uartlite.hpp\<close>: four registers, a queue of bytes to
  send and a queue of received bytes, which an input thread fills and the guest empties. The functions that share a
  queue hold its mutex from the first access to the last, so each is one step of the model; the interleaving of the
  input thread, the guest and the clock is the relation \<open>uart_run\<close> below.
\<close>

section \<open>State and operations\<close>

record uartlite =
  u_rx_fifo :: u32
  u_tx_fifo :: u32
  u_status :: u32
  u_control :: u32
  u_devSize :: u64
  u_tx :: "u8 list"
  u_rx :: "u8 list"
  u_waitACK :: bool

definition CTRL_RST_TX :: u32 where "CTRL_RST_TX = 0x01"
definition CTRL_RST_RX :: u32 where "CTRL_RST_RX = 0x02"
definition RX_FIFO_VALID_DATA :: u32 where "RX_FIFO_VALID_DATA = push_bit 0 1"
definition TX_FIFO_EMPTY :: u32 where "TX_FIFO_EMPTY = push_bit 2 1"

definition uart_new :: "u64 \<Rightarrow> uartlite" where
  "uart_new dev_size =
     \<lparr>u_rx_fifo = 0, u_tx_fifo = 0, u_status = TX_FIFO_EMPTY, u_control = 0, u_devSize = dev_size,
      u_tx = [], u_rx = [], u_waitACK = False\<rparr>"

definition hasIRQ :: "uartlite \<Rightarrow> bool" where
  "hasIRQ u \<longleftrightarrow> u_rx u \<noteq> [] \<or> u_waitACK u"

text \<open>
  The loop of \<open>tick\<close> over the queue \<open>tx\<close>: the bytes given to the stream stub, or to \<open>putchar\<close> when there is none,
  and the flag \<open>waitACK\<close>.
\<close>

fun uart_drain :: "u8 list \<Rightarrow> bool \<Rightarrow> u8 list \<times> bool" where
  "uart_drain [] waitACK = ([], waitACK)"
| "uart_drain (c # tx) waitACK =
     (let (out, ack) = uart_drain tx (if tx = [] then True else waitACK) in (c # out, ack))"

text \<open>
  \<open>intc\<close> is the interrupt controller the constructor was given, if any: its \<open>setInt\<close> on its state \<open>w\<close>.
\<close>

definition uart_tick :: "('w \<Rightarrow> u32 \<Rightarrow> bool \<Rightarrow> 'w res) option \<Rightarrow> uartlite \<Rightarrow> 'w \<Rightarrow> (u8 list \<times> uartlite \<times> 'w) res" where
  "uart_tick intc u w =
     bnd (case intc of Some setInt \<Rightarrow> setInt w 1 (hasIRQ u) | None \<Rightarrow> Inr w) (\<lambda>w.
       let (out, ack) = uart_drain (u_tx u) (u_waitACK u) in Inr (out, u\<lparr>u_tx := [], u_waitACK := ack\<rparr>, w))"

text \<open>One turn of the loop of the input thread.\<close>

definition readInput :: "u8 \<Rightarrow> uartlite \<Rightarrow> uartlite" where
  "readInput c u = u\<lparr>u_rx := u_rx u @ [c]\<rparr>"

text \<open>The register file as the 16 bytes that \<open>memcpy\<close> reads and writes.\<close>

definition regs_bytes :: "uartlite \<Rightarrow> u8 list" where
  "regs_bytes u = bytes_of_list 4 [u_rx_fifo u, u_tx_fifo u, u_status u, u_control u]"

definition regs_set :: "uartlite \<Rightarrow> u8 list \<Rightarrow> uartlite" where
  "regs_set u bs =
     (let ws = words_of_bytes 4 4 bs in
      u\<lparr>u_rx_fifo := ws ! 0, u_tx_fifo := ws ! 1, u_status := ws ! 2, u_control := ws ! 3\<rparr>)"

definition accessed :: "u64 \<Rightarrow> u64 \<Rightarrow> u64 \<Rightarrow> bool" where
  "accessed begin_addr len offset \<longleftrightarrow> begin_addr \<le> offset \<and> offset \<le> begin_addr + len - 1"

text \<open>\<open>%\<close> by a size of 0 is undefined.\<close>

definition uart_load :: "uartlite load_fn" where
  "uart_load u addr len =
     (if u_devSize u = 0 then Inl Undefined else
      let begin_addr = addr mod u_devSize u in
      if begin_addr + len > 16 then Inr (FB_OUT_OF_RANGE, Some (replicate (unat len) 0), u)
      else
        let u = (if u_rx u \<noteq> []
                 then u\<lparr>u_status := u_status u OR RX_FIFO_VALID_DATA, u_rx_fifo := ucast (hd (u_rx u))\<rparr>
                 else u\<lparr>u_status := u_status u AND NOT RX_FIFO_VALID_DATA\<rparr>) in
        bnd (mem_read (regs_bytes u) (unat begin_addr) (unat len)) (\<lambda>buffer.
          let u = u\<lparr>u_waitACK := False\<rparr>;
              u = (if accessed begin_addr len 0 then if u_rx u \<noteq> [] then u\<lparr>u_rx := tl (u_rx u)\<rparr> else u else u)
          in Inr (FB_SUCCESS, Some buffer, u)))"

definition uart_store :: "uartlite store_fn" where
  "uart_store u addr buffer =
     (if u_devSize u = 0 then Inl Undefined else
      let begin_addr = addr mod u_devSize u; len = of_nat (length buffer) in
      if begin_addr + len > 16 then Inl AssertFail
      else
        bnd (mem_write (regs_bytes u) (unat begin_addr) buffer) (\<lambda>bs.
          let u = regs_set u bs;
              u = (if accessed begin_addr len 4 then u\<lparr>u_tx := u_tx u @ [ucast (u_tx_fifo u)]\<rparr> else u);
              u = (if accessed begin_addr len 12 then
                     let u = (if u_control u AND CTRL_RST_TX \<noteq> 0 then u\<lparr>u_tx := []\<rparr> else u) in
                     if u_control u AND CTRL_RST_RX \<noteq> 0 then u\<lparr>u_rx := []\<rparr> else u
                   else u)
          in Inr (FB_SUCCESS, u)))"

section \<open>The contract of a device\<close>

definition uart_wf :: "uartlite \<Rightarrow> bool" where
  "uart_wf u \<longleftrightarrow> u_devSize u \<noteq> 0"

lemma regs_set_queues [simp]:
  "u_tx (regs_set u bs) = u_tx u" "u_rx (regs_set u bs) = u_rx u" "u_devSize (regs_set u bs) = u_devSize u"
  "u_waitACK (regs_set u bs) = u_waitACK u"
  by (simp_all add: regs_set_def Let_def)

lemma length_regs_bytes [simp]: "length (regs_bytes u) = 16"
  by (simp add: regs_bytes_def)

interpretation ua: slave uart_load uart_store uart_wf
proof unfold_locales
  fix s s' a n fb b
  assume "uart_wf s" "uart_load s a n = Inr (fb, b, s')"
  then show "uart_wf s'"
    by (auto simp: uart_wf_def uart_load_def Let_def bnd_eq_Inr split: if_split_asm)
next
  fix s s' a fb bs
  assume "uart_wf s" "uart_store s a bs = Inr (fb, s')"
  then show "uart_wf s'"
    by (auto simp: uart_wf_def uart_store_def Let_def bnd_eq_Inr split: if_split_asm)
next
  fix s s' a n fb bs
  assume "uart_load s a n = Inr (fb, Some bs, s')"
  then show "length bs = unat n"
    by (auto simp: uart_load_def Let_def bnd_eq_Inr dest: mem_read_length split: if_split_asm)
qed

section \<open>Interleavings\<close>

text \<open>
  What happened so far: the bytes typed, the bytes the guest read, the bytes it wrote to
  the transmit register and the bytes printed. A byte is read by a load from the receive register that returns while the bit
  \<open>RX_FIFO_VALID_DATA\<close> of the status register is set: the first byte of what the load returns. \<open>uart_run n intc\<close> holds of the histories and devices that any interleaving
  of the input thread, guest accesses of at least one byte and ticks reaches from a new device of size \<open>n\<close> connected to the controller \<open>intc\<close>, as long
  as the guest does not reset the queues. A store sends the byte of its buffer that falls on the transmit register.
\<close>

record uart_hist =
  typed :: "u8 list"
  got :: "u8 list"
  sent :: "u8 list"
  printed :: "u8 list"

inductive uart_run :: "u64 \<Rightarrow> ('w \<Rightarrow> u32 \<Rightarrow> bool \<Rightarrow> 'w res) option \<Rightarrow> uart_hist \<Rightarrow> uartlite \<Rightarrow> bool"
  for n intc where
  run_new: "uart_run n intc \<lparr>typed = [], got = [], sent = [], printed = []\<rparr> (uart_new n)"
| run_key: "uart_run n intc h u \<Longrightarrow> uart_run n intc (h\<lparr>typed := typed h @ [c]\<rparr>) (readInput c u)"
| run_load: "uart_run n intc h u \<Longrightarrow> len \<noteq> 0 \<Longrightarrow> uart_load u a len = Inr (fb, Some bs, u') \<Longrightarrow>
    uart_run n intc (h\<lparr>got := got h @ (if a mod n = 0 \<and> fb = FB_SUCCESS \<and> bit (u_status u') 0 then [hd bs] else [])\<rparr>) u'"
| run_store: "uart_run n intc h u \<Longrightarrow> bs \<noteq> [] \<Longrightarrow> uart_store u a bs = Inr (fb, u') \<Longrightarrow>
    u_control u' AND (CTRL_RST_TX OR CTRL_RST_RX) = 0 \<Longrightarrow>
    uart_run n intc (h\<lparr>sent := sent h @ (if a mod n \<le> 4 \<and> 4 < unat (a mod n) + length bs then [bs ! (4 - unat (a mod n))] else [])\<rparr>) u'"
| run_tick: "uart_run n intc h u \<Longrightarrow> uart_tick intc u w = Inr (out, u', w') \<Longrightarrow>
    uart_run n intc (h\<lparr>printed := printed h @ out\<rparr>) u'"

lemma uart_drain_out: "uart_drain tx ack = (tx, tx \<noteq> [] \<or> ack)"
  by (induction tx arbitrary: ack) auto

lemma uart_tick_eq:
  "uart_tick intc u w = bnd (case intc of Some setInt \<Rightarrow> setInt w 1 (hasIRQ u) | None \<Rightarrow> Inr w)
     (\<lambda>w. Inr (u_tx u, u\<lparr>u_tx := [], u_waitACK := u_tx u \<noteq> [] \<or> u_waitACK u\<rparr>, w))"
  by (simp add: uart_tick_def uart_drain_out)

lemma nth_regs_bytes: "i < 4 \<Longrightarrow> regs_bytes u ! i = ucast (drop_bit (8 * i) (u_rx_fifo u))"
  by (simp add: regs_bytes_def bytes_of_list_Cons nth_append)

lemma ucast_word_of_bytes: "bs \<noteq> [] \<Longrightarrow> ucast (word_of_bytes bs :: u32) = hd bs"
proof (cases bs)
  case (Cons b cs)
  show "bs \<noteq> [] \<Longrightarrow> ucast (word_of_bytes bs :: u32) = hd bs"
    unfolding Cons by (rule bit_word_eqI) (simp add: bit_simps)
qed simp

lemma regs_set_tx: "length bs = 16 \<Longrightarrow> ucast (u_tx_fifo (regs_set u bs)) = bs ! 4"
proof -
  assume l: "length bs = 16"
  then have "take 4 (drop 4 bs) \<noteq> []" by simp
  moreover have "hd (take 4 (drop 4 bs)) = bs ! 4" using l by (simp add: hd_drop_conv_nth)
  ultimately have "ucast (word_of_bytes (take 4 (drop 4 bs)) :: u32) = bs ! 4" by (metis ucast_word_of_bytes)
  moreover have "u_tx_fifo (regs_set u bs) = word_of_bytes (take 4 (drop 4 bs))"
    by (simp add: regs_set_def Let_def numeral_eq_Suc)
  ultimately show ?thesis by simp
qed

lemma accessed_iff:
  fixes a len :: u64
  assumes "unat a + unat len \<le> 16" and "len \<noteq> 0" and "off \<le> 15"
  shows "accessed a len off \<longleftrightarrow> unat a \<le> unat off \<and> unat off < unat a + unat len"
proof -
  have u: "unat (a + len) = unat a + unat len"
    using assms(1) by (simp add: unat_word_ariths)
  have "unat len \<noteq> 0" using assms(2) by (simp add: unat_eq_zero)
  then have "a + len \<noteq> 0" using u by (metis add_is_0 unat_0)
  then have "unat (a + len - 1) = unat a + unat len - 1" using u by (simp add: unat_minus_one)
  then show ?thesis
    using \<open>unat len \<noteq> 0\<close> by (auto simp: accessed_def word_le_nat_alt)
qed

text \<open>The status register and the head of the queue as a load sees them.\<close>

definition uart_latch :: "uartlite \<Rightarrow> uartlite" where
  "uart_latch u = (if u_rx u \<noteq> [] then u\<lparr>u_status := u_status u OR RX_FIFO_VALID_DATA, u_rx_fifo := ucast (hd (u_rx u))\<rparr>
     else u\<lparr>u_status := u_status u AND NOT RX_FIFO_VALID_DATA\<rparr>)"

lemma uart_latch_simps [simp]:
  "u_tx (uart_latch u) = u_tx u" "u_rx (uart_latch u) = u_rx u" "u_devSize (uart_latch u) = u_devSize u"
  "u_rx u \<noteq> [] \<Longrightarrow> u_rx_fifo (uart_latch u) = ucast (hd (u_rx u))"
  by (simp_all add: uart_latch_def)

lemma uart_load_eq:
  "u_devSize u \<noteq> 0 \<Longrightarrow> uart_load u addr len =
     (if addr mod u_devSize u + len > 16 then Inr (FB_OUT_OF_RANGE, Some (replicate (unat len) 0), u)
      else bnd (mem_read (regs_bytes (uart_latch u)) (unat (addr mod u_devSize u)) (unat len)) (\<lambda>buffer.
        Inr (FB_SUCCESS, Some buffer, 
          if accessed (addr mod u_devSize u) len 0 \<and> u_rx u \<noteq> []
          then (uart_latch u)\<lparr>u_waitACK := False, u_rx := tl (u_rx u)\<rparr> else (uart_latch u)\<lparr>u_waitACK := False\<rparr>)))"
  unfolding uart_load_def Let_def uart_latch_def[symmetric]
  by (cases "accessed (addr mod u_devSize u) len 0"; cases "u_rx u = []"; simp)

lemma uart_load_cases:
  assumes "uart_load u a len = Inr (fb, Some bs, u')" and "len \<noteq> 0"
  shows "u_tx u' = u_tx u \<and> u_devSize u' = u_devSize u
    \<and> u_rx u = (if a mod u_devSize u = 0 \<and> fb = FB_SUCCESS \<and> bit (u_status u') 0 then hd bs # u_rx u' else u_rx u')"
proof -
  let ?a = "a mod u_devSize u"
  have d: "u_devSize u \<noteq> 0" using assms(1) by (auto simp: uart_load_def)
  show ?thesis
  proof (cases "?a + len > 16")
    case True then show ?thesis using assms(1) unfolding uart_load_eq[OF d] by (simp add: FB_defs)
  next
    case False
    then have r: "mem_read (regs_bytes (uart_latch u)) (unat ?a) (unat len) = Inr bs" and fb: "fb = FB_SUCCESS"
      and u': "u' = (if accessed ?a len 0 \<and> u_rx u \<noteq> []
          then (uart_latch u)\<lparr>u_waitACK := False, u_rx := tl (u_rx u)\<rparr> else (uart_latch u)\<lparr>u_waitACK := False\<rparr>)"
      using assms(1) unfolding uart_load_eq[OF d] by (auto simp: bnd_eq_Inr)
    have acc: "accessed ?a len 0 \<longleftrightarrow> ?a = 0" by (auto simp: accessed_def)
    have st: "bit (u_status u') 0 \<longleftrightarrow> u_rx u \<noteq> []"
      unfolding u' by (simp add: uart_latch_def RX_FIFO_VALID_DATA_def bit_simps flip: bit_0)
    show ?thesis
    proof (cases "?a = 0 \<and> u_rx u \<noteq> []")
      case True
      have "0 < unat len" using assms(2) by (simp add: unat_gt_0)
      then have "bs ! 0 = regs_bytes (uart_latch u) ! 0" using mem_read_nth[OF r, of 0] True by simp
      moreover have "bs \<noteq> []" using mem_read_length[OF r] \<open>0 < unat len\<close> by auto
      moreover have "(ucast (ucast c :: u32) :: u8) = c" for c by (rule bit_word_eqI) (simp add: bit_simps)
      ultimately have "hd bs = hd (u_rx u)" using True by (simp add: hd_conv_nth nth_regs_bytes)
      then show ?thesis using u' True st fb acc by simp
    next
      case False then show ?thesis using u' st fb acc by (simp split: if_split_asm)
    qed
  qed
qed

lemma uart_store_cases:
  assumes "uart_store u a bs = Inr (fb, u')" and "bs \<noteq> []" and "u_control u' AND (CTRL_RST_TX OR CTRL_RST_RX) = 0"
    and "n = u_devSize u"
  shows "u_rx u' = u_rx u \<and> u_devSize u' = u_devSize u
    \<and> u_tx u' = u_tx u @ (if a mod n \<le> 4 \<and> 4 < unat (a mod n) + length bs then [bs ! (4 - unat (a mod n))] else [])"
proof -
  let ?a = "a mod n" and ?len = "of_nat (length bs) :: u64"
  obtain rs where w: "mem_write (regs_bytes u) (unat ?a) bs = Inr rs" and u': "u' = (
      let u = regs_set u rs;
          u = (if accessed ?a ?len 4 then u\<lparr>u_tx := u_tx u @ [ucast (u_tx_fifo u)]\<rparr> else u) in
      if accessed ?a ?len 12 then
        let u = (if u_control u AND CTRL_RST_TX \<noteq> 0 then u\<lparr>u_tx := []\<rparr> else u) in
        if u_control u AND CTRL_RST_RX \<noteq> 0 then u\<lparr>u_rx := []\<rparr> else u
      else u)"
    using assms(1,4) by (auto simp: uart_store_def Let_def bnd_eq_Inr split: if_split_asm)
  have "u_control u' = u_control (regs_set u rs)" unfolding u' by (simp add: Let_def)
  then have noreset: "u_control (regs_set u rs) AND CTRL_RST_TX = 0" "u_control (regs_set u rs) AND CTRL_RST_RX = 0"
    using assms(3) by (simp_all add: bit.conj_disj_distrib or_eq_0_iff)
  have range: "unat ?a + length bs \<le> 16" using w by (simp add: mem_write_def split: if_splits)
  then have len: "unat ?len = length bs" by (intro unat_of_nat_small) simp
  then have "?len \<noteq> 0" using assms(2) by (metis length_0_conv unat_0)
  then have acc: "accessed ?a ?len 4 \<longleftrightarrow> ?a \<le> 4 \<and> 4 < unat ?a + length bs"
    using accessed_iff[of ?a ?len 4] range len by (simp add: word_le_nat_alt)
  have byte: "ucast (u_tx_fifo (regs_set u rs)) = bs ! (4 - unat ?a)" if "accessed ?a ?len 4"
    using that mem_write_nth[OF w, of 4] mem_write_length[OF w] unfolding acc
    by (simp add: regs_set_tx word_le_nat_alt)
  show ?thesis
    unfolding u' using noreset byte acc by (simp add: Let_def)
qed

text \<open>
  C35. No byte of the serial line is lost, doubled or reordered: in every interleaving of the input thread, the guest
  and the clock in which the guest does not reset the queues, the bytes typed are the bytes the guest has read from
  the receive register, while the status register said that there was one, followed by the queue of received bytes, and the bytes it wrote to the transmit register are
  the bytes printed followed by the queue of bytes to send.
\<close>

theorem uart_lossless:
  assumes "uart_run n intc h u"
  shows "typed h = got h @ u_rx u \<and> sent h = printed h @ u_tx u"
proof -
  have "typed h = got h @ u_rx u \<and> sent h = printed h @ u_tx u \<and> u_devSize u = n"
    using assms
  proof induction
    case (run_load h u len a fb bs u')
    then show ?case using uart_load_cases[OF run_load(3,2)] by (auto split: if_splits)
  next
    case (run_store h u bs a fb u')
    then show ?case using uart_store_cases[OF run_store(3,2,4)] by simp
  qed (auto simp: uart_new_def readInput_def uart_tick_eq bnd_eq_Inr)
  then show ?thesis by blast
qed

text \<open>Two bytes typed, the first of which is read, and one written and printed.\<close>

theorem uart_lossless_witness:
  "\<exists>h u. uart_run 16 (None :: (unit \<Rightarrow> u32 \<Rightarrow> bool \<Rightarrow> unit res) option) h u \<and> typed h = [65, 67] \<and> got h = [65] \<and> printed h = [66]
     \<and> u_rx u = [67] \<and> u_tx u = []"
proof -
  let ?c = "None :: (unit \<Rightarrow> u32 \<Rightarrow> bool \<Rightarrow> unit res) option"
  let ?k = "readInput 67 (readInput 65 (uart_new 16))"
  have k: "uart_run 16 ?c \<lparr>typed = [65, 67], got = [], sent = [], printed = []\<rparr> ?k"
    using run_key[OF run_key[OF run_new, of 16 ?c 65], of 67] by simp
  have "case uart_load ?k 0 4 of Inr (fb, b, u) \<Rightarrow> fb = FB_SUCCESS \<and> bit (u_status u) 0 \<and> b = Some [65, 0, 0, 0] | Inl e \<Rightarrow> False"
    by code_simp
  then obtain l where l: "uart_load ?k 0 4 = Inr (FB_SUCCESS, Some [65, 0, 0, 0], l)" "bit (u_status l) 0"
    by (auto split: sum.splits)
  have r: "uart_run 16 ?c \<lparr>typed = [65, 67], got = [65], sent = [], printed = []\<rparr> l"
    using run_load[OF k _ l(1)] l(2) by simp
  have "case uart_load ?k 0 4 of Inr (fb, b, u) \<Rightarrow> (case uart_store u 4 [66] of
      Inr (fb, s) \<Rightarrow> fb = FB_SUCCESS \<and> u_control s AND (CTRL_RST_TX OR CTRL_RST_RX) = 0 \<and> u_tx s = [66] \<and> u_rx s = [67] | Inl e \<Rightarrow> False) | Inl e \<Rightarrow> False"
    by code_simp
  then obtain s where s: "uart_store l 4 [66] = Inr (FB_SUCCESS, s)" "u_control s AND (CTRL_RST_TX OR CTRL_RST_RX) = 0" "u_tx s = [66]"
    "u_rx s = [67]" using l(1) by (auto split: sum.splits)
  have w: "uart_run 16 ?c \<lparr>typed = [65, 67], got = [65], sent = [66], printed = []\<rparr> s"
    using run_store[OF r _ s(1,2)] by simp
  have "uart_run 16 ?c \<lparr>typed = [65, 67], got = [65], sent = [66], printed = [66]\<rparr> (s\<lparr>u_tx := [], u_waitACK := True\<rparr>)"
    using run_tick[OF w, of "()" "[66]"] s(3) by (simp add: uart_tick_eq)
  then have "uart_run 16 ?c \<lparr>typed = [65, 67], got = [65], sent = [66], printed = [66]\<rparr> (s\<lparr>u_tx := [], u_waitACK := True\<rparr>)" .
  from this uart_lossless [OF this] show ?thesis by fastforce
qed

text \<open>
  The interrupt of the serial port is level triggered and covers both directions: after a tick the line that the next
  tick reports is up exactly when a received byte waits or transmitted bytes have not been acknowledged, and any
  load within the registers acknowledges the transmitted ones and leaves the line up only for received bytes that
  remain, while it reports in the status register whether there was one.
\<close>

theorem uart_interrupt_level:
  "(uart_tick intc u w = Inr (out, u', w') \<longrightarrow>
     hasIRQ u' = (u_rx u \<noteq> [] \<or> u_tx u \<noteq> [] \<or> u_waitACK u) \<and> out = u_tx u
     \<and> (\<forall>setInt. intc = Some setInt \<longrightarrow> setInt w 1 (hasIRQ u) = Inr w'))
   \<and> (uart_load u a len = Inr (FB_SUCCESS, b, u') \<longrightarrow>
     hasIRQ u' = (u_rx u' \<noteq> []) \<and> (bit (u_status u') 0 \<longleftrightarrow> u_rx u \<noteq> []))"
proof (intro conjI impI)
  assume t: "uart_tick intc u w = Inr (out, u', w')"
  then show "hasIRQ u' = (u_rx u \<noteq> [] \<or> u_tx u \<noteq> [] \<or> u_waitACK u)" "out = u_tx u"
    "\<forall>setInt. intc = Some setInt \<longrightarrow> setInt w 1 (hasIRQ u) = Inr w'"
    by (auto simp: uart_tick_eq bnd_eq_Inr hasIRQ_def)
next
  assume l: "uart_load u a len = Inr (FB_SUCCESS, b, u')"
  have v: "bit (w OR RX_FIFO_VALID_DATA) 0" "\<not> bit (w AND NOT RX_FIFO_VALID_DATA) 0" for w :: u32
    by (simp_all add: RX_FIFO_VALID_DATA_def bit_simps)
  show "hasIRQ u' = (u_rx u' \<noteq> [])" "bit (u_status u') 0 \<longleftrightarrow> u_rx u \<noteq> []"
    using l by (auto simp: uart_load_def Let_def bnd_eq_Inr hasIRQ_def FB_defs v simp flip: bit_0 split: if_split_asm)
qed

text \<open>A received byte raises the line, and reading it lowers it.\<close>

theorem uart_interrupt_level_witness:
  "hasIRQ (readInput 65 (uart_new 16)) \<and> (\<exists>b u'. uart_load (readInput 65 (uart_new 16)) 0 4 = Inr (FB_SUCCESS, b, u')
     \<and> \<not> hasIRQ u' \<and> bit (u_status u') 0)"
proof -
  let ?u = "readInput 65 (uart_new 16)"
  obtain b u' where l: "uart_load ?u 0 4 = Inr (FB_SUCCESS, b, u')" and rx: "u_rx u' = []"
  proof -
    have "case uart_load ?u 0 4 of Inr (fb, b, u') \<Rightarrow> fb = FB_SUCCESS \<and> u_rx u' = [] | Inl e \<Rightarrow> False" by code_simp
    then show thesis using that by (auto split: sum.splits prod.splits)
  qed
  have "hasIRQ ?u" "u_rx ?u \<noteq> []" by (simp_all add: hasIRQ_def readInput_def)
  moreover from uart_interrupt_level[of None ?u "()" "[]" u' "()" 0 4 b] l rx \<open>u_rx ?u \<noteq> []\<close>
  have "\<not> hasIRQ u' \<and> bit (u_status u') 0" by blast
  ultimately show ?thesis using l by blast
qed

end
