(* ===== verification/BusInv.thy ===== *)
theory BusInv
  imports Isolation
begin

text \<open>
  The core touches its bus only through the operations of the bus: whatever these keep, a step of the core keeps. The locale
  is the contract between the two; the component that provides the bus interprets it.
\<close>

definition bus_kept :: "('b \<Rightarrow> bool) \<Rightarrow> ('b, 'z) mmu_state_scheme \<Rightarrow> ('b, 'z) mmu_state_scheme \<Rightarrow> bool" where
  "bus_kept P s s' \<longleftrightarrow> (P (subBus s) \<longrightarrow> P (subBus s'))"

lemma bus_kept_trans: "bus_kept P s s' \<Longrightarrow> bus_kept P s' s'' \<Longrightarrow> bus_kept P s s''"
  by (simp add: bus_kept_def)

lemma bus_kept_same [simp]: "bus_kept P s s"
  by (simp add: bus_kept_def)

locale bus_keeps =
  fixes vt :: "'b slave_atomic_io" and P :: "'b \<Rightarrow> bool"
  assumes load_keeps: "P b \<Longrightarrow> io_load vt b a n = Inr (fb, buf, b') \<Longrightarrow> P b'"
    and store_keeps: "P b \<Longrightarrow> io_store vt b a bs = Inr (fb, b') \<Longrightarrow> P b'"
    and reserve_keeps: "P b \<Longrightarrow> P (io_reserve vt b a n h)"
    and check_keeps: "P b \<Longrightarrow> P (snd (io_check vt b a n h))"
begin

lemma doLoad_bus: "doLoad vt a n s = Inr (fb, b, s') \<Longrightarrow> bus_kept P s s'"
  by (auto simp: doLoad_def res_simps bus_kept_def dest: load_keeps)

lemma doStore_bus: "doStore vt a bs s = Inr (fb, s') \<Longrightarrow> bus_kept P s s'"
  by (auto simp: doStore_def res_simps bus_kept_def dest: store_keeps)

lemma doReserve_bus: "bus_kept P s (doReserve vt a n h s)"
  by (simp add: doReserve_def reserve_keeps bus_kept_def)

lemma doCheck_bus: "doCheck vt a n h s = (ok, s') \<Longrightarrow> bus_kept P s s'"
  using check_keeps[of "subBus s" a n h] by (auto simp: doCheck_def bus_kept_def split: prod.splits)

lemma writeTLB_bus: "writeTLB p n v s = Inr (e, s') \<Longrightarrow> bus_kept P s s'"
  by (auto simp: writeTLB_def getTLBIndexToSwapOut_def Let_def res_simps bus_kept_def)

lemma load_pte_bus: "load_pte vt a s = Inr (p, s') \<Longrightarrow> bus_kept P s s'"
  by (auto simp: load_pte_def res_simps split: option.splits dest: doLoad_bus)

lemma walk_l0_bus: "walk_l0 vt t v s = Inr (e, s') \<Longrightarrow> bus_kept P s s'"
  by (auto simp: walk_l0_def res_simps split: if_splits dest!: load_pte_bus writeTLB_bus intro: bus_kept_trans)

lemma walk_l1_bus: "walk_l1 vt t v s = Inr (e, s') \<Longrightarrow> bus_kept P s s'"
  by (auto simp: walk_l1_def res_simps split: if_splits dest!: load_pte_bus writeTLB_bus walk_l0_bus intro: bus_kept_trans)

lemma walk_l2_bus: "walk_l2 vt t v s = Inr (e, s') \<Longrightarrow> bus_kept P s s'"
  by (auto simp: walk_l2_def res_simps split: if_splits dest!: load_pte_bus writeTLB_bus walk_l1_bus intro: bus_kept_trans)

lemma getTLBEntry_bus: "getTLBEntry vt v s = Inr (e, s') \<Longrightarrow> bus_kept P s s'"
  by (auto simp: getTLBEntry_def res_simps split: option.splits if_splits dest!: walk_l2_bus)

lemma read_bus: "VAddr_ReadBuffer_MMU_API vt a n s = Inr (fb, b, s') \<Longrightarrow> bus_kept P s s'"
  by (auto simp: VAddr_ReadBuffer_MMU_API_def res_simps split: option.splits if_splits
      dest!: doLoad_bus getTLBEntry_bus intro: bus_kept_trans)

lemma write_bus: "VAddr_WriteBuffer_MMU_API vt a bs s = Inr (fb, s') \<Longrightarrow> bus_kept P s s'"
  by (auto simp: VAddr_WriteBuffer_MMU_API_def res_simps split: option.splits if_splits
      dest!: doStore_bus getTLBEntry_bus intro: bus_kept_trans)

lemma fetch_part_bus: "fetch_part vt a buf s = Inr (fb, b, s') \<Longrightarrow> bus_kept P s s'"
  by (auto simp: fetch_part_def Let_def res_simps split: option.splits if_splits
      dest!: doLoad_bus getTLBEntry_bus intro: bus_kept_trans)

lemma fetch_bus: "VAddr_InstFetch_MMU_API vt a buf s = Inr (fb, b, s') \<Longrightarrow> bus_kept P s s'"
  by (auto simp: VAddr_InstFetch_MMU_API_def res_simps split: if_splits dest!: fetch_part_bus intro: bus_kept_trans)

lemma pa_amo_op_bus: "pa_amo_op vt a n op src s = Inr (ok, d, s') \<Longrightarrow> bus_kept P s s'"
  by (auto simp: pa_amo_op_def Let_def res_simps split: option.splits if_splits
      dest!: doLoad_bus doStore_bus intro: bus_kept_trans)

lemma amo_bus: "vaddrAtomicMemOperation vt a n op src s = Inr (e, d, s') \<Longrightarrow> bus_kept P s s'"
  by (auto simp: vaddrAtomicMemOperation_def Let_def res_simps split: option.splits if_splits
      dest!: pa_amo_op_bus getTLBEntry_bus intro: bus_kept_trans)

lemma lr_at_bus: "doLoad vt pa n (doReserve vt pa n h s1) = Inr (fb, b, s2) \<Longrightarrow> bus_kept P s1 s2"
  using bus_kept_trans doReserve_bus doLoad_bus by blast

lemma lr_bus: "vaddrLoadReserved vt a n s = Inr (e, d, s') \<Longrightarrow> bus_kept P s s'"
proof (cases "bare s \<or> cross_page a n")
  case True
  assume "vaddrLoadReserved vt a n s = Inr (e, d, s')"
  then show ?thesis
    using True by (auto simp: vaddrLoadReserved_def Let_def res_simps split: if_split_asm dest: lr_at_bus)
next
  case False
  assume a: "vaddrLoadReserved vt a n s = Inr (e, d, s')"
  with False obtain entry s1 where g: "getTLBEntry vt a s = Inr (entry, s1)"
    by (auto simp: vaddrLoadReserved_def Let_def res_simps)
  have "bus_kept P s1 s'"
    using a False g by (cases entry)
      (auto simp: vaddrLoadReserved_def Let_def res_simps split: if_split_asm dest: lr_at_bus)
  then show ?thesis using getTLBEntry_bus[OF g] bus_kept_trans by blast
qed

lemma sc_at_bus: "sc_at vt a bs f s = Inr (e, d, s') \<Longrightarrow> bus_kept P s s'"
  by (auto simp: sc_at_def Let_def res_simps split: if_splits prod.splits
      dest!: doCheck_bus doStore_bus intro: bus_kept_trans)

lemma sc_bus: "vaddrStoreConditional vt a bs s = Inr (e, d, s') \<Longrightarrow> bus_kept P s s'"
  by (auto simp: vaddrStoreConditional_def Let_def res_simps split: option.splits if_splits
      dest!: sc_at_bus getTLBEntry_bus intro: bus_kept_trans)

lemma raise_bus: "raiseTrap c t s1 = Inr s2 \<Longrightarrow> bus_kept P s s2 = bus_kept P s s1"
  using raiseTrap_frame(6)[of c t s1 s2] by (simp add: bus_kept_def)

lemma memRead_bus: "memRead vt a n s = Inr (ok, b, s') \<Longrightarrow> bus_kept P s s'"
  by (auto simp: memRead_def mmu_load_def res_simps Let_def raise_exc_def raise_bus split: if_split_asm dest!: read_bus)

lemma memWrite_bus: "memWrite vt a bs s = Inr (ok, s') \<Longrightarrow> bus_kept P s s'"
  by (auto simp: memWrite_def mmu_store_def res_simps Let_def raise_exc_def raise_bus split: if_split_asm dest!: write_bus)

end

text \<open>The instruction handlers keep what the bus keeps.\<close>

abbreviation keeps_bus :: "('b \<Rightarrow> bool) \<Rightarrow> 'b rv64core \<Rightarrow> 'b exec_res \<Rightarrow> bool" where
  "keeps_bus P s out \<equiv> post (\<lambda>(_, _, s'). bus_kept P s s') out"

lemma bus_kept_updates [simp]:
  "bus_kept P s (s'\<lparr>currentProgramCounter := p\<rparr>) = bus_kept P s s'" "bus_kept P s (s'\<lparr>GPR := g\<rparr>) = bus_kept P s s'"
  "bus_kept P s (s'\<lparr>minstret := n\<rparr>) = bus_kept P s s'" "bus_kept P s (s'\<lparr>needTrap := t\<rparr>) = bus_kept P s s'"
  by (simp_all add: bus_kept_def)

lemma bus_ends [simp]:
  "keeps_bus P s (next_inst s') = bus_kept P s s'" "keeps_bus P s (jumped s') = bus_kept P s s'"
  "keeps_bus P s (illegal s') = bus_kept P s s'"
  by (auto simp: exec_ends)

lemma put_reg_bus [simp]: "keeps_bus P s (put_reg rd v s') = bus_kept P s s'"
  by (simp add: put_reg_def)

context bus_keeps
begin

lemma raise_ends_bus:
  "bus_kept P s s' \<Longrightarrow> keeps_bus P s (bnd (raise_exc e t s') next_inst)"
  "bus_kept P s s' \<Longrightarrow> keeps_bus P s (bnd (raise_exc e t s') jumped)"
  by (auto simp: raise_exc_def raise_bus intro!: post_bndI)

lemma amo_result_bus: "bus_kept P s s' \<Longrightarrow> keeps_bus P s (amo_result e r a rd s')"
  by (auto simp: amo_result_def raise_ends_bus split: option.split)

lemma csrWrite_bus: "csrWrite s idx d = Inr (b, s') \<Longrightarrow> bus_kept P s s'"
  by (auto simp: csrWrite_def res_simps bus_kept_def split: option.splits RV_CSR_Addr_enum.splits if_splits)

end

lemma flush_bus: "subBus (SV39_FlushTLB_sfence_vma v asid s) = subBus s"
proof -
  obtain t where "SV39_FlushTLB_sfence_vma v asid s = s\<lparr>tlb := t\<rparr>" unfolding SV39_FlushTLB_sfence_vma_def by blast
  then show ?thesis by simp
qed

lemma sfence_bus: "bus_kept P s (snd (sfence_vma v asid s))"
  unfolding sfence_vma_def bus_kept_def by (simp only: flush_bus snd_conv split: if_split) simp

sublocale bus_keeps \<subseteq> bus: instr_contract vt inst "\<lambda>_. True" "keeps_bus P" for inst
proof (unfold_locales, goal_cases)
  case (8 s) show ?case
    unfolding ecall_def by (rule post_bndI) (simp add: raise_bus)
next
  case (9 s n a g rd) show ?case
    unfolding load_reg_def by (rule post_bndI) (auto split: option.split dest: memRead_bus)
next
  case (10 s k a rs) show ?case
    unfolding store_reg_def by (rule post_bndI) (auto dest: memWrite_bus)
next
  case (11 s) show ?case
    by (auto simp: exec_AMO_def Let_def dest!: amo_bus lr_bus sc_bus intro!: post_bndI amo_result_bus
        split: option.split AMO_Funct_enum.split)
next
  case (12 s wr perm new) then show ?case
    by (auto simp: csr_instr_def Let_def dest!: csrWrite_bus intro!: post_bndI split: option.split if_split_asm)
next
  case (13 s) show ?case by (auto simp: mret_def Let_def bus_kept_def)
next
  case (14 s) show ?case by (auto simp: sret_def Let_def bus_kept_def)
next
  case (15 s v asid) show ?case
    using sfence_bus[of P s v asid] by (cases "sfence_vma v asid s") simp
qed (simp_all add: raise_ends_bus)

context bus_keeps
begin

lemma finish_bus:
  assumes "finish inst c (np, ill, s) = Inr s'" shows "bus_kept P s s'"
proof -
  obtain s2 where r: "(if ill then raise_exc exec_illegal_instr (ucast inst) s else Inr s) = Inr s2"
    and s': "s' = s2\<lparr>currentProgramCounter := next_pc c np s2, minstret := minstret s2 + (if needTrap s2 then 0 else 1), needTrap := False\<rparr>"
    using finish_cases[OF assms] by blast
  have "bus_kept P s s2" using r raise_bus[of _ _ s s2 s] unfolding raise_exc_def by (cases ill) auto
  then show ?thesis unfolding s' by simp
qed

lemma step_bus:
  assumes "step w vt s = Inr s'" shows "bus_kept P s s'"
proof -
  have pre: "bus_kept P s s1" if "preExec w s = Inr s1" for s1
    using preExec_cases[OF that] by (auto simp: raise_bus) (simp_all add: bus_kept_def update_pending_def)
  have ex: "bus_kept P s1 t" if "exec_inst vt inst s1 = Inr (np, ill, t)" for inst s1 np ill t
    using postD[OF bus.q_inst that] by simp
  obtain s1 where s1: "preExec w s = Inr s1" "bus_kept P s s1" using assms pre by (auto simp: step_def res_simps)
  have end_trap: "bus_kept P s s'" if "raiseTrap c t s2 = Inr s3" "finish i False (False, False, s3) = Inr s'" "bus_kept P s s2"
    for c t s2 s3 i using raise_bus[OF that(1), of s] finish_bus[OF that(2)] that(3) bus_kept_trans by blast
  show ?thesis
  proof (cases "needTrap s1 \<or> currentProgramCounter s1 mod PC_ALIGN \<noteq> 0")
    case True
    then show ?thesis
      using assms s1 end_trap finish_bus bus_kept_trans by (auto simp: step_def res_simps raise_exc_def split: if_split_asm) blast
  next
    case False
    then obtain fb buf s2 where f: "VAddr_InstFetch_MMU_API vt (currentProgramCounter s1) (replicate 4 0) s1 = Inr (fb, buf, s2)"
      using assms s1 by (auto simp: step_def res_simps)
    have s2: "bus_kept P s s2" using s1(2) fetch_bus[OF f] bus_kept_trans by blast
    show ?thesis
    proof (cases "fb = VADDR_ACCESS_OK")
      case True
      then obtain np ill t where e: "exec_inst vt (word_of_bytes buf) s2 = Inr (np, ill, t)"
        and "finish (word_of_bytes buf) (is_compressed (word_of_bytes buf)) (np, ill, t) = Inr s'"
        using assms s1 False f by (auto simp: step_def res_simps Let_def)
      then show ?thesis using s2 ex[OF e] finish_bus bus_kept_trans by blast
    next
      case no: False then show ?thesis using assms s1 False f end_trap[OF _ _ s2]
        by (auto simp: step_def res_simps Let_def)
    qed
  qed
qed

end

section \<open>The identity of a core\<close>

text \<open>No step changes the \<open>IntStatus\<close> object of a core or its hart id.\<close>

definition same_hart :: "('b, 'z) rv64core_scheme \<Rightarrow> ('b, 'z) rv64core_scheme \<Rightarrow> bool" where
  "same_hart s s' \<longleftrightarrow> intStatus s' = intStatus s \<and> rvHartID s' = rvHartID s"

lemma same_hart_trans: "same_hart s s' \<Longrightarrow> same_hart s' s'' \<Longrightarrow> same_hart s s''"
  by (simp add: same_hart_def)

lemma same_hart_simps [simp]:
  "same_hart s s"
  "same_hart s (s'\<lparr>currentProgramCounter := p\<rparr>) = same_hart s s'" "same_hart s (s'\<lparr>GPR := g\<rparr>) = same_hart s s'"
  "same_hart s (s'\<lparr>minstret := n\<rparr>) = same_hart s s'" "same_hart s (s'\<lparr>needTrap := b\<rparr>) = same_hart s s'"
  by (simp_all add: same_hart_def)

lemma mmu_only_hart: "mmu_only s s' \<Longrightarrow> same_hart s s'"
  by (erule mmu_onlyE) (simp add: same_hart_def)

lemma raise_hart: "raiseTrap c t s = Inr s' \<Longrightarrow> same_hart s s'"
  by (erule raiseTrap_cases) (simp add: same_hart_def trap_to_S_def trap_to_M_def)

lemma update_pending_hart: "same_hart s (update_pending w s)"
  by (simp add: same_hart_def update_pending_def)

abbreviation keeps_hart :: "'b rv64core \<Rightarrow> 'b exec_res \<Rightarrow> bool" where
  "keeps_hart s out \<equiv> post (\<lambda>(_, _, s'). same_hart s s') out"

lemma hart_ends [simp]:
  "keeps_hart s (next_inst s') = same_hart s s'" "keeps_hart s (jumped s') = same_hart s s'"
  "keeps_hart s (illegal s') = same_hart s s'"
  by (auto simp: exec_ends)

lemma put_reg_hart [simp]: "keeps_hart s (put_reg rd v s') = same_hart s s'"
  by (simp add: put_reg_def)

lemma raise_ends_hart:
  "same_hart s s' \<Longrightarrow> keeps_hart s (bnd (raise_exc e t s') next_inst)"
  "same_hart s s' \<Longrightarrow> keeps_hart s (bnd (raise_exc e t s') jumped)"
  by (auto simp: raise_exc_def dest!: raise_hart intro!: post_bndI intro: same_hart_trans)

lemma amo_result_hart: "same_hart s s' \<Longrightarrow> keeps_hart s (amo_result e r a rd s')"
  by (auto simp: amo_result_def raise_ends_hart split: option.split)

lemma mem_hart:
  "memRead vt a n s = Inr (ok, b, s') \<Longrightarrow> same_hart s s'" "memWrite vt a bs s = Inr (ok, s') \<Longrightarrow> same_hart s s'"
  by (auto simp: memRead_def memWrite_def res_simps Let_def raise_exc_def split: if_split_asm
      dest!: raise_hart mmu_load_frame mmu_store_frame mmu_only_hart intro: same_hart_trans)

lemma csrWrite_hart: "csrWrite s idx d = Inr (b, s') \<Longrightarrow> same_hart s s'"
  by (auto simp: csrWrite_def res_simps same_hart_def split: option.splits RV_CSR_Addr_enum.splits if_splits)

interpretation hart: instr_contract vt inst "\<lambda>_. True" keeps_hart for vt inst
proof (unfold_locales, goal_cases)
  case (8 s) show ?case
    unfolding ecall_def by (rule post_bndI) (auto dest: raise_hart)
next
  case (9 s n a g rd) show ?case
    unfolding load_reg_def by (rule post_bndI) (auto split: option.split dest: mem_hart)
next
  case (10 s k a rs) show ?case
    unfolding store_reg_def by (rule post_bndI) (auto dest: mem_hart)
next
  case (11 s) show ?case
    by (auto simp: exec_AMO_def Let_def dest!: amo_frame lr_frame sc_frame mmu_only_hart intro!: post_bndI amo_result_hart
        split: option.split AMO_Funct_enum.split)
next
  case (12 s wr perm new) then show ?case
    by (auto simp: csr_instr_def Let_def dest!: csrWrite_hart intro!: post_bndI split: option.split if_split_asm)
next
  case (13 s) show ?case by (auto simp: mret_def Let_def same_hart_def)
next
  case (14 s) show ?case by (auto simp: sret_def Let_def same_hart_def)
next
  case (15 s v asid) show ?case
    by (simp add: sfence_vma_def same_hart_def SV39_FlushTLB_sfence_vma_def)
qed (simp_all add: raise_ends_hart)

lemma finish_hart:
  assumes "finish inst c (np, ill, s) = Inr s'" shows "same_hart s s'"
proof -
  obtain s2 where r: "(if ill then raise_exc exec_illegal_instr (ucast inst) s else Inr s) = Inr s2"
    and s': "s' = s2\<lparr>currentProgramCounter := next_pc c np s2, minstret := minstret s2 + (if needTrap s2 then 0 else 1), needTrap := False\<rparr>"
    using finish_cases[OF assms] by blast
  have "same_hart s s2" using r raise_hart[of _ _ s s2] unfolding raise_exc_def by (cases ill) auto
  then show ?thesis unfolding s' by simp
qed

lemma step_hart:
  assumes "step w vt s = Inr s'" shows "same_hart s s'"
  using step_cases[OF assms]
proof (elim disjE exE conjE)
  fix s1 cause tval t i
  assume "mmu_only (update_pending w s) s1" "raiseTrap cause tval s1 = Inr t" "finish i False (False, False, t) = Inr s'"
  then show ?thesis using update_pending_hart mmu_only_hart raise_hart finish_hart same_hart_trans by metis
next
  fix s1 inst np ill t
  assume m: "mmu_only (update_pending w s) s1" and e: "exec_inst vt inst s1 = Inr (np, ill, t)"
    and f: "finish inst (is_compressed inst) (np, ill, t) = Inr s'"
  have "same_hart s1 t" using postD[OF hart.q_inst e] by simp
  then show ?thesis using m f update_pending_hart mmu_only_hart finish_hart same_hart_trans by metis
qed

end
