(* ===== verification/Machine.thy ===== *)
theory Machine
  imports BusInv Debug Clint Plic Uartlite AddrBus
begin

text \<open>
  The complete machine of \<open>example/simple_full_sys.cpp\<close>: a core on a bus with main memory, the interrupt
  controllers \<open>CLInt<2>\<close> and \<open>PLIC<4,4>\<close> and a serial port whose interrupts go to the second, and the loop that
  ticks the devices and steps the core. The devices are shared: the loop ticks the objects that the core reaches
  over the bus. They live in the bus part of the core's state.
\<close>

section \<open>The devices behind the bus\<close>

record devs =
  clint_dev :: clint
  plic_dev :: plic
  uart_dev :: uartlite

datatype dev = Clint_dev | Plic_dev | Uart_dev

text \<open>\<open>behind\<close> is what a caller of \<open>PLIC::store\<close> holds behind its buffer, by address (see \<open>plic_store\<close>).\<close>

definition dev_vt :: "(u64 \<Rightarrow> u8 list) \<Rightarrow> dev \<Rightarrow> devs slave_io" where
  "dev_vt behind k = (case k of
     Clint_dev \<Rightarrow>
       \<lparr>io_load = (\<lambda>d a n. bnd (clint_load (clint_dev d) a n) (\<lambda>(fb, b, c). Inr (fb, b, d\<lparr>clint_dev := c\<rparr>))),
        io_store = (\<lambda>d a bs. bnd (clint_store (clint_dev d) a bs) (\<lambda>(fb, c). Inr (fb, d\<lparr>clint_dev := c\<rparr>)))\<rparr>
   | Plic_dev \<Rightarrow>
       \<lparr>io_load = (\<lambda>d a n. bnd (plic_load (plic_dev d) a n) (\<lambda>(fb, b, p). Inr (fb, b, d\<lparr>plic_dev := p\<rparr>))),
        io_store = (\<lambda>d a bs. bnd (plic_store (behind a) (plic_dev d) a bs) (\<lambda>(fb, p). Inr (fb, d\<lparr>plic_dev := p\<rparr>)))\<rparr>
   | Uart_dev \<Rightarrow>
       \<lparr>io_load = (\<lambda>d a n. bnd (uart_load (uart_dev d) a n) (\<lambda>(fb, b, u). Inr (fb, b, d\<lparr>uart_dev := u\<rparr>))),
        io_store = (\<lambda>d a bs. bnd (uart_store (uart_dev d) a bs) (\<lambda>(fb, u). Inr (fb, d\<lparr>uart_dev := u\<rparr>)))\<rparr>)"

text \<open>
  Well-formed devices, with the interrupt contexts that \<open>simple_full_sys\<close> registers: \<open>IntStatus\<close> object 0 is the
  core's, 1 belongs to no core, and \<open>test2\<close> and \<open>test3\<close> are \<open>bool\<close> variables of their own.
\<close>

definition clint_wires :: "nat option list" where
  "clint_wires = [Some 0, Some 1]"

definition plic_wires :: "irq_wire option list" where
  "plic_wires = [Some (Meip 0), Some (Seip 0), Some (Loose 2), Some (Loose 3)]"

definition devs_ok :: "devs \<Rightarrow> bool" where
  "devs_ok d \<longleftrightarrow>
     clint_wf (clint_dev d) \<and> nr_hart (clint_dev d) = 2 \<and> clint_intContexts (clint_dev d) = clint_wires
     \<and> plic_wf (plic_dev d) \<and> nr_source (plic_dev d) = 4 \<and> nr_context (plic_dev d) = 4
     \<and> plic_intContexts (plic_dev d) = plic_wires \<and> uart_wf (uart_dev d)"

lemma clint_store_frame:
  "clint_store c a bs = Inr (fb, c') \<Longrightarrow> nr_hart c' = nr_hart c \<and> clint_intContexts c' = clint_intContexts c"
  by (auto simp: clint_store_def do_write_def Let_def res_simps split: if_split_asm)

lemma plic_load_frame:
  "plic_load p a n = Inr (fb, b, p') \<Longrightarrow> nr_source p' = nr_source p \<and> nr_context p' = nr_context p
     \<and> plic_intContexts p' = plic_intContexts p"
  by (auto simp: plic_load_def Let_def res_simps split: if_split_asm)

lemma plic_store_frame:
  "plic_store behind p a bs = Inr (fb, p') \<Longrightarrow> nr_source p' = nr_source p \<and> nr_context p' = nr_context p
     \<and> plic_intContexts p' = plic_intContexts p"
  by (auto simp: plic_store_def Let_def res_simps split: if_split_asm)

interpretation simple: device_family "dev_vt behind" devs_ok for behind
proof (unfold_locales, goal_cases)
  case (1 k s a n fb b s')
  then show ?case
    by (cases k) (auto simp: dev_vt_def res_simps devs_ok_def dest: clint_load_same pl.load_wf ua.load_wf plic_load_frame)
next
  case (2 k s a bs fb s')
  then show ?case
    by (cases k) (auto simp: dev_vt_def res_simps devs_ok_def dest: clint_store_wf plic_store_wf ua.store_wf
        clint_store_frame plic_store_frame)
next
  case (3 k s a n fb bs s')
  then show ?case
    by (cases k) (auto simp: dev_vt_def res_simps devs_ok_def dest: cl.load_length pl.load_length ua.load_length)
qed

abbreviation sys_vt :: "(u64 \<Rightarrow> u8 list) \<Rightarrow> (dev addr_bus \<times> devs) slave_atomic_io" where
  "sys_vt behind \<equiv> addrbus_io (dev_vt behind)"

definition sys_bus_ok :: "dev addr_bus \<times> devs \<Rightarrow> bool" where
  "sys_bus_ok st \<longleftrightarrow> (case st of (b, d) \<Rightarrow> bus_wf b \<and> devs_ok d)"

lemma reserve_wf: "bus_wf b \<Longrightarrow> bus_wf (reserve b a n h)" "bus_wf b \<Longrightarrow> check b a n h = (ok, b') \<Longrightarrow> bus_wf b'"
  by (auto simp: bus_wf_def reserve_def check_def split: if_split_asm option.splits)

interpretation sys: bus_keeps "sys_vt behind" sys_bus_ok for behind
proof (unfold_locales, goal_cases)
  case (1 b a n fb buf b') then show ?case
    using simple.bus.load_wf[of b behind a n fb buf b'] by (simp add: addrbus_io_def sys_bus_ok_def)
next
  case (2 b a bs fb b') then show ?case
    using simple.bus.store_wf[of b behind a bs fb b'] by (simp add: addrbus_io_def sys_bus_ok_def)
next
  case (3 b a n h) then show ?case
    by (cases b) (simp add: addrbus_io_def sys_bus_ok_def reserve_wf)
next
  case (4 b a n h) then show ?case
    by (cases b) (auto simp: addrbus_io_def sys_bus_ok_def reserve_wf split: prod.splits)
qed

section \<open>The machine and its loop\<close>

record machine =
  m_core :: "(dev addr_bus \<times> devs) rv64core"
  m_wires :: irq_store

text \<open>
  The set-up code. \<open>ram\<close> is the memory that \<open>setMem\<close> allocates, \<open>img\<close> the file loaded into it, \<open>mem0\<close> the core object
  before construction. The core only keeps the pointer to the bus, so the devices are registered first.
\<close>

definition simple_devs :: "devs res" where
  "simple_devs =
     bnd (plic_regIntContext (plic_new 4 4) 0 (Meip 0)) (\<lambda>p.
     bnd (plic_regIntContext p 1 (Seip 0)) (\<lambda>p.
     bnd (plic_regIntContext p 2 (Loose 2)) (\<lambda>p.
     bnd (plic_regIntContext p 3 (Loose 3)) (\<lambda>p.
     bnd (clint_regIntContext (clint_new 2) 0 0) (\<lambda>c.
     bnd (clint_regIntContext c 1 1) (\<lambda>c.
       Inr \<lparr>clint_dev = c, plic_dev = p, uart_dev = uart_new (1024 * 1024)\<rparr>))))))"

definition simple_bus :: "u8 list \<Rightarrow> u8 list \<Rightarrow> dev addr_bus" where
  "simple_bus ram img =
     addDev (addDev (addDev (setMem addrbus_new 0x80000000 ram (Some img)) Plic_dev 0xc000000) Clint_dev 0x2000000)
       Uart_dev 0x60100000"

definition simple_full_sys :: "(dev addr_bus \<times> devs) rv64core \<Rightarrow> u8 list \<Rightarrow> u8 list \<Rightarrow> irq_store \<Rightarrow> machine res" where
  "simple_full_sys mem0 ram img w =
     bnd simple_devs (\<lambda>d.
       let (core, w) = RV64Core_new mem0 (simple_bus ram img, d) 0 0 w;
           core = writeProgramCounter 0x80000000 core in
       bnd (setGPRByIndex 10 0 core) (\<lambda>core. Inr \<lparr>m_core = core, m_wires = w\<rparr>))"

text \<open>\<open>clint->tick(0); plic->tick(0); uart->tick(0)\<close>: what the serial port prints, and the machine after it.\<close>

definition ticks :: "machine \<Rightarrow> (u8 list \<times> machine) res" where
  "ticks m =
     (let (b, d) = subBus (m_core m) in
      bnd (clint_tick (clint_dev d) (m_wires m)) (\<lambda>(c, w).
      bnd (plic_tick (plic_dev d) w) (\<lambda>(p, w).
      bnd (uart_tick (Some plic_setInt) (uart_dev d) p) (\<lambda>(out, u, p).
        Inr (out, m\<lparr>m_core := (m_core m)\<lparr>subBus := (b, d\<lparr>clint_dev := c, plic_dev := p, uart_dev := u\<rparr>)\<rparr>,
                    m_wires := w\<rparr>)))))"

definition loop_body :: "(u64 \<Rightarrow> u8 list) \<Rightarrow> machine \<Rightarrow> (u8 list \<times> machine) res" where
  "loop_body behind m =
     bnd (ticks m) (\<lambda>(out, m).
       bnd (step (m_wires m) (sys_vt behind) (m_core m)) (\<lambda>s. Inr (out, m\<lparr>m_core := s\<rparr>)))"

text \<open>The input thread of the serial port runs beside the loop.\<close>

definition type_key :: "u8 \<Rightarrow> machine \<Rightarrow> machine" where
  "type_key c m =
     (let (b, d) = subBus (m_core m) in
      m\<lparr>m_core := (m_core m)\<lparr>subBus := (b, d\<lparr>uart_dev := readInput c (uart_dev d)\<rparr>)\<rparr>\<rparr>)"

inductive machine_run :: "machine \<Rightarrow> machine \<Rightarrow> bool" for m0 where
  boot: "machine_run m0 m0"
| loop: "machine_run m0 m \<Longrightarrow> loop_body behind m = Inr (out, m') \<Longrightarrow> machine_run m0 m'"
| key: "machine_run m0 m \<Longrightarrow> machine_run m0 (type_key c m)"

section \<open>Every part of the machine stays well formed\<close>

definition machine_ok :: "machine \<Rightarrow> bool" where
  "machine_ok m \<longleftrightarrow> core_ok (m_core m) \<and> sys_bus_ok (subBus (m_core m)) \<and> intStatus (m_core m) = 0 \<and> rvHartID (m_core m) = 0"

lemma plic_setInt_ok:
  assumes "plic_wf p" and "unat i \<le> nr_source p"
  shows "\<exists>pe. plic_setInt p i fired = Inr (p\<lparr>pending := pe\<rparr>) \<and> plic_wf (p\<lparr>pending := pe\<rparr>)
    \<and> (fired \<longrightarrow> src_bit pe (unat i))"
proof (cases fired)
  case True
  have l: "unat i div 32 < length (pending p)" using assms bit_words_bound by (simp add: plic_wf_def)
  show ?thesis
    using True assms(1) src_bit_on[OF l, of "unat i"] unfolding plic_setInt_def bit_on_in[OF l]
    by (auto simp: plic_wf_def intro!: exI[of _ "(pending p)[unat i div 32 := pending p ! (unat i div 32) OR push_bit (unat i mod 32) 1]"])
next
  case False then show ?thesis using assms(1) by (auto simp: plic_setInt_def intro!: exI[of _ "pending p"])
qed

definition plic_wire :: "nat \<Rightarrow> irq_wire" where
  "plic_wire i = (if i = 0 then Meip 0 else if i = 1 then Seip 0 else Loose i)"

lemma wires:
  "i < 2 \<Longrightarrow> clint_wires ! i = Some i" "i < 4 \<Longrightarrow> plic_wires ! i = Some (plic_wire i)" "inj_on plic_wire {..<4}"
proof -
  show "i < 2 \<Longrightarrow> clint_wires ! i = Some i" by (auto simp: clint_wires_def less_2_cases_iff)
  show "i < 4 \<Longrightarrow> plic_wires ! i = Some (plic_wire i)"
    by (auto simp: plic_wires_def plic_wire_def less_Suc_eq numeral_eq_Suc)
  show "inj_on plic_wire {..<4}" by (auto simp: inj_on_def plic_wire_def)
qed

text \<open>The interrupt lines that the ticks leave for the core, from the devices as they were before.\<close>

definition driven :: "devs \<Rightarrow> irq_store \<Rightarrow> bool" where
  "driven d w \<longleftrightarrow>
     (w (Meip 0) \<longleftrightarrow> (\<exists>j \<le> 4. candidate (plic_dev d) 0 j)) \<and> (w (Seip 0) \<longleftrightarrow> (\<exists>j \<le> 4. candidate (plic_dev d) 1 j))
     \<and> (w (Msip 0) \<longleftrightarrow> msip (clint_dev d) ! 0 = 1) \<and> (w (Mtip 0) \<longleftrightarrow> mtimecmp (clint_dev d) ! 0 < mtime (clint_dev d))"

text \<open>
  The ticks of a well-formed machine return; they drive the lines of the core, and a serial port that wants an interrupt
  makes source 1 pending.
\<close>

lemma ticks_spec:
  assumes ok: "sys_bus_ok (subBus (m_core m))" and b: "subBus (m_core m) = (b, d)"
  shows "\<exists>d' w'. ticks m = Inr (u_tx (uart_dev d), m\<lparr>m_core := (m_core m)\<lparr>subBus := (b, d')\<rparr>, m_wires := w'\<rparr>)
    \<and> sys_bus_ok (b, d') \<and> driven d w' \<and> (hasIRQ (uart_dev d) \<longrightarrow> src_bit (pending (plic_dev d')) 1)"
proof -
  have d: "clint_wf (clint_dev d)" "nr_hart (clint_dev d) = 2" "clint_intContexts (clint_dev d) = clint_wires"
    "plic_wf (plic_dev d)" "nr_source (plic_dev d) = 4" "nr_context (plic_dev d) = 4"
    "plic_intContexts (plic_dev d) = plic_wires" "uart_wf (uart_dev d)" "bus_wf b"
    using ok b by (simp_all add: sys_bus_ok_def devs_ok_def)
  let ?c = "(clint_dev d)\<lparr>mtime := mtime (clint_dev d) + 1\<rparr>"
  obtain w1 where c: "clint_tick (clint_dev d) (m_wires m) = Inr (?c, w1)"
    and w1: "w1 (Msip 0) \<longleftrightarrow> msip (clint_dev d) ! 0 = 1" "w1 (Mtip 0) \<longleftrightarrow> mtime (clint_dev d) > mtimecmp (clint_dev d) ! 0"
    using clint_tick_spec[OF d(1), of "\<lambda>i. i" "m_wires m"] d(2,3) wires(1) by (auto simp: inj_on_def)
  obtain cl w2 where p: "plic_tick (plic_dev d) w1 = Inr ((plic_dev d)\<lparr>claim := cl\<rparr>, w2)" "plic_wf ((plic_dev d)\<lparr>claim := cl\<rparr>)"
    and w2: "\<forall>i < 4. w2 (plic_wire i) \<longleftrightarrow> (\<exists>j \<le> 4. candidate (plic_dev d) i j)" "\<forall>x. x \<notin> plic_wire ` {..<4} \<longrightarrow> w2 x = w1 x"
    using plic_tick_spec[OF d(4), of plic_wire w1] d(5-7) wires(2,3) by auto
  have "unat (1 :: u32) \<le> nr_source ((plic_dev d)\<lparr>claim := cl\<rparr>)" using d(5) by simp
  from plic_setInt_ok[OF p(2) this, of "hasIRQ (uart_dev d)"] obtain pe
    where s: "plic_setInt ((plic_dev d)\<lparr>claim := cl\<rparr>) 1 (hasIRQ (uart_dev d)) = Inr ((plic_dev d)\<lparr>claim := cl, pending := pe\<rparr>)"
      "plic_wf ((plic_dev d)\<lparr>claim := cl, pending := pe\<rparr>)" "hasIRQ (uart_dev d) \<longrightarrow> src_bit pe 1"
    by auto
  let ?u = "(uart_dev d)\<lparr>u_tx := [], u_waitACK := u_tx (uart_dev d) \<noteq> [] \<or> u_waitACK (uart_dev d)\<rparr>"
  let ?d = "d\<lparr>clint_dev := ?c, plic_dev := (plic_dev d)\<lparr>claim := cl, pending := pe\<rparr>, uart_dev := ?u\<rparr>"
  have t: "ticks m = Inr (u_tx (uart_dev d), m\<lparr>m_core := (m_core m)\<lparr>subBus := (b, ?d)\<rparr>, m_wires := w2\<rparr>)"
    by (simp add: ticks_def b c p(1) uart_tick_eq s(1))
  moreover have "sys_bus_ok (b, ?d)"
    using d s(2) clint_tick_wf[OF d(1) c] by (simp add: sys_bus_ok_def devs_ok_def uart_wf_def)
  moreover have "driven d w2"
  proof -
    have "w2 (Msip 0) = w1 (Msip 0)" "w2 (Mtip 0) = w1 (Mtip 0)"
      using w2(2) by (auto simp: plic_wire_def)
    moreover have "w2 (Meip 0) \<longleftrightarrow> (\<exists>j \<le> 4. candidate (plic_dev d) 0 j)" "w2 (Seip 0) \<longleftrightarrow> (\<exists>j \<le> 4. candidate (plic_dev d) 1 j)"
      using w2(1)[rule_format, of 0] w2(1)[rule_format, of 1] by (simp_all add: plic_wire_def)
    ultimately show ?thesis unfolding driven_def using w1 by blast
  qed
  moreover have "hasIRQ (uart_dev d) \<longrightarrow> src_bit (pending (plic_dev ?d)) 1" using s(3) by simp
  ultimately show ?thesis by blast
qed

lemma loop_ok:
  assumes "machine_ok m" and "loop_body behind m = Inr (out, m')"
  shows "machine_ok m'"
proof -
  obtain b d where b: "subBus (m_core m) = (b, d)" by force
  obtain d' w' where t: "ticks m = Inr (u_tx (uart_dev d), m\<lparr>m_core := (m_core m)\<lparr>subBus := (b, d')\<rparr>, m_wires := w'\<rparr>)"
    and d': "sys_bus_ok (b, d')"
    using ticks_spec[OF _ b] assms(1) unfolding machine_ok_def by blast
  let ?s = "(m_core m)\<lparr>subBus := (b, d')\<rparr>"
  obtain s' where st: "step w' (sys_vt behind) ?s = Inr s'" and m': "m' = m\<lparr>m_core := s', m_wires := w'\<rparr>"
    using assms(2) t by (auto simp: loop_body_def res_simps)
  have "core_ok ?s" using assms(1) by (simp add: machine_ok_def core_ok_def)
  then have "core_ok s'" using step_ok[OF _ st] by blast
  moreover have "sys_bus_ok (subBus s')" using sys.step_bus[OF st] d' by (simp add: bus_kept_def)
  moreover have "same_hart ?s s'" by (rule step_hart[OF st])
  ultimately show ?thesis using assms(1) unfolding m' machine_ok_def by (simp add: same_hart_def)
qed

lemma key_ok: "machine_ok m \<Longrightarrow> machine_ok (type_key c m)"
  by (auto simp: machine_ok_def type_key_def sys_bus_ok_def devs_ok_def core_ok_def readInput_def uart_wf_def split: prod.splits)

section \<open>The constructed machine\<close>

definition boot_devs :: devs where
  "boot_devs = \<lparr>clint_dev = (clint_new 2)\<lparr>clint_intContexts := clint_wires\<rparr>,
     plic_dev = (plic_new 4 4)\<lparr>plic_intContexts := plic_wires\<rparr>, uart_dev = uart_new (1024 * 1024)\<rparr>"

lemma simple_devs_eq: "simple_devs = Inr boot_devs"
  by (simp add: simple_devs_def boot_devs_def plic_regIntContext_def clint_regIntContext_def plic_new_def clint_new_def
      clint_wires_def plic_wires_def guard_def numeral_eq_Suc)

lemma boot_devs_ok: "devs_ok boot_devs"
proof -
  have "clint_wf (clint_new 2)" "plic_wf (plic_new 4 4)" by (simp_all add: clint_new_wf plic_new_wf)
  then show ?thesis
    by (simp add: boot_devs_def devs_ok_def clint_wf_def plic_wf_def uart_wf_def uart_new_def clint_new_def plic_new_def
        clint_wires_def plic_wires_def)
qed

lemma simple_bus_wf: "0x80000000 + length ram < 2 ^ 64 \<Longrightarrow> bus_wf (simple_bus ram img)"
  unfolding simple_bus_def by (intro addDev_wf setMem_wf addrbus_new_wf) simp

lemma boot_eq:
  "simple_full_sys mem0 ram img w =
     (let c = RV64Core_new mem0 (simple_bus ram img, boot_devs) 0 0 w in
      Inr \<lparr>m_core = (fst c)\<lparr>currentProgramCounter := 0x80000000, GPR := (GPR (fst c))(10 := 0)\<rparr>, m_wires = snd c\<rparr>)"
  by (simp add: simple_full_sys_def simple_devs_eq Let_def setGPRByIndex_def guard_def writeProgramCounter_def split_beta)

lemma boot_ok:
  assumes "simple_full_sys mem0 ram img w = Inr m" and "0x80000000 + length ram < 2 ^ 64"
  shows "machine_ok m"
proof -
  let ?c = "RV64Core_new mem0 (simple_bus ram img, boot_devs) 0 0 w"
  have c: "core_ok (fst ?c)" "subBus (fst ?c) = (simple_bus ram img, boot_devs)" "intStatus (fst ?c) = 0" "rvHartID (fst ?c) = 0"
    using new_ok[of mem0 "(simple_bus ram img, boot_devs)" 0 0 w]
    by (simp_all add: RV64Core_new_def reset_def RV64SV39_MMU_new_def)
  have "m_core m = (fst ?c)\<lparr>currentProgramCounter := 0x80000000, GPR := (GPR (fst ?c))(10 := 0)\<rparr>"
    using assms(1) by (auto simp: boot_eq Let_def)
  then show ?thesis
    using c simple_bus_wf[OF assms(2)] boot_devs_ok by (simp add: machine_ok_def sys_bus_ok_def core_ok_def)
qed

lemma run_ok: "machine_run m0 m \<Longrightarrow> machine_ok m0 \<Longrightarrow> machine_ok m"
  by (induction rule: machine_run.induct) (auto dest: loop_ok key_ok)

section \<open>An interrupt from a device to the core\<close>

lemma pending_external: "bit (csrIntPending (update_pending w s)) 11 \<longleftrightarrow> w (Meip (intStatus s))"
  by (simp add: update_pending_def put_f_def bf_set_def bool_word_def bit_simps)

lemma bits_external: "bit b 11 \<Longrightarrow> bits_to_int_type b = int_m_ext"
  by (simp add: bits_to_int_type_def int_bit_def bit_iff_and_push_bit_not_eq_0)

text \<open>A machine external interrupt wins over all others and is taken when no enabled interrupt is delegated.\<close>

lemma preExec_external:
  assumes w: "w (Meip (intStatus s))" and en: "bit (csrIntEnable s) 11" and deleg: "csrMIntDelegation s AND csrIntEnable s = 0"
    and mode: "nextPrivMode s = M_MODE \<longrightarrow> mst (status s) ms_mie \<noteq> 0"
  shows "preExec w s = raise_int int_m_ext (update_pending w s)"
proof -
  let ?p = "update_pending w s"
  let ?b = "csrIntPending ?p AND csrIntEnable ?p"
  have p: "csrIntEnable ?p = csrIntEnable s" "csrMIntDelegation ?p = csrMIntDelegation s" "currentPrivMode ?p = nextPrivMode s"
    "status ?p = status s"
    by (simp_all add: update_pending_def)
  have b: "bit ?b 11" using w en by (simp add: bit_and_iff pending_external p)
  have d: "?b AND csrMIntDelegation ?p = 0"
  proof -
    have "?b AND csrMIntDelegation ?p = csrIntPending ?p AND (csrMIntDelegation s AND csrIntEnable s)" by (simp only: p ac_simps)
    then show ?thesis by (simp add: deleg)
  qed
  have "\<not> bit (csrMIntDelegation s) 11"
  proof -
    have "\<not> bit (csrMIntDelegation s AND csrIntEnable s) 11" by (simp add: deleg)
    then show ?thesis using en by (simp add: bit_and_iff)
  qed
  then have m: "bit (?b AND NOT (csrMIntDelegation ?p)) 11" using b p by (simp add: bit_simps)
  have nz: "?b AND NOT (csrMIntDelegation ?p) \<noteq> 0" using m by (metis bit_0_eq bot_apply bot_bool_def)
  show ?thesis
    unfolding preExec_def Let_def bits_external[OF b] bits_external[OF m] d
    using nz mode by (cases "nextPrivMode s") (simp_all add: p less_PrivMode_e_def)
qed

lemma step_external:
  assumes ok: "core_ok s" and "w (Meip (intStatus s))" and "bit (csrIntEnable s) 11" and deleg: "csrMIntDelegation s AND csrIntEnable s = 0"
    and "nextPrivMode s = M_MODE \<longrightarrow> mst (status s) ms_mie \<noteq> 0"
  shows "\<exists>s'. step w vt s = Inr s' \<and> currentProgramCounter s' = trap_vector (csrMTrapVecBaseAddr s) (mk_cause 11 1)
    \<and> csrMachineCause s' = mk_cause 11 1 \<and> csrMExceptionPC s' = currentProgramCounter s \<and> nextPrivMode s' = M_MODE
    \<and> GPR s' = GPR s \<and> subBus s' = subBus s \<and> minstret s' = minstret s"
proof -
  let ?p = "update_pending w s"
  have pre: "preExec w s = raise_int int_m_ext ?p" using preExec_external assms(2-) by blast
  have p: "core_ok ?p" "\<not> needTrap ?p" using ok by (simp_all add: update_pending_ok)
  obtain s1 where r: "raise_int int_m_ext ?p = Inr s1" using raise_int_returns[of int_m_ext ?p] p(2) by auto
  then have r': "raiseTrap (mk_cause 11 1) 0 ?p = Inr s1" by (simp add: raise_int_def)
  have "cau (mk_cause 11 1) ca_cause < 31" using int_cause[of int_m_ext] by simp
  moreover have "\<not> bit (csrMIntDelegation s) 11" using deleg assms(3) by (metis bit_0_eq bit_and_iff bot_apply bot_bool_def)
  ultimately have "trap_dest_S (mk_cause 11 1) ?p = Inr False"
    using trap_dest_S_delegated[of "mk_cause 11 1" ?p] int_cause[of int_m_ext]
    by (simp add: delegated_def update_pending_def)
  then have s1: "s1 = trap_to_M (mk_cause 11 1) 0 (?p\<lparr>needTrap := True\<rparr>)"
    using raiseTrap_cases[OF r'] by auto
  have "core_ok s1" by (rule raiseTrap_ok[OF p(1) r'])
  then have f: "finish 0 False (False, False, s1) = Inr (s1\<lparr>currentProgramCounter := next_pc False False s1,
      minstret := minstret s1 + (if needTrap s1 then 0 else 1), needTrap := False\<rparr>)"
    by (simp add: finish_returns)
  have "needTrap s1" by (rule raiseTrap_frame(1)[OF r'])
  then have "step w vt s = finish 0 False (False, False, s1)" by (simp add: step_def pre r)
  then show ?thesis using f by (simp add: s1 trap_to_M_def next_pc_def update_pending_def)
qed

lemma loop_external:
  assumes ok: "machine_ok m" and b: "subBus (m_core m) = (b, d)" and c: "j \<le> 4" "candidate (plic_dev d) 0 j"
    and core: "bit (csrIntEnable (m_core m)) 11" "csrMIntDelegation (m_core m) AND csrIntEnable (m_core m) = 0"
      "nextPrivMode (m_core m) = M_MODE \<longrightarrow> mst (status (m_core m)) ms_mie \<noteq> 0"
  shows "\<exists>m'. loop_body behind m = Inr (u_tx (uart_dev d), m')
    \<and> currentProgramCounter (m_core m') = trap_vector (csrMTrapVecBaseAddr (m_core m)) (mk_cause 11 1)
    \<and> csrMachineCause (m_core m') = mk_cause 11 1 \<and> csrMExceptionPC (m_core m') = currentProgramCounter (m_core m)
    \<and> nextPrivMode (m_core m') = M_MODE \<and> GPR (m_core m') = GPR (m_core m) \<and> minstret (m_core m') = minstret (m_core m)"
proof -
  obtain d' w' where t: "ticks m = Inr (u_tx (uart_dev d), m\<lparr>m_core := (m_core m)\<lparr>subBus := (b, d')\<rparr>, m_wires := w'\<rparr>)"
    and w: "driven d w'"
    using ticks_spec[OF _ b] ok unfolding machine_ok_def by blast
  let ?s = "(m_core m)\<lparr>subBus := (b, d')\<rparr>"
  have "core_ok ?s" using ok by (simp add: machine_ok_def core_ok_def)
  moreover have "w' (Meip (intStatus ?s))" using w c ok by (auto simp: driven_def machine_ok_def)
  ultimately obtain s' where s': "step w' (sys_vt behind) ?s = Inr s'"
    "currentProgramCounter s' = trap_vector (csrMTrapVecBaseAddr ?s) (mk_cause 11 1)"
    "csrMachineCause s' = mk_cause 11 1" "csrMExceptionPC s' = currentProgramCounter ?s" "nextPrivMode s' = M_MODE" "GPR s' = GPR ?s"
    "minstret s' = minstret ?s"
    using step_external[of ?s w' "sys_vt behind"] core by (simp only: rv64core.simps mmu_state.simps) auto
  show ?thesis using s' by (simp add: loop_body_def t)
qed

section \<open>Properties\<close>

text \<open>
  C2. The set-up of \<open>simple_full_sys\<close> always returns, with any program and any memory that ends below the top of the address space, and every machine it reaches, with any keys
  typed at any time between two turns of its loop, is well formed: the core keeps its invariant, the bus and every device
  behind it keep theirs, the core keeps its hart id and its interrupt lines; and the ticks of the devices return and drive the lines of the
  core from the state of the devices.
\<close>

theorem machine_invariant:
  assumes "0x80000000 + length ram < 2 ^ 64"
  shows "\<exists>m0. simple_full_sys mem0 ram img w = Inr m0
     \<and> (\<forall>m b d. machine_run m0 m \<and> subBus (m_core m) = (b, d) \<longrightarrow>
          core_ok (m_core m) \<and> bus_wf b \<and> devs_ok d \<and> intStatus (m_core m) = 0 \<and> rvHartID (m_core m) = 0
          \<and> (\<exists>out m'. ticks m = Inr (out, m') \<and> driven d (m_wires m')))"
proof -
  obtain m0 where m0: "simple_full_sys mem0 ram img w = Inr m0" by (simp add: boot_eq Let_def)
  have "core_ok (m_core m) \<and> bus_wf b \<and> devs_ok d \<and> intStatus (m_core m) = 0 \<and> rvHartID (m_core m) = 0
      \<and> (\<exists>out m'. ticks m = Inr (out, m') \<and> driven d (m_wires m'))"
    if "machine_run m0 m" "subBus (m_core m) = (b, d)" for m b d
  proof -
    have ok: "machine_ok m" using run_ok[OF that(1) boot_ok[OF m0 assms]] .
    have "\<exists>out m'. ticks m = Inr (out, m') \<and> driven d (m_wires m')"
      using ticks_spec[OF _ that(2)] ok unfolding machine_ok_def by fastforce
    then show ?thesis using ok that(2) by (simp add: machine_ok_def sys_bus_ok_def)
  qed
  then show ?thesis using m0 by blast
qed

text \<open>A machine with 16 bytes of memory, in which a key was typed.\<close>

theorem machine_invariant_witness:
  "\<exists>m d. simple_full_sys (zero_core (addrbus_new, boot_devs)) (replicate 16 0) [0x13, 0, 0, 0] (\<lambda>_. False) = Inr m
     \<and> subBus (m_core (type_key 65 m)) = (simple_bus (replicate 16 0) [0x13, 0, 0, 0], d) \<and> u_rx (uart_dev d) = [65] \<and> devs_ok d"
proof -
  let ?c = "RV64Core_new (zero_core (addrbus_new, boot_devs)) (simple_bus (replicate 16 0) [0x13, 0, 0, 0], boot_devs) 0 0 (\<lambda>_. False)"
  obtain m where m: "simple_full_sys (zero_core (addrbus_new, boot_devs)) (replicate 16 0) [0x13, 0, 0, 0] (\<lambda>_. False) = Inr m"
    by (simp add: boot_eq Let_def)
  then have "m_core m = (fst ?c)\<lparr>currentProgramCounter := 0x80000000, GPR := (GPR (fst ?c))(10 := 0)\<rparr>"
    by (auto simp: boot_eq Let_def)
  then have s: "subBus (m_core m) = (simple_bus (replicate 16 0) [0x13, 0, 0, 0], boot_devs)"
    by (simp add: RV64Core_new_def RV64SV39_MMU_new_def reset_def)
  let ?d = "boot_devs\<lparr>uart_dev := readInput 65 (uart_dev boot_devs)\<rparr>"
  have t: "subBus (m_core (type_key 65 m)) = (simple_bus (replicate 16 0) [0x13, 0, 0, 0], ?d)"
    by (simp add: type_key_def s)
  have "machine_run m (type_key 65 m)" by (rule machine_run.key[OF machine_run.boot])
  moreover have "0x80000000 + length (replicate 16 (0 :: u8)) < 2 ^ 64" by simp
  ultimately have "devs_ok ?d"
    using machine_invariant [of "replicate 16 0" "zero_core (addrbus_new, boot_devs)" "[0x13, 0, 0, 0]" "\<lambda>_. False"] m t by fastforce
  moreover have "u_rx (uart_dev ?d) = [65]" by (simp add: readInput_def boot_devs_def uart_new_def)
  ultimately show ?thesis using m t by blast
qed

text \<open>
  C5. An interrupt of a device reaches the core within one turn of the loop: when the controller has a source it would offer
  to the first context (pending, enabled, not claimed, its priority positive and at least the threshold), the machine external
  interrupt is enabled and no enabled interrupt is delegated, and interrupts are on if the core is in machine mode, then the
  turn returns, no instruction retires, and the core stands in its machine mode handler with the interrupted address saved and
  the cause 11 with the interrupt bit, whatever instruction was to come.
\<close>

theorem external_interrupt_taken:
  assumes "machine_ok m" and "subBus (m_core m) = (b, d)" and "j \<le> 4" and "candidate (plic_dev d) 0 j"
    and "bit (csrIntEnable (m_core m)) 11" and "csrMIntDelegation (m_core m) AND csrIntEnable (m_core m) = 0"
    and "nextPrivMode (m_core m) = M_MODE \<longrightarrow> mst (status (m_core m)) ms_mie \<noteq> 0"
  shows "\<exists>m'. loop_body behind m = Inr (u_tx (uart_dev d), m')
    \<and> currentProgramCounter (m_core m') = trap_vector (csrMTrapVecBaseAddr (m_core m)) (mk_cause 11 1)
    \<and> csrMachineCause (m_core m') = mk_cause 11 1 \<and> csrMExceptionPC (m_core m') = currentProgramCounter (m_core m)
    \<and> nextPrivMode (m_core m') = M_MODE \<and> GPR (m_core m') = GPR (m_core m) \<and> minstret (m_core m') = minstret (m_core m)"
  using assms by (rule loop_external)

text \<open>A machine in user mode whose serial port has raised source 1.\<close>

definition irq_machine :: machine where
  "irq_machine =
     \<lparr>m_core = (zero_core (simple_bus [] [],
         \<lparr>clint_dev = (clint_new 2)\<lparr>clint_intContexts := clint_wires\<rparr>,
          plic_dev = (plic_new 4 4)\<lparr>plic_intContexts := plic_wires, priority := [0, 1, 0, 0, 0], pending := [2],
            enable := [[2], [0], [0], [0]]\<rparr>,
          uart_dev = uart_new (1024 * 1024)\<rparr>))
       \<lparr>nextPrivMode := U_MODE, csrIntEnable := 0x800, csrMTrapVecBaseAddr := 0x100, currentProgramCounter := 0x40\<rparr>,
      m_wires = (\<lambda>_. False)\<rparr>"

lemma irq_machine_ok: "machine_ok irq_machine"
proof -
  have "bus_wf (simple_bus [] [])" by (rule simple_bus_wf) simp
  then show ?thesis
    by (auto simp: irq_machine_def machine_ok_def sys_bus_ok_def devs_ok_def zero_core_def core_ok_def clint_wf_def clint_new_def
        plic_wf_def plic_new_def uart_wf_def uart_new_def clint_wires_def plic_wires_def bit_words_def status_ok_def get_f_def bf_get_def
        M_MODE_INT_MASK_def S_MODE_INT_MASK_def int_bit_def)
qed

theorem external_interrupt_taken_witness:
  "\<exists>m'. loop_body (\<lambda>_. []) irq_machine = Inr ([], m') \<and> currentProgramCounter (m_core m') = 0x100
     \<and> csrMExceptionPC (m_core m') = 0x40 \<and> nextPrivMode (m_core m') = M_MODE"
proof -
  obtain b d where s: "subBus (m_core irq_machine) = (b, d)" by force
  then have d: "candidate (plic_dev d) 0 1" "u_tx (uart_dev d) = []"
    by (auto simp: irq_machine_def zero_core_def candidate_def plic_new_def src_bit_def uart_new_def bit_numeral_rec bit_words_def)
  have core: "bit (csrIntEnable (m_core irq_machine)) 11" "csrMIntDelegation (m_core irq_machine) AND csrIntEnable (m_core irq_machine) = 0"
    "nextPrivMode (m_core irq_machine) = M_MODE \<longrightarrow> mst (status (m_core irq_machine)) ms_mie \<noteq> 0"
    "trap_vector (csrMTrapVecBaseAddr (m_core irq_machine)) (mk_cause 11 1) = 0x100"
    "currentProgramCounter (m_core irq_machine) = 0x40"
    by (simp_all add: irq_machine_def zero_core_def bit_numeral_rec trap_vector_def get_f_def bf_get_def)
  show ?thesis
    using external_interrupt_taken [OF irq_machine_ok s _ d(1) core(1-3)] d(2) core(4,5) by auto
qed

end
