(* ===== verification/GdbRsp.thy ===== *)
theory GdbRsp
  imports Debug
begin

text \<open>
  The packets of the remote serial protocol of GDB, \<open>src/gdb_stub/gdb_rsp.cpp\<close>: the check sum, the recognition of a command
  by regular expressions, and the hexadecimal texts of bytes and numbers. A \<open>char\<close> of the source is a \<open>char\<close>.
\<close>

datatype GDB_RSP_PacketType_e = CMD_UNKNOWN | CMD_MEM_READ | CMD_MEM_WRITE | CMD_REG_READ_INDEX | CMD_REG_WRITE_INDEX
  | CMD_REG_READ_ALL | CMD_REG_WRITE_ALL | CMD_Q_TRACE_STATUS | CMD_QUERY_HALT_REASON | CMD_SINGLE_STEP
  | CMD_INSERT_BREAKPOINT | CMD_REMOVE_BREAKPOINT | CMD_CONTINUE | CMD_SPECIFY_THREAD_FOR_G | CMD_SPECIFY_THREAD_FOR_C
  | CMD_Q_ATTACHED | CMD_Q_SUPPORTED | CMD_Q_THREAD_INFO | EMPTY_PACKET

record GDB_RSP_Packet =
  packetType :: GDB_RSP_PacketType_e
  packet_cmd :: string
  paramList :: "string list"

definition PACKET_BEGIN_CHAR :: char where "PACKET_BEGIN_CHAR = CHR ''$''"
definition PACKET_END_CHAR :: char where "PACKET_END_CHAR = CHR ''#''"

section \<open>Regular expressions\<close>

text \<open>
  The part of the regular expressions of the standard library (ECMAScript) that the table uses: a character of a class,
  a class repeated greedily, a sequence, an alternative, and a look at the next character.
\<close>

datatype regex = Cls "char \<Rightarrow> bool" | Star "char \<Rightarrow> bool" | Plus "char \<Rightarrow> bool" | Then regex regex | Or regex regex
  | Ahead "char \<Rightarrow> bool"

primrec star_rests :: "(char \<Rightarrow> bool) \<Rightarrow> string \<Rightarrow> string list" where
  "star_rests p [] = [[]]"
| "star_rests p (c # s) = (if p c then star_rests p s @ [c # s] else [c # s])"

text \<open>What a match at the beginning of a text leaves of it, for every match in the order in which they are tried.\<close>

primrec rests :: "regex \<Rightarrow> string \<Rightarrow> string list" where
  "rests (Cls p) s = (case s of [] \<Rightarrow> [] | c # t \<Rightarrow> if p c then [t] else [])"
| "rests (Star p) s = star_rests p s"
| "rests (Plus p) s = (case s of [] \<Rightarrow> [] | c # t \<Rightarrow> if p c then star_rests p t else [])"
| "rests (Then r1 r2) s = concat (map (rests r2) (rests r1 s))"
| "rests (Or r1 r2) s = rests r1 s @ rests r2 s"
| "rests (Ahead p) s = (case s of [] \<Rightarrow> [] | c # t \<Rightarrow> if p c then [s] else [])"

definition regex_match :: "string \<Rightarrow> regex \<Rightarrow> bool" where
  "regex_match s r \<longleftrightarrow> [] \<in> set (rests r s)"

text \<open>\<open>std::sregex_iterator\<close>: all matches from left to right. The expressions of the table do not match the empty text.\<close>

function find_all :: "regex \<Rightarrow> string \<Rightarrow> string list" where
  "find_all r [] = []"
| "find_all r (c # s) =
     (case rests r (c # s) of
        [] \<Rightarrow> find_all r s
      | t # _ \<Rightarrow> if length t \<le> length s then take (length (c # s) - length t) (c # s) # find_all r t else find_all r s)"
  by pat_completeness auto
termination by (relation "measure (\<lambda>(r, s). length s)") auto

declare find_all.simps(2) [simp del]

section \<open>Hexadecimal digits\<close>

definition hex_digit :: "char \<Rightarrow> nat option" where
  "hex_digit c =
     (let n = of_char c in
      if 48 \<le> n \<and> n \<le> 57 then Some (n - 48)
      else if 65 \<le> n \<and> n \<le> 70 then Some (n - 55)
      else if 97 \<le> n \<and> n \<le> 102 then Some (n - 87)
      else None)"

definition is_hex :: "char \<Rightarrow> bool" where
  "is_hex c \<longleftrightarrow> hex_digit c \<noteq> None"

text \<open>\<open>%x\<close> of a digit and \<open>%02x\<close> of a byte.\<close>

definition hex_char :: "nat \<Rightarrow> char" where
  "hex_char n = char_of (if n < 10 then n + 48 else n + 87)"

definition hex_byte :: "u8 \<Rightarrow> string" where
  "hex_byte b = [hex_char (unat b div 16), hex_char (unat b mod 16)]"

definition hex_bytes :: "u8 list \<Rightarrow> string" where
  "hex_bytes bs = concat (map hex_byte bs)"

text \<open>\<open>strtoll(s, nullptr, 16)\<close> and \<open>strtoul\<close> on the texts the source passes, which begin with their hexadecimal digits.\<close>

definition hex_number :: "string \<Rightarrow> nat" where
  "hex_number s = foldl (\<lambda>a c. 16 * a + the (hex_digit c)) 0 (takeWhile is_hex s)"

definition strtoll16 :: "string \<Rightarrow> u64" where
  "strtoll16 s = of_nat (min (hex_number s) (2 ^ 63 - 1))"

section \<open>Packets\<close>

definition lit :: "char \<Rightarrow> regex" where
  "lit c = Cls ((=) c)"

fun text_of :: "string \<Rightarrow> regex" where
  "text_of [c] = lit c"
| "text_of (c # s) = Then (lit c) (text_of s)"
| "text_of [] = Star (\<lambda>_. False)"

definition hexs :: regex where
  "hexs = Plus is_hex"

definition any_char :: "char \<Rightarrow> bool" where
  "any_char c \<longleftrightarrow> c \<noteq> CHR 0x0A \<and> c \<noteq> CHR 0x0D"

definition word_char :: "char \<Rightarrow> bool" where
  "word_char c \<longleftrightarrow> (let n = (of_char c :: nat) in 48 \<le> n \<and> n \<le> 57 \<or> 65 \<le> n \<and> n \<le> 90 \<or> 97 \<le> n \<and> n \<le> 122 \<or> n = 95)"

text \<open>The table, in the order in which \<open>std::map\<close> is traversed, which is the order of the enumeration.\<close>

definition PacketTypeRegexStr_GV :: "(GDB_RSP_PacketType_e \<times> regex \<times> regex option) list" where
  "PacketTypeRegexStr_GV =
     [(CMD_MEM_READ, Then (lit (CHR ''m'')) (Then hexs (Then (lit (CHR '','')) hexs)), Some hexs),
      (CMD_MEM_WRITE, Then (lit (CHR ''M'')) (Then hexs (Then (lit (CHR '','')) (Then hexs (Then (lit (CHR '':'')) hexs)))), Some hexs),
      (CMD_REG_READ_INDEX, Then (lit (CHR ''p'')) hexs, Some hexs),
      (CMD_REG_READ_ALL, lit (CHR ''g''), None),
      (CMD_REG_WRITE_ALL, Then (lit (CHR ''G'')) hexs, Some hexs),
      (CMD_QUERY_HALT_REASON, lit (CHR ''?''), None),
      (CMD_INSERT_BREAKPOINT, Then (lit (CHR ''Z'')) (Then hexs (Then (lit (CHR '','')) (Then hexs (Then (lit (CHR '','')) hexs)))), Some hexs),
      (CMD_REMOVE_BREAKPOINT, Then (lit (CHR ''z'')) (Then hexs (Then (lit (CHR '','')) (Then hexs (Then (lit (CHR '','')) hexs)))), Some hexs),
      (CMD_CONTINUE, Or (Then (lit (CHR ''c'')) hexs) (lit (CHR ''c'')), Some (Then (Cls any_char) hexs)),
      (CMD_Q_SUPPORTED, Then (text_of ''qSupported:'') (Star any_char),
        Some (Then (Plus (\<lambda>c. c = CHR ''-'' \<or> word_char c)) (Ahead ((=) (CHR ''+'')))))]"

text \<open>\<open>char\<close> is signed: the sum adds sign extended bytes.\<close>

definition CalCheckSum_GDB_RSP_Utils :: "string \<Rightarrow> u8" where
  "CalCheckSum_GDB_RSP_Utils s = ucast (foldl (\<lambda>sum c. sum + scast (of_char c :: u8)) (0 :: u64) s mod 256)"

text \<open>
  The text of a packet is copied into a C string, which ends at the first NUL. \<open>ret0\<close> is the packet the caller passes; its
  type is not initialised, and the first statement, for an empty packet, does not return.
\<close>

definition c_str :: "string \<Rightarrow> string" where
  "c_str s = takeWhile (\<lambda>c. c \<noteq> CHR 0x00) s"

definition ParsePacket_GDB_RSP_Utils :: "string \<Rightarrow> GDB_RSP_Packet \<Rightarrow> GDB_RSP_Packet" where
  "ParsePacket_GDB_RSP_Utils data ret0 =
     (let ret = (if data = [] then ret0\<lparr>packetType := EMPTY_PACKET, packet_cmd := []\<rparr> else ret0);
          data_str = c_str data in
      case find (\<lambda>(_, whole, _). regex_match data_str whole) PacketTypeRegexStr_GV of
        Some (ty, _, param) \<Rightarrow>
          (case param of
             None \<Rightarrow> ret\<lparr>packetType := ty\<rparr>
           | Some r \<Rightarrow> ret\<lparr>packetType := ty, paramList := paramList ret @ find_all r data_str\<rparr>)
      | None \<Rightarrow> ret\<lparr>packetType := CMD_UNKNOWN, packet_cmd := data_str\<rparr>)"

text \<open>Every two characters are the digits of a byte.\<close>

fun byte_stream :: "string \<Rightarrow> u8 list" where
  "byte_stream (a # b # s) = of_nat (hex_number [a, b]) # byte_stream s"
| "byte_stream _ = []"

definition ParseByteStreamStr :: "string \<Rightarrow> u8 list res" where
  "ParseByteStreamStr s = guard (even (length s)) (Inr (byte_stream s))"

section \<open>Matching\<close>

lemma star_rests_iff: "t \<in> set (star_rests p s) \<longleftrightarrow> (\<exists>u. s = u @ t \<and> (\<forall>c \<in> set u. p c))"
proof (induction s)
  case (Cons c s)
  have "(\<exists>u. c # s = u @ t \<and> (\<forall>c \<in> set u. p c)) \<longleftrightarrow> t = c # s \<or> p c \<and> (\<exists>u. s = u @ t \<and> (\<forall>c \<in> set u. p c))"
    by (auto simp: Cons_eq_append_conv)
  then show ?case using Cons by auto
qed auto

lemma regex_match_Cls [simp]: "regex_match s (lit c) \<longleftrightarrow> s = [c]"
  by (auto simp: regex_match_def lit_def split: list.split)

lemma regex_match_Or [simp]: "regex_match s (Or r1 r2) \<longleftrightarrow> regex_match s r1 \<or> regex_match s r2"
  by (simp add: regex_match_def)

lemma regex_match_lit_Then [simp]: "regex_match s (Then (lit c) r) \<longleftrightarrow> (\<exists>t. s = c # t \<and> regex_match t r)"
  by (auto simp: regex_match_def lit_def split: list.split)

lemma regex_match_hexs [simp]: "regex_match s hexs \<longleftrightarrow> s \<noteq> [] \<and> (\<forall>c \<in> set s. is_hex c)"
  by (cases s) (auto simp: regex_match_def hexs_def star_rests_iff)

lemma rests_hexs: "t \<in> set (rests hexs s) \<longleftrightarrow> (\<exists>u. s = u @ t \<and> u \<noteq> [] \<and> (\<forall>c \<in> set u. is_hex c))"
proof (cases s)
  case (Cons c s')
  have "(\<exists>u. c # s' = u @ t \<and> u \<noteq> [] \<and> (\<forall>c \<in> set u. is_hex c)) \<longleftrightarrow> is_hex c \<and> (\<exists>u. s' = u @ t \<and> (\<forall>c \<in> set u. is_hex c))"
    by (auto simp: Cons_eq_append_conv)
  then show ?thesis using Cons by (simp add: hexs_def star_rests_iff)
qed (simp add: hexs_def)

lemma regex_match_hexs_Then:
  "regex_match s (Then hexs r) \<longleftrightarrow> (\<exists>u t. s = u @ t \<and> u \<noteq> [] \<and> (\<forall>c \<in> set u. is_hex c) \<and> regex_match t r)"
proof -
  have "regex_match s (Then hexs r) \<longleftrightarrow> (\<exists>t. t \<in> set (rests hexs s) \<and> regex_match t r)"
    by (auto simp: regex_match_def)
  then show ?thesis by (simp only: rests_hexs) blast
qed

text \<open>The first characters of the commands.\<close>

definition command_char :: "GDB_RSP_PacketType_e \<Rightarrow> char" where
  "command_char ty = (case ty of CMD_MEM_READ \<Rightarrow> CHR ''m'' | CMD_MEM_WRITE \<Rightarrow> CHR ''M'' | CMD_REG_READ_INDEX \<Rightarrow> CHR ''p''
     | CMD_REG_READ_ALL \<Rightarrow> CHR ''g'' | CMD_REG_WRITE_ALL \<Rightarrow> CHR ''G'' | CMD_QUERY_HALT_REASON \<Rightarrow> CHR ''?''
     | CMD_INSERT_BREAKPOINT \<Rightarrow> CHR ''Z'' | CMD_REMOVE_BREAKPOINT \<Rightarrow> CHR ''z'' | CMD_CONTINUE \<Rightarrow> CHR ''c'' | _ \<Rightarrow> CHR ''q'')"

lemma row_char:
  "(ty, whole, param) \<in> set PacketTypeRegexStr_GV \<Longrightarrow> regex_match s whole \<Longrightarrow> \<exists>t. s = command_char ty # t"
  by (auto simp: PacketTypeRegexStr_GV_def command_char_def) (auto simp: regex_match_def lit_def split: list.splits)

lemma row_unique:
  assumes "(ty, whole, param) \<in> set PacketTypeRegexStr_GV" "(ty', whole', param') \<in> set PacketTypeRegexStr_GV"
    and "regex_match s whole" "regex_match s whole'"
  shows "(ty, whole, param) = (ty', whole', param')"
proof -
  have "command_char ty = command_char ty'" using row_char[OF assms(1,3)] row_char[OF assms(2,4)] by auto
  moreover have "distinct (map (\<lambda>r. command_char (fst r)) PacketTypeRegexStr_GV)"
    by (simp add: PacketTypeRegexStr_GV_def command_char_def)
  ultimately show ?thesis
    using assms(1,2) unfolding distinct_map inj_on_def by (metis fst_conv)
qed

lemma parse_row:
  assumes "(ty, whole, param) \<in> set PacketTypeRegexStr_GV" and "regex_match (c_str data) whole"
  shows "ParsePacket_GDB_RSP_Utils data \<lparr>packetType = t0, packet_cmd = [], paramList = []\<rparr> =
    \<lparr>packetType = ty, packet_cmd = [], paramList = (case param of None \<Rightarrow> [] | Some r \<Rightarrow> find_all r (c_str data))\<rparr>"
proof -
  let ?P = "\<lambda>(_, whole, _). regex_match (c_str data) whole"
  obtain r where r: "find ?P PacketTypeRegexStr_GV = Some r"
    using assms by (cases "find ?P PacketTypeRegexStr_GV") (auto simp: find_None_iff)
  then have f: "r \<in> set PacketTypeRegexStr_GV" "?P r" by (metis find_Some_iff nth_mem)+
  obtain x a b where x: "r = (x, a, b)" by (cases r)
  have "(ty, whole, param) = (x, a, b)" by (rule row_unique[OF assms(1) _ assms(2)]) (use f x in auto)
  then have "r = (ty, whole, param)" using x by simp
  with r show ?thesis by (simp add: ParsePacket_GDB_RSP_Utils_def Let_def split: option.split)
qed

lemma parse_no_row:
  assumes "\<And>ty whole param. (ty, whole, param) \<in> set PacketTypeRegexStr_GV \<Longrightarrow> \<not> regex_match (c_str data) whole"
  shows "packetType (ParsePacket_GDB_RSP_Utils data ret0) = CMD_UNKNOWN"
proof -
  have "find (\<lambda>(_, whole, _). regex_match (c_str data) whole) PacketTypeRegexStr_GV = None"
    using assms by (auto simp: find_None_iff)
  then show ?thesis by (simp add: ParsePacket_GDB_RSP_Utils_def)
qed

section \<open>Hexadecimal texts\<close>

lemma hex_char_digit: "n < 16 \<Longrightarrow> hex_digit (hex_char n) = Some n"
  by (simp add: hex_digit_def hex_char_def Let_def)

lemma hex_char_hex: "n < 16 \<Longrightarrow> is_hex (hex_char n)"
  by (simp add: is_hex_def hex_char_digit)

lemma hex_bytes_simps [simp]: "hex_bytes [] = []" "hex_bytes (b # bs) = hex_byte b @ hex_bytes bs" "hex_bytes (bs @ cs) = hex_bytes bs @ hex_bytes cs"
  by (simp_all add: hex_bytes_def)

lemma byte_digits: "unat (b :: u8) div 16 < 16" "unat b mod 16 < 16"
proof -
  have "unat b < 2 ^ LENGTH(8)" by (rule unsigned_less)
  then show "unat b div 16 < 16" "unat b mod 16 < 16" by auto
qed

lemma hex_byte_hex: "\<forall>c \<in> set (hex_byte b). is_hex c"
  using byte_digits[of b] by (simp add: hex_byte_def hex_char_hex)

lemma hex_bytes_hex: "\<forall>c \<in> set (hex_bytes bs). is_hex c"
  using hex_byte_hex by (induction bs) auto

lemma length_hex_bytes [simp]: "length (hex_bytes bs) = 2 * length bs"
  by (induction bs) (simp_all add: hex_byte_def)

lemma byte_stream_hex [simp]: "byte_stream (hex_bytes bs) = bs"
proof (induction bs)
  case (Cons b bs)
  have "hex_number (hex_byte b) = unat b"
    using byte_digits[of b] by (simp add: hex_number_def hex_byte_def hex_char_hex hex_char_digit)
  then show ?case using Cons by (simp add: hex_byte_def)
qed simp

lemma parse_hex_bytes: "ParseByteStreamStr (hex_bytes bs) = Inr bs"
  by (simp add: ParseByteStreamStr_def)

section \<open>The parameters of a command\<close>

lemma star_rests_hd:
  "(\<forall>c \<in> set u. p c) \<Longrightarrow> t = [] \<or> \<not> p (hd t) \<Longrightarrow> \<exists>ts. star_rests p (u @ t) = t # ts"
proof (induction u)
  case Nil then show ?case by (cases t) auto
qed auto

lemma find_hexs_run:
  assumes "u \<noteq> []" and "\<forall>c \<in> set u. is_hex c" and "t = [] \<or> \<not> is_hex (hd t)"
  shows "find_all hexs (u @ t) = u # find_all hexs t"
proof -
  obtain c u' where u: "u = c # u'" using assms(1) by (cases u) auto
  obtain ts where "star_rests is_hex (u' @ t) = t # ts" using star_rests_hd[of u' is_hex t] assms u by auto
  then show ?thesis using assms(2) by (simp add: u hexs_def find_all.simps(2))
qed

lemma find_hexs_skip: "\<not> is_hex c \<Longrightarrow> find_all hexs (c # t) = find_all hexs t"
  by (simp add: hexs_def find_all.simps(2))

lemma hexs_text: "\<forall>c \<in> set u. is_hex c \<Longrightarrow> \<forall>c \<in> set u. c \<noteq> CHR 0x00 \<and> c \<noteq> CHR ''$'' \<and> c \<noteq> CHR ''#''"
  by (auto simp: is_hex_def hex_digit_def Let_def)

lemma not_hex [simp]:
  "\<not> is_hex (CHR ''m'')" "\<not> is_hex (CHR ''M'')" "\<not> is_hex (CHR ''G'')" "\<not> is_hex (CHR ''Z'')" "\<not> is_hex (CHR ''z'')"
  "\<not> is_hex (CHR '','')" "\<not> is_hex (CHR '':'')" "\<not> is_hex (CHR ''p'')"
  by (simp_all add: is_hex_def hex_digit_def)

lemma c_str_id: "\<forall>c \<in> set s. c \<noteq> CHR 0x00 \<Longrightarrow> c_str s = s"
  by (auto simp: c_str_def takeWhile_eq_all_conv)

abbreviation fresh_packet :: "GDB_RSP_PacketType_e \<Rightarrow> GDB_RSP_Packet" where
  "fresh_packet t0 \<equiv> \<lparr>packetType = t0, packet_cmd = [], paramList = []\<rparr>"

definition hex_text :: "string \<Rightarrow> bool" where
  "hex_text s \<longleftrightarrow> s \<noteq> [] \<and> (\<forall>c \<in> set s. is_hex c)"

lemma match_hexs_lit: "hex_text a \<Longrightarrow> regex_match t r \<Longrightarrow> regex_match (a @ c # t) (Then hexs (Then (lit c) r))"
  unfolding regex_match_hexs_Then hex_text_def by (intro exI[of _ a] exI[of _ "c # t"]) simp

lemma parse_commands:
  assumes "hex_text a" "hex_text n" "hex_text d"
  shows "ParsePacket_GDB_RSP_Utils (CHR ''m'' # a @ CHR '','' # n) (fresh_packet t0) =
      \<lparr>packetType = CMD_MEM_READ, packet_cmd = [], paramList = [a, n]\<rparr>"
    "ParsePacket_GDB_RSP_Utils (CHR ''M'' # a @ CHR '','' # n @ CHR '':'' # d) (fresh_packet t0) =
      \<lparr>packetType = CMD_MEM_WRITE, packet_cmd = [], paramList = [a, n, d]\<rparr>"
    "ParsePacket_GDB_RSP_Utils (CHR ''G'' # d) (fresh_packet t0) =
      \<lparr>packetType = CMD_REG_WRITE_ALL, packet_cmd = [], paramList = [d]\<rparr>"
    "ParsePacket_GDB_RSP_Utils ''g'' (fresh_packet t0) = \<lparr>packetType = CMD_REG_READ_ALL, packet_cmd = [], paramList = []\<rparr>"
    "ParsePacket_GDB_RSP_Utils ''c'' (fresh_packet t0) = \<lparr>packetType = CMD_CONTINUE, packet_cmd = [], paramList = []\<rparr>"
proof -
  have h: "a \<noteq> []" "n \<noteq> []" "d \<noteq> []" "\<forall>c \<in> set a. is_hex c" "\<forall>c \<in> set n. is_hex c" "\<forall>c \<in> set d. is_hex c"
    using assms by (auto simp: hex_text_def)
  note nz = hexs_text[OF h(4)] hexs_text[OF h(5)] hexs_text[OF h(6)]
  note run = find_hexs_run[OF h(1,4)] find_hexs_run[OF h(2,5)] find_hexs_run[OF h(3,6), of "[]", simplified]
    find_hexs_run[OF h(2,5), of "[]", simplified]
  have m: "c_str (CHR ''m'' # a @ CHR '','' # n) = CHR ''m'' # a @ CHR '','' # n"
    "c_str (CHR ''M'' # a @ CHR '','' # n @ CHR '':'' # d) = CHR ''M'' # a @ CHR '','' # n @ CHR '':'' # d"
    "c_str (CHR ''G'' # d) = CHR ''G'' # d" "c_str ''g'' = ''g''" "c_str ''c'' = ''c''"
    using nz by (intro c_str_id; auto)+
  show "ParsePacket_GDB_RSP_Utils (CHR ''m'' # a @ CHR '','' # n) (fresh_packet t0) =
      \<lparr>packetType = CMD_MEM_READ, packet_cmd = [], paramList = [a, n]\<rparr>"
    by (subst parse_row[of CMD_MEM_READ _ "Some hexs"], simp add: PacketTypeRegexStr_GV_def)
      (use h assms in \<open>auto simp: m find_hexs_skip run intro!: match_hexs_lit\<close>)
  show "ParsePacket_GDB_RSP_Utils (CHR ''M'' # a @ CHR '','' # n @ CHR '':'' # d) (fresh_packet t0) =
      \<lparr>packetType = CMD_MEM_WRITE, packet_cmd = [], paramList = [a, n, d]\<rparr>"
    by (subst parse_row[of CMD_MEM_WRITE _ "Some hexs"], simp add: PacketTypeRegexStr_GV_def)
      (use h assms in \<open>auto simp: m find_hexs_skip run intro!: match_hexs_lit\<close>)
  show "ParsePacket_GDB_RSP_Utils (CHR ''G'' # d) (fresh_packet t0) =
      \<lparr>packetType = CMD_REG_WRITE_ALL, packet_cmd = [], paramList = [d]\<rparr>"
    by (subst parse_row[of CMD_REG_WRITE_ALL _ "Some hexs"], simp add: PacketTypeRegexStr_GV_def)
      (use h assms in \<open>auto simp: m find_hexs_skip run intro!: match_hexs_lit\<close>)
  show "ParsePacket_GDB_RSP_Utils ''g'' (fresh_packet t0) = \<lparr>packetType = CMD_REG_READ_ALL, packet_cmd = [], paramList = []\<rparr>"
    by (subst parse_row[of CMD_REG_READ_ALL _ None], simp add: PacketTypeRegexStr_GV_def) (simp_all add: m)
  show "ParsePacket_GDB_RSP_Utils ''c'' (fresh_packet t0) = \<lparr>packetType = CMD_CONTINUE, packet_cmd = [], paramList = []\<rparr>"
    by (subst parse_row[of CMD_CONTINUE _ "Some (Then (Cls any_char) hexs)"], simp add: PacketTypeRegexStr_GV_def)
      (simp_all add: m hexs_def find_all.simps(2))
qed

lemma parse_breakpoint:
  assumes "hex_text k" "hex_text a" "hex_text n"
  shows "ParsePacket_GDB_RSP_Utils (CHR ''Z'' # k @ CHR '','' # a @ CHR '','' # n) (fresh_packet t0) =
      \<lparr>packetType = CMD_INSERT_BREAKPOINT, packet_cmd = [], paramList = [k, a, n]\<rparr>"
proof -
  have h: "k \<noteq> []" "a \<noteq> []" "n \<noteq> []" "\<forall>c \<in> set k. is_hex c" "\<forall>c \<in> set a. is_hex c" "\<forall>c \<in> set n. is_hex c"
    using assms by (auto simp: hex_text_def)
  note nz = hexs_text[OF h(4)] hexs_text[OF h(5)] hexs_text[OF h(6)]
  note run = find_hexs_run[OF h(1,4)] find_hexs_run[OF h(2,5)] find_hexs_run[OF h(3,6), of "[]", simplified]
  have m: "c_str (CHR ''Z'' # k @ CHR '','' # a @ CHR '','' # n) = CHR ''Z'' # k @ CHR '','' # a @ CHR '','' # n"
    using nz by (intro c_str_id) auto
  show ?thesis
    by (subst parse_row[of CMD_INSERT_BREAKPOINT _ "Some hexs"], simp add: PacketTypeRegexStr_GV_def)
      (use h assms in \<open>auto simp: m find_hexs_skip run intro!: match_hexs_lit\<close>)
qed

section \<open>Properties\<close>

text \<open>
  C23. Commands are recognised without ambiguity: a packet is taken for the command of a row of the table exactly when the
  expression of that row matches its text, whatever the order in which the rows are tried; it is unknown exactly when no
  row matches. In particular the empty packet, for which the code has a type of its own, is reported as unknown.
\<close>

theorem gdb_commands_unambiguous:
  assumes "(ty, whole, param) \<in> set PacketTypeRegexStr_GV"
  shows "(packetType (ParsePacket_GDB_RSP_Utils data (fresh_packet t0)) = ty \<longleftrightarrow> regex_match (c_str data) whole)
     \<and> (packetType (ParsePacket_GDB_RSP_Utils data (fresh_packet t0)) = CMD_UNKNOWN \<longleftrightarrow>
          (\<forall>r \<in> set PacketTypeRegexStr_GV. \<not> regex_match (c_str data) (fst (snd r))))
     \<and> packetType (ParsePacket_GDB_RSP_Utils [] (fresh_packet t0)) = CMD_UNKNOWN"
proof -
  let ?t = "packetType (ParsePacket_GDB_RSP_Utils data (fresh_packet t0))"
  have d: "distinct (map fst PacketTypeRegexStr_GV)" "CMD_UNKNOWN \<notin> set (map fst PacketTypeRegexStr_GV)"
    by (simp_all add: PacketTypeRegexStr_GV_def)
  have one: "ty1 = ty2 \<Longrightarrow> (ty1, w1, p1) \<in> set PacketTypeRegexStr_GV \<Longrightarrow> (ty2, w2, p2) \<in> set PacketTypeRegexStr_GV
      \<Longrightarrow> (w1, p1) = (w2, p2)" for ty1 w1 p1 ty2 w2 p2 using eq_key_imp_eq_value[OF d(1), of ty1 "(w1, p1)" "(w2, p2)"] by simp
  have row: "?t = ty'" if "(ty', w, p) \<in> set PacketTypeRegexStr_GV" "regex_match (c_str data) w" for ty' w p
    using parse_row[OF that, of t0] by simp
  have none: "?t = CMD_UNKNOWN" if "\<forall>r \<in> set PacketTypeRegexStr_GV. \<not> regex_match (c_str data) (fst (snd r))"
    by (rule parse_no_row) (use that in force)
  have unk: "CMD_UNKNOWN \<noteq> ty'" if "(ty', w, p) \<in> set PacketTypeRegexStr_GV" for ty' w p
    using d(2) that by (force simp: image_iff)
  have "packetType (ParsePacket_GDB_RSP_Utils [] (fresh_packet t0)) = CMD_UNKNOWN"
  proof (rule parse_no_row)
    fix ty' w p assume "(ty', w, p) \<in> set PacketTypeRegexStr_GV"
    then show "\<not> regex_match (c_str []) w" using row_char[of ty' w p "c_str []"] by (auto simp: c_str_def)
  qed
  moreover have "?t = ty \<longleftrightarrow> regex_match (c_str data) whole"
  proof
    assume t: "?t = ty"
    then have "?t \<noteq> CMD_UNKNOWN" using unk[OF assms] by simp
    then obtain r where r: "r \<in> set PacketTypeRegexStr_GV" "regex_match (c_str data) (fst (snd r))"
      using none by blast
    obtain ty' w p where e: "r = (ty', w, p)" by (cases r)
    then have "ty' = ty" using row[of ty' w p] r t by simp
    then show "regex_match (c_str data) whole" using one[OF _ _ assms, of ty' w p] r e by auto
  qed (rule row[OF assms])
  moreover have "?t = CMD_UNKNOWN \<longleftrightarrow> (\<forall>r \<in> set PacketTypeRegexStr_GV. \<not> regex_match (c_str data) (fst (snd r)))"
    using row none unk by (auto; fastforce)
  ultimately show ?thesis by blast
qed

theorem gdb_commands_unambiguous_witness:
  "packetType (ParsePacket_GDB_RSP_Utils ''g'' (fresh_packet CMD_UNKNOWN)) = CMD_REG_READ_ALL"
proof -
  have "(CMD_REG_READ_ALL, lit (CHR ''g''), None) \<in> set PacketTypeRegexStr_GV" by (simp add: PacketTypeRegexStr_GV_def)
  from gdb_commands_unambiguous [OF this, of "''g''" CMD_UNKNOWN] show ?thesis by (simp add: c_str_def)
qed

end
