(* ===== verification/MiniCpu.thy ===== *)
theory MiniCpu
  imports Debug Isolation
begin

text \<open>
  The core with four register contexts, \<open>modules/platform/rvcore_minicpu\<close>. It is a copy of the simple core in which the
  general registers and the program counter are those of \<open>ctx[currentCtx]\<close>, every trap is an assertion, two words of
  memory are registers of the core (\<open>CTX_ID_REG_MMIO\<close>, which switches contexts, and \<open>PUTC_MMIO\<close>, which prints) and two
  opcodes are new. The text of the control registers, of the memory management unit, of the atomics and of the arithmetic
  unit is that of the simple core, and so are their definitions; a case of the decoder whose text differs only in
  \<open>ctx[currentCtx]\<close> is the case of the simple core run on the current context by \<open>on_ctx\<close>.
\<close>

section \<open>State\<close>

record mini_ctx =
  cx_GPR :: "reg \<Rightarrow> u64"
  cx_waitingChnBits :: u64
  cx_currentProgramCounter :: u64

text \<open>
  \<open>mc_base\<close> holds the members that the two cores share; the registers and the program counter of it are not members of
  this one. \<open>mc_out\<close> is what \<open>putc_color\<close> prints (without the colour codes), \<open>mc_global_tick\<close> the global \<open>global_tick\<close>.
\<close>

record 'b minicore =
  mc_base :: "'b rv64core"
  mc_ctx :: "mini_ctx list"
  mc_currentCtx :: u64
  mc_newCtx :: u64
  mc_switchCtx :: bool
  mc_ch :: u32
  mc_out :: "u8 list"
  mc_global_tick :: u64

definition NR_CTX :: nat where "NR_CTX = 4"

definition CTX_ID_REG_MMIO :: u64 where "CTX_ID_REG_MMIO = 0x66ccf8"
definition PUTC_MMIO :: u64 where "PUTC_MMIO = 0x66cd00"

text \<open>The constructor; memory that it does not initialise is that of \<open>mem0\<close>.\<close>

definition mc_reset :: "'b minicore \<Rightarrow> 'b minicore" where
  "mc_reset c = c\<lparr>mc_base := (reset (mc_base c))\<lparr>GPR := GPR (mc_base c)\<rparr>,
     mc_ctx := map (\<lambda>x. x\<lparr>cx_GPR := (\<lambda>_. 0)\<rparr>) (mc_ctx c)\<rparr>"

definition minicpu_new :: "'b minicore \<Rightarrow> 'b \<Rightarrow> u16 \<Rightarrow> nat \<Rightarrow> irq_store \<Rightarrow> 'b minicore \<times> irq_store" where
  "minicpu_new mem0 b hart_id i w =
     (let (base, w) = RV64Core_new (mc_base mem0) b hart_id i w in
      (mc_reset (mem0\<lparr>mc_base := base, mc_ctx := map (\<lambda>x. x\<lparr>cx_waitingChnBits := 0\<rparr>) (mc_ctx mem0),
         mc_currentCtx := 0, mc_newCtx := 0, mc_switchCtx := False\<rparr>), w))"

section \<open>The current context\<close>

text \<open>The core as the current context sees it, and that view written back; \<open>ctx[currentCtx]\<close> is not checked.\<close>

definition view :: "'b minicore \<Rightarrow> 'b rv64core res" where
  "view c = bnd (arr_get (mc_ctx c) (unat (mc_currentCtx c))) (\<lambda>x.
     Inr ((mc_base c)\<lparr>GPR := cx_GPR x, currentProgramCounter := cx_currentProgramCounter x\<rparr>))"

definition put_view :: "'b rv64core \<Rightarrow> 'b minicore \<Rightarrow> 'b minicore" where
  "put_view s c =
     (let i = unat (mc_currentCtx c) in
      c\<lparr>mc_base := s\<lparr>GPR := GPR (mc_base c), currentProgramCounter := currentProgramCounter (mc_base c)\<rparr>,
        mc_ctx := (mc_ctx c)[i := (mc_ctx c ! i)\<lparr>cx_GPR := GPR s, cx_currentProgramCounter := currentProgramCounter s\<rparr>]\<rparr>)"

type_synonym 'b mini_res = "(bool \<times> bool \<times> 'b minicore) res"

text \<open>
  A piece of code that this core shares with the simple core. \<open>raiseTrap\<close> is \<open>assert(false)\<close> here, so code that would
  raise a trap does not return; no trap is pending before it.
\<close>

definition on_ctx :: "('b rv64core \<Rightarrow> 'b exec_res) \<Rightarrow> 'b minicore \<Rightarrow> 'b mini_res" where
  "on_ctx f c = bnd (view c) (\<lambda>s. bnd (f s) (\<lambda>(np, ill, s').
     if needTrap s' then Inl AssertFail else Inr (np, ill, put_view s' c)))"

definition mc_raiseTrap :: "'a res" where
  "mc_raiseTrap = Inl AssertFail"

definition mc_preExec :: "irq_store \<Rightarrow> 'b minicore \<Rightarrow> 'b minicore res" where
  "mc_preExec w c = bnd (view c) (\<lambda>s. bnd (preExec w s) (\<lambda>s'.
     if needTrap s' then mc_raiseTrap else Inr (put_view s' c)))"

section \<open>Memory\<close>

definition mc_memRead :: "'b slave_atomic_io \<Rightarrow> u64 \<Rightarrow> u64 \<Rightarrow> 'b minicore \<Rightarrow> (bool \<times> u8 list option \<times> 'b minicore) res" where
  "mc_memRead vt start_addr len c =
     (if start_addr mod len \<noteq> 0 then mc_raiseTrap
      else if start_addr = CTX_ID_REG_MMIO then guard (len = 8) (Inr (True, Some (bytes_of 8 (mc_currentCtx c)), c))
      else if start_addr = PUTC_MMIO then guard (len = 4) (Inr (True, Some (bytes_of 4 (mc_ch c)), c))
      else bnd (view c) (\<lambda>s. bnd (mmu_load vt s start_addr len) (\<lambda>(va_err, b, s').
        if va_err = FB_SUCCESS then Inr (True, b, put_view s' c)
        else guard (access_feedback va_err exec_load_acc_fault exec_load_misalign exec_load_pgfault \<noteq> exec_ok) mc_raiseTrap)))"

definition mc_memWrite :: "'b slave_atomic_io \<Rightarrow> u64 \<Rightarrow> u8 list \<Rightarrow> 'b minicore \<Rightarrow> (bool \<times> 'b minicore) res" where
  "mc_memWrite vt start_addr buffer c =
     (if start_addr mod of_nat (length buffer) \<noteq> 0 then mc_raiseTrap
      else if start_addr = CTX_ID_REG_MMIO then
        guard (length buffer = 8) (Inr (True, c\<lparr>mc_newCtx := word_of_bytes buffer, mc_switchCtx := True\<rparr>))
      else if start_addr = PUTC_MMIO then
        guard (length buffer = 4)
          (let ch = word_of_bytes buffer in Inr (True, c\<lparr>mc_ch := ch, mc_out := mc_out c @ [ucast ch]\<rparr>))
      else bnd (view c) (\<lambda>s. bnd (mmu_store vt s start_addr buffer) (\<lambda>(va_err, s').
        if va_err = FB_SUCCESS then Inr (True, put_view s' c)
        else guard (access_feedback va_err exec_store_acc_fault exec_store_misalign exec_store_pgfault \<noteq> exec_ok) mc_raiseTrap)))"

definition mc_load_reg :: "'b slave_atomic_io \<Rightarrow> u64 \<Rightarrow> u64 \<Rightarrow> (u8 list \<Rightarrow> u64) \<Rightarrow> reg \<Rightarrow> 'b minicore \<Rightarrow> 'b mini_res" where
  "mc_load_reg vt mem_addr len widen rd c =
     bnd (mc_memRead vt mem_addr len c) (\<lambda>(ok, buf, c).
       if ok then case buf of None \<Rightarrow> Inl Undefined | Some bs \<Rightarrow> on_ctx (put_reg rd (widen bs)) c
       else Inr (False, False, c))"

definition mc_store_reg :: "'b slave_atomic_io \<Rightarrow> u64 \<Rightarrow> nat \<Rightarrow> reg \<Rightarrow> 'b minicore \<Rightarrow> 'b mini_res" where
  "mc_store_reg vt mem_addr len rs2 c =
     bnd (view c) (\<lambda>s. bnd (mc_memWrite vt mem_addr (bytes_of len (GPR s rs2)) c) (\<lambda>(_, c). Inr (False, False, c)))"

section \<open>The 32-bit instructions\<close>

text \<open>The bodies of \<open>OPCODE_LOAD\<close> and \<open>OPCODE_LOAD_ASYNC\<close> are the same text, and those of the stores.\<close>

definition mc_exec_LOAD :: "'b slave_atomic_io \<Rightarrow> u32 \<Rightarrow> 'b minicore \<Rightarrow> 'b mini_res" where
  "mc_exec_LOAD vt inst c =
     bnd (view c) (\<lambda>s.
       let mem_addr = GPR s (rg inst i_rs1) + scast (fld inst i_imm12); rd = rg inst i_rd in
       case Funct3_Load_enum_of (fld inst i_funct3) of
         Some FUNCT3_LB \<Rightarrow> mc_load_reg vt mem_addr 1 widen_s8 rd c
       | Some FUNCT3_LH \<Rightarrow> mc_load_reg vt mem_addr 2 widen_s16 rd c
       | Some FUNCT3_LW \<Rightarrow> mc_load_reg vt mem_addr 4 widen_s32 rd c
       | Some FUNCT3_LD \<Rightarrow> mc_load_reg vt mem_addr 8 word_of_bytes rd c
       | Some FUNCT3_LBU \<Rightarrow> mc_load_reg vt mem_addr 1 widen_u8 rd c
       | Some FUNCT3_LHU \<Rightarrow> mc_load_reg vt mem_addr 2 widen_u16 rd c
       | Some FUNCT3_LWU \<Rightarrow> mc_load_reg vt mem_addr 4 widen_u32 rd c
       | None \<Rightarrow> Inr (False, True, c))"

definition mc_exec_STORE :: "'b slave_atomic_io \<Rightarrow> u32 \<Rightarrow> 'b minicore \<Rightarrow> 'b mini_res" where
  "mc_exec_STORE vt inst c =
     bnd (view c) (\<lambda>s.
       let mem_addr = GPR s (rg inst s_rs1) + scast (store_offset inst); rs2 = rg inst s_rs2 in
       case Funct3_Store_enum_of (fld inst i_funct3) of
         Some FUNCT3_SB \<Rightarrow> mc_store_reg vt mem_addr 1 rs2 c
       | Some FUNCT3_SH \<Rightarrow> mc_store_reg vt mem_addr 2 rs2 c
       | Some FUNCT3_SW \<Rightarrow> mc_store_reg vt mem_addr 4 rs2 c
       | Some FUNCT3_SD \<Rightarrow> mc_store_reg vt mem_addr 8 rs2 c
       | None \<Rightarrow> Inr (False, True, c))"

text \<open>The cases that are the simple core's on the current context.\<close>

definition mc_exec_LUI :: "u32 \<Rightarrow> 'b minicore \<Rightarrow> 'b mini_res" where
  "mc_exec_LUI inst = on_ctx (exec_LUI inst)"

definition mc_exec_AUIPC :: "u32 \<Rightarrow> 'b minicore \<Rightarrow> 'b mini_res" where
  "mc_exec_AUIPC inst = on_ctx (exec_AUIPC inst)"

definition mc_exec_JAL :: "u32 \<Rightarrow> 'b minicore \<Rightarrow> 'b mini_res" where
  "mc_exec_JAL inst = on_ctx (exec_JAL inst)"

definition mc_exec_JALR :: "u32 \<Rightarrow> 'b minicore \<Rightarrow> 'b mini_res" where
  "mc_exec_JALR inst = on_ctx (exec_JALR inst)"

definition mc_exec_BRANCH :: "u32 \<Rightarrow> 'b minicore \<Rightarrow> 'b mini_res" where
  "mc_exec_BRANCH inst = on_ctx (exec_BRANCH inst)"

definition mc_exec_OPIMM :: "u32 \<Rightarrow> 'b minicore \<Rightarrow> 'b mini_res" where
  "mc_exec_OPIMM inst = on_ctx (exec_OPIMM inst)"

definition mc_exec_OPIMM32 :: "u32 \<Rightarrow> 'b minicore \<Rightarrow> 'b mini_res" where
  "mc_exec_OPIMM32 inst = on_ctx (exec_OPIMM32 inst)"

definition mc_exec_OP :: "u32 \<Rightarrow> 'b minicore \<Rightarrow> 'b mini_res" where
  "mc_exec_OP inst = on_ctx (exec_OP inst)"

definition mc_exec_OP32 :: "u32 \<Rightarrow> 'b minicore \<Rightarrow> 'b mini_res" where
  "mc_exec_OP32 inst = on_ctx (exec_OP32 inst)"

text \<open>
  The privileged instructions: \<open>ecall\<close> and \<open>ebreak\<close> raise a trap, \<open>mret\<close> and \<open>sret\<close> do not, although they set \<open>needTrap\<close>
  for the jump that the end of the step makes.
\<close>

definition on_ret :: "('b rv64core \<Rightarrow> bool \<times> 'b rv64core) \<Rightarrow> 'b minicore \<Rightarrow> 'b mini_res" where
  "on_ret f c = bnd (view c) (\<lambda>s. case f s of (ok, s') \<Rightarrow> Inr (False, \<not> ok, put_view s' c))"

definition mc_exec_PRIV :: "u32 \<Rightarrow> 'b minicore \<Rightarrow> 'b mini_res" where
  "mc_exec_PRIV inst c =
     (let imm = fld inst i_imm12; funct7 = drop_bit 5 (imm AND (push_bit 12 1 - 1)); rs2 = imm AND (push_bit 5 1 - 1);
          plain = (fld inst r_rs1 = 0 \<and> fld inst r_rd = 0) in
      case Funct7_Priv_enum_of funct7 of
        Some FUNCT7_ECALL_EBREAK \<Rightarrow>
          if plain then
            if rs2 = 0 then mc_raiseTrap
            else if rs2 = 1 then mc_raiseTrap
            else on_ctx illegal c
          else on_ctx illegal c
      | Some FUNCT7_SRET_WFI \<Rightarrow>
          if plain then
            if rs2 = 2 then on_ret sret c
            else if rs2 = 5 then on_ctx next_inst c
            else on_ctx illegal c
          else on_ctx next_inst c
      | Some FUNCT7_MRET \<Rightarrow>
          if rs2 = 2 \<and> plain then on_ret mret c else on_ctx illegal c
      | Some FUNCT7_SFENCE_VMA \<Rightarrow>
          on_ret (\<lambda>s. sfence_vma (GPR s (rg inst r_rs1)) (GPR s (rg inst r_rs2) AND 0xffff) s) c
      | None \<Rightarrow> on_ctx illegal c)"

definition mc_exec_SYSTEM :: "u32 \<Rightarrow> 'b minicore \<Rightarrow> 'b mini_res" where
  "mc_exec_SYSTEM inst c =
     (case Funct3_System_enum_of (fld inst i_funct3) of
        Some FUNCT3_PRIV \<Rightarrow> mc_exec_PRIV inst c
      | Some FUNCT3_CSRRW \<Rightarrow> on_ctx (exec_CSRRW inst) c
      | Some FUNCT3_CSRRS \<Rightarrow> on_ctx (exec_CSRRS inst) c
      | Some FUNCT3_CSRRC \<Rightarrow> on_ctx (exec_CSRRC inst) c
      | Some FUNCT3_CSRRWI \<Rightarrow> on_ctx (exec_CSRRWI inst) c
      | Some FUNCT3_CSRRSI \<Rightarrow> on_ctx (exec_CSRRSI inst) c
      | Some FUNCT3_CSRRCI \<Rightarrow> on_ctx (exec_CSRRCI inst) c
      | _ \<Rightarrow> on_ctx illegal c)"

definition mc_exec_AMO :: "'b slave_atomic_io \<Rightarrow> u32 \<Rightarrow> 'b minicore \<Rightarrow> 'b mini_res" where
  "mc_exec_AMO vt inst = on_ctx (exec_AMO vt inst)"

lemmas mc_case_defs = mc_exec_LUI_def mc_exec_AUIPC_def mc_exec_JAL_def mc_exec_JALR_def mc_exec_BRANCH_def mc_exec_OPIMM_def mc_exec_OPIMM32_def mc_exec_OP_def mc_exec_OP32_def mc_exec_AMO_def

definition OPCODE_LOAD_ASYNC :: u32 where "OPCODE_LOAD_ASYNC = 0x0b"
definition OPCODE_STORE_ASYNC :: u32 where "OPCODE_STORE_ASYNC = 0x2b"

definition mc_exec_full :: "'b slave_atomic_io \<Rightarrow> u32 \<Rightarrow> 'b minicore \<Rightarrow> 'b mini_res" where
  "mc_exec_full vt inst c =
     (if fld inst r_opcode = OPCODE_LOAD_ASYNC then mc_exec_LOAD vt inst c
      else if fld inst r_opcode = OPCODE_STORE_ASYNC then mc_exec_STORE vt inst c
      else case RV64I_OpCode_enum_of (fld inst r_opcode) of
        Some OPCODE_LUI \<Rightarrow> mc_exec_LUI inst c
      | Some OPCODE_AUIPC \<Rightarrow> mc_exec_AUIPC inst c
      | Some OPCODE_JAL \<Rightarrow> mc_exec_JAL inst c
      | Some OPCODE_JALR \<Rightarrow> mc_exec_JALR inst c
      | Some OPCODE_BRANCH \<Rightarrow> mc_exec_BRANCH inst c
      | Some OPCODE_LOAD \<Rightarrow> mc_exec_LOAD vt inst c
      | Some OPCODE_STORE \<Rightarrow> mc_exec_STORE vt inst c
      | Some OPCODE_OPIMM \<Rightarrow> mc_exec_OPIMM inst c
      | Some OPCODE_OPIMM32 \<Rightarrow> mc_exec_OPIMM32 inst c
      | Some OPCODE_OP \<Rightarrow> mc_exec_OP inst c
      | Some OPCODE_OP32 \<Rightarrow> mc_exec_OP32 inst c
      | Some OPCODE_AMO \<Rightarrow> mc_exec_AMO vt inst c
      | Some OPCODE_FENCE \<Rightarrow> on_ctx next_inst c
      | Some OPCODE_SYSTEM \<Rightarrow> mc_exec_SYSTEM inst c
      | None \<Rightarrow> on_ctx illegal c)"

section \<open>The 16-bit instructions\<close>

definition mc_exec_C_ALU :: "u32 \<Rightarrow> 'b minicore \<Rightarrow> 'b mini_res" where
  "mc_exec_C_ALU inst = on_ctx (exec_C_ALU inst)"

definition mc_exec_C_JR_MV_EB_JALR_ADD :: "u32 \<Rightarrow> 'b minicore \<Rightarrow> 'b mini_res" where
  "mc_exec_C_JR_MV_EB_JALR_ADD inst = on_ctx (exec_C_JR_MV_EB_JALR_ADD inst)"

lemmas mc_rvc_defs = mc_exec_C_ALU_def mc_exec_C_JR_MV_EB_JALR_ADD_def

definition mc_exec_rvc :: "'b slave_atomic_io \<Rightarrow> u32 \<Rightarrow> 'b minicore \<Rightarrow> 'b mini_res" where
  "mc_exec_rvc vt inst c =
     bnd (view c) (\<lambda>s.
       case RV64C_OpCode_enum_of (rvc_opcode inst) of
         Some OPCODE_C_ADDI4SPN \<Rightarrow> on_ctx (exec_C_ADDI4SPN inst) c
       | Some OPCODE_C_LW \<Rightarrow> mc_load_reg vt (GPR s (cr8 inst 9 7) + c_word_offset inst) 4 widen_s32 (cr8 inst 4 2) c
       | Some OPCODE_C_LD \<Rightarrow> mc_load_reg vt (GPR s (cr8 inst 9 7) + c_double_offset inst) 8 word_of_bytes (cr8 inst 4 2) c
       | Some OPCODE_C_SW \<Rightarrow> mc_store_reg vt (GPR s (cr8 inst 9 7) + c_word_offset inst) 4 (cr8 inst 4 2) c
       | Some OPCODE_C_SD \<Rightarrow> mc_store_reg vt (GPR s (cr8 inst 9 7) + c_double_offset inst) 8 (cr8 inst 4 2) c
       | Some OPCODE_C_ADDI \<Rightarrow> on_ctx (exec_C_ADDI inst) c
       | Some OPCODE_C_ADDIW \<Rightarrow> on_ctx (exec_C_ADDIW inst) c
       | Some OPCODE_C_LI \<Rightarrow> on_ctx (exec_C_LI inst) c
       | Some OPCODE_C_ADDI16SPN_LUI \<Rightarrow> on_ctx (exec_C_ADDI16SPN_LUI inst) c
       | Some OPCODE_C_ALU \<Rightarrow> mc_exec_C_ALU inst c
       | Some OPCODE_C_J \<Rightarrow> on_ctx (exec_C_J inst) c
       | Some OPCODE_C_BEQZ \<Rightarrow> on_ctx (exec_C_BEQZ inst) c
       | Some OPCODE_C_BNEZ \<Rightarrow> on_ctx (exec_C_BNEZ inst) c
       | Some OPCODE_C_SLLI \<Rightarrow> on_ctx (exec_C_SLLI inst) c
       | Some OPCODE_C_LWSP \<Rightarrow> mc_load_reg vt (GPR s 2 + c_lwsp_imm inst) 4 widen_s32 (cr inst 11 7) c
       | Some OPCODE_C_LDSP \<Rightarrow> mc_load_reg vt (GPR s 2 + c_ldsp_imm inst) 8 word_of_bytes (cr inst 11 7) c
       | Some OPCODE_C_JR_MV_EB_JALR_ADD \<Rightarrow> mc_exec_C_JR_MV_EB_JALR_ADD inst c
       | Some OPCODE_C_SWSP \<Rightarrow> mc_store_reg vt (GPR s 2 + c_swsp_imm inst) 4 (cr inst 6 2) c
       | Some OPCODE_C_SDSP \<Rightarrow> mc_store_reg vt (GPR s 2 + c_sdsp_imm inst) 8 (cr inst 6 2) c
       | None \<Rightarrow> on_ctx illegal c)"

definition mc_exec_inst :: "'b slave_atomic_io \<Rightarrow> u32 \<Rightarrow> 'b minicore \<Rightarrow> 'b mini_res" where
  "mc_exec_inst vt inst c = (if \<not> is_compressed inst then mc_exec_full vt inst c else mc_exec_rvc vt inst c)"

section \<open>A step\<close>

text \<open>The end of \<open>step\<close>: the program counter and the counters, then a pending switch of contexts.\<close>

definition mc_switch :: "'b minicore \<Rightarrow> 'b minicore" where
  "mc_switch c = (if mc_switchCtx c then c\<lparr>mc_switchCtx := False, mc_currentCtx := mc_newCtx c\<rparr> else c)"

definition mc_finish :: "bool \<Rightarrow> bool \<times> bool \<times> 'b minicore \<Rightarrow> 'b minicore res" where
  "mc_finish is_compressed_inst out =
     (case out of (is_new_pc_set, is_instr_illegal, c) \<Rightarrow>
      if is_instr_illegal then mc_raiseTrap else
      bnd (view c) (\<lambda>s.
        let s1 = s\<lparr>currentProgramCounter := next_pc is_compressed_inst is_new_pc_set s\<rparr>;
            s2 = (if \<not> needTrap s1 then s1\<lparr>minstret := minstret s1 + 1\<rparr> else s1);
            s3 = s2\<lparr>needTrap := False\<rparr> in
        guard (mst (status s3) ms_blank0 = 0) (guard (mst (status s3) ms_blank1 = 0)
          (guard (mst (status s3) ms_blank2 = 0) (guard (mst (status s3) ms_blank3 = 0)
            (guard (mst (status s3) ms_blank4 = 0)
              (let c = mc_switch (put_view s3 c) in Inr (c\<lparr>mc_global_tick := mc_global_tick c + 1\<rparr>))))))))"

definition mc_step :: "irq_store \<Rightarrow> 'b slave_atomic_io \<Rightarrow> 'b minicore \<Rightarrow> 'b minicore res" where
  "mc_step w vt c =
     bnd (mc_preExec w c) (\<lambda>c. bnd (view c) (\<lambda>s.
       if currentProgramCounter s mod PC_ALIGN \<noteq> 0 then mc_raiseTrap
       else bnd (VAddr_InstFetch_MMU_API vt (currentProgramCounter s) (replicate 4 0) s) (\<lambda>(feedback, buf, s').
         let inst = word_of_bytes buf; c = put_view s' c in
         if feedback \<noteq> VADDR_ACCESS_OK then guard (fetch_cause feedback \<noteq> 0) mc_raiseTrap
         else bnd (mc_exec_inst vt inst c) (mc_finish (is_compressed inst)))))"

section \<open>Basic facts\<close>

definition mc_ok :: "'b minicore \<Rightarrow> bool" where
  "mc_ok c \<longleftrightarrow> length (mc_ctx c) = NR_CTX \<and> unat (mc_currentCtx c) < NR_CTX"

lemma view_in: "mc_ok c \<Longrightarrow> view c = Inr ((mc_base c)\<lparr>GPR := cx_GPR (mc_ctx c ! unat (mc_currentCtx c)),
    currentProgramCounter := cx_currentProgramCounter (mc_ctx c ! unat (mc_currentCtx c))\<rparr>)"
  by (simp add: mc_ok_def view_def)

lemma view_inD: "view c = Inr s \<Longrightarrow> unat (mc_currentCtx c) < length (mc_ctx c)"
  by (simp add: view_def bnd_eq_Inr arr_get_eq_Inr)

lemma put_view_fields [simp]:
  "mc_currentCtx (put_view s c) = mc_currentCtx c" "mc_newCtx (put_view s c) = mc_newCtx c"
  "mc_switchCtx (put_view s c) = mc_switchCtx c" "mc_ch (put_view s c) = mc_ch c" "mc_out (put_view s c) = mc_out c"
  "length (mc_ctx (put_view s c)) = length (mc_ctx c)" "mc_global_tick (put_view s c) = mc_global_tick c"
  by (simp_all add: put_view_def Let_def)

lemma put_view_ok [simp]: "mc_ok (put_view s c) = mc_ok c"
  by (simp add: mc_ok_def)

text \<open>The two laws of the view.\<close>

lemma view_put: "view c = Inr s \<Longrightarrow> view (put_view s' c) = Inr s'"
  using view_inD[of c s] by (simp add: view_def put_view_def Let_def)

lemma put_view_twice [simp]: "put_view s' (put_view s c) = put_view s' c"
  by (cases "unat (mc_currentCtx c) < length (mc_ctx c)") (simp_all add: put_view_def Let_def list_update_beyond)

lemma put_same: "view c = Inr s \<Longrightarrow> put_view s c = c"
  by (cases c; cases "mc_base c") (auto simp: view_def put_view_def Let_def bnd_eq_Inr arr_get_eq_Inr)

section \<open>The simple core on the current context\<close>

text \<open>The address that a load or store of the data memory uses.\<close>

definition data_addr :: "u32 \<Rightarrow> 'b rv64core \<Rightarrow> u64 option" where
  "data_addr inst s =
     (if \<not> is_compressed inst then
        if fld inst r_opcode = OPCODE_LOAD_ASYNC \<or> RV64I_OpCode_enum_of (fld inst r_opcode) = Some OPCODE_LOAD
        then Some (GPR s (rg inst i_rs1) + scast (fld inst i_imm12))
        else if fld inst r_opcode = OPCODE_STORE_ASYNC \<or> RV64I_OpCode_enum_of (fld inst r_opcode) = Some OPCODE_STORE
        then Some (GPR s (rg inst s_rs1) + scast (store_offset inst))
        else None
      else case RV64C_OpCode_enum_of (rvc_opcode inst) of
        Some OPCODE_C_LW \<Rightarrow> Some (GPR s (cr8 inst 9 7) + c_word_offset inst)
      | Some OPCODE_C_LD \<Rightarrow> Some (GPR s (cr8 inst 9 7) + c_double_offset inst)
      | Some OPCODE_C_SW \<Rightarrow> Some (GPR s (cr8 inst 9 7) + c_word_offset inst)
      | Some OPCODE_C_SD \<Rightarrow> Some (GPR s (cr8 inst 9 7) + c_double_offset inst)
      | Some OPCODE_C_LWSP \<Rightarrow> Some (GPR s 2 + c_lwsp_imm inst)
      | Some OPCODE_C_LDSP \<Rightarrow> Some (GPR s 2 + c_ldsp_imm inst)
      | Some OPCODE_C_SWSP \<Rightarrow> Some (GPR s 2 + c_swsp_imm inst)
      | Some OPCODE_C_SDSP \<Rightarrow> Some (GPR s 2 + c_sdsp_imm inst)
      | _ \<Rightarrow> None)"

text \<open>An instruction that both cores have and that does not access a register of this one.\<close>

definition shared_inst :: "u32 \<Rightarrow> 'b rv64core \<Rightarrow> bool" where
  "shared_inst inst s \<longleftrightarrow> (is_compressed inst \<or> fld inst r_opcode \<noteq> OPCODE_LOAD_ASYNC \<and> fld inst r_opcode \<noteq> OPCODE_STORE_ASYNC)
     \<and> data_addr inst s \<noteq> Some CTX_ID_REG_MMIO \<and> data_addr inst s \<noteq> Some PUTC_MMIO"

definition same_returns :: "'a res \<Rightarrow> 'a res \<Rightarrow> bool" where
  "same_returns m m' \<longleftrightarrow> (\<forall>x. m = Inr x \<longleftrightarrow> m' = Inr x)"

lemma same_returns_refl [simp]: "same_returns m m"
  by (simp add: same_returns_def)

text \<open>What \<open>on_ctx\<close> returns.\<close>

lemma on_ctx_Inr:
  "view c = Inr s \<Longrightarrow> on_ctx f c = Inr out \<longleftrightarrow>
     (\<exists>np ill s'. f s = Inr (np, ill, s') \<and> \<not> needTrap s' \<and> out = (np, ill, put_view s' c))"
  by (auto simp: on_ctx_def bnd_eq_Inr split: if_splits)

lemma raise_pending: "raise_exc e t s = Inr s' \<Longrightarrow> needTrap s'"
  unfolding raise_exc_def by (rule raiseTrap_frame(1))

lemma memRead_same:
  assumes v: "view c = Inr s" and n: "\<not> needTrap s" and a: "a \<noteq> CTX_ID_REG_MMIO" "a \<noteq> PUTC_MMIO"
  shows "mc_memRead vt a len c = Inr (ok, b, c') \<longleftrightarrow>
     (\<exists>s'. memRead vt a len s = Inr (ok, b, s') \<and> \<not> needTrap s' \<and> c' = put_view s' c)"
proof -
  have "\<not> needTrap s'" if "mmu_load vt s a len = Inr (fb, b, s')" for fb b s'
    using mmu_only_core(2)[OF mmu_load_frame[OF that]] n by simp
  then show ?thesis
    using v a by (auto dest: raise_pending simp: mc_memRead_def memRead_def mc_raiseTrap_def Let_def res_simps guard_def split: if_split_asm)
qed

lemma memWrite_same:
  assumes v: "view c = Inr s" and n: "\<not> needTrap s" and a: "a \<noteq> CTX_ID_REG_MMIO" "a \<noteq> PUTC_MMIO"
  shows "mc_memWrite vt a bs c = Inr (ok, c') \<longleftrightarrow>
     (\<exists>s'. memWrite vt a bs s = Inr (ok, s') \<and> \<not> needTrap s' \<and> c' = put_view s' c)"
proof -
  have "\<not> needTrap s'" if "mmu_store vt s a bs = Inr (fb, s')" for fb s'
    using mmu_only_core(2)[OF mmu_store_frame[OF that]] n by simp
  then show ?thesis
    using v a by (auto dest: raise_pending simp: mc_memWrite_def memWrite_def mc_raiseTrap_def Let_def res_simps guard_def split: if_split_asm)
qed

lemma next_inst_Inr: "next_inst s = Inr (np, ill, s') \<longleftrightarrow> \<not> np \<and> \<not> ill \<and> s' = s"
  by (auto simp: next_inst_def)

lemma put_reg_trap: "put_reg rd v s = Inr (np, ill, s') \<Longrightarrow> needTrap s' = needTrap s"
  by (auto simp: put_reg_def next_inst_def split: if_split_asm)

lemma load_reg_same:
  assumes v: "view c = Inr s" and n: "\<not> needTrap s" and a: "a \<noteq> CTX_ID_REG_MMIO" "a \<noteq> PUTC_MMIO"
  shows "same_returns (mc_load_reg vt a len g rd c) (on_ctx (load_reg vt a len g rd) c)"
proof (cases "memRead vt a len s")
  case (Inl e)
  then have "mc_memRead vt a len c \<noteq> Inr x" for x using memRead_same[OF v n a, of vt len] by (cases x) auto
  then show ?thesis using Inl v by (auto simp: same_returns_def on_ctx_def mc_load_reg_def load_reg_def bnd_eq_Inr)
next
  case (Inr r)
  obtain ok b s' where r: "r = (ok, b, s')" by (cases r)
  show ?thesis
  proof (cases "needTrap s'")
    case True
    then have "mc_memRead vt a len c \<noteq> Inr x" for x using memRead_same[OF v n a, of vt len] Inr r by (cases x) auto
    moreover have "on_ctx (load_reg vt a len g rd) c \<noteq> Inr x" for x
      using True Inr r v by (auto simp: on_ctx_Inr load_reg_def next_inst_Inr split: option.split if_splits dest: put_reg_trap)
    ultimately show ?thesis by (auto simp: same_returns_def mc_load_reg_def bnd_eq_Inr)
  next
    case False
    then have "mc_memRead vt a len c = Inr (ok, b, put_view s' c)" using memRead_same[OF v n a, of vt len] Inr r by auto
    then show ?thesis
      using False Inr r v view_put[OF v, of s']
      by (cases b) (auto simp: same_returns_def on_ctx_def mc_load_reg_def load_reg_def next_inst_def cong: if_cong)
  qed
qed

lemma store_reg_same:
  assumes v: "view c = Inr s" and n: "\<not> needTrap s" and a: "a \<noteq> CTX_ID_REG_MMIO" "a \<noteq> PUTC_MMIO"
  shows "same_returns (mc_store_reg vt a k rs c) (on_ctx (store_reg vt a k rs) c)"
proof -
  have "mc_store_reg vt a k rs c = Inr out \<longleftrightarrow> on_ctx (store_reg vt a k rs) c = Inr out" for out
    unfolding on_ctx_Inr[OF v] mc_store_reg_def store_reg_def v bnd_Inr bnd_eq_Inr split_paired_Ex prod.case memWrite_same[OF v n a]
    by (cases out) (auto simp: next_inst_Inr)
  then show ?thesis by (simp add: same_returns_def)
qed

text \<open>On a shared instruction the core does to its current context what the simple core does, as long as it returns.\<close>

definition follows :: "'b mini_res \<Rightarrow> 'b minicore \<Rightarrow> 'b exec_res \<Rightarrow> bool" where
  "follows m c e \<longleftrightarrow> (\<forall>np ill c'. m = Inr (np, ill, c') \<longrightarrow> (\<exists>s'. e = Inr (np, ill, s') \<and> c' = put_view s' c))"

lemma same_follows: "view c = Inr s \<Longrightarrow> same_returns m (on_ctx f c) \<Longrightarrow> follows m c (f s)"
  by (auto simp: same_returns_def follows_def on_ctx_Inr)

lemma on_ctx_follows [simp]: "view c = Inr s \<Longrightarrow> follows (on_ctx f c) c (f s)"
  by (rule same_follows) simp_all

lemma on_ret_follows: "view c = Inr s \<Longrightarrow> f s = (ok, s') \<Longrightarrow> follows (on_ret f c) c (Inr (False, \<not> ok, s'))"
  by (simp add: follows_def on_ret_def)

lemma priv_follows:
  assumes v: "view c = Inr s" shows "follows (mc_exec_PRIV inst c) c (exec_PRIV inst s)"
proof -
  have r: "follows (on_ret f c) c (case f s of (ok, s') \<Rightarrow> Inr (False, \<not> ok, s'))" for f
    using on_ret_follows[OF v] by (cases "f s") simp
  have t: "follows mc_raiseTrap c e" for e by (simp add: follows_def mc_raiseTrap_def)
  show ?thesis
  proof (cases "Funct7_Priv_enum_of (drop_bit 5 (fld inst i_imm12 AND (push_bit 12 1 - 1)))")
    case None
    then show ?thesis by (simp add: mc_exec_PRIV_def exec_PRIV_def Let_def v)
  next
    case (Some f)
    note sf = r[of "\<lambda>s. sfence_vma (GPR s (rg inst r_rs1)) (GPR s (rg inst r_rs2) AND 0xffff) s"]
    show ?thesis using Some by (cases f) (simp_all add: mc_exec_PRIV_def exec_PRIV_def Let_def v r t sf)
  qed
qed

lemma system_follows:
  assumes v: "view c = Inr s" shows "follows (mc_exec_SYSTEM inst c) c (exec_SYSTEM inst s)"
  using priv_follows[OF v] on_ctx_follows[OF v] unfolding mc_exec_SYSTEM_def exec_SYSTEM_def
  by (simp split: option.split Funct3_System_enum.split)

lemma full_same:
  assumes v: "view c = Inr s" and n: "\<not> needTrap s" and sh: "shared_inst inst s" and full: "\<not> is_compressed inst"
    and nsys: "RV64I_OpCode_enum_of (fld inst r_opcode) \<noteq> Some OPCODE_SYSTEM"
  shows "same_returns (mc_exec_full vt inst c) (on_ctx (exec_full vt inst) c)"
proof -
  have op: "fld inst r_opcode \<noteq> OPCODE_LOAD_ASYNC" "fld inst r_opcode \<noteq> OPCODE_STORE_ASYNC"
    using sh full by (simp_all add: shared_inst_def)
  have l: "same_returns (mc_exec_LOAD vt inst c) (on_ctx (exec_LOAD vt inst) c)"
    if "RV64I_OpCode_enum_of (fld inst r_opcode) = Some OPCODE_LOAD"
  proof -
    let ?a = "GPR s (rg inst i_rs1) + scast (fld inst i_imm12)"
    have "?a \<noteq> CTX_ID_REG_MMIO" "?a \<noteq> PUTC_MMIO" using sh full that by (simp_all add: shared_inst_def data_addr_def)
    note ld = load_reg_same[OF v n this]
    show ?thesis
      using ld by (simp add: mc_exec_LOAD_def exec_LOAD_def v on_ctx_def Let_def illegal_def n put_same[OF v]
          split: option.split Funct3_Load_enum.split)
  qed
  have st: "same_returns (mc_exec_STORE vt inst c) (on_ctx (exec_STORE vt inst) c)"
    if "RV64I_OpCode_enum_of (fld inst r_opcode) = Some OPCODE_STORE"
  proof -
    let ?a = "GPR s (rg inst s_rs1) + scast (store_offset inst)"
    have "?a \<noteq> CTX_ID_REG_MMIO" "?a \<noteq> PUTC_MMIO" using sh full that op by (simp_all add: shared_inst_def data_addr_def)
    note st = store_reg_same[OF v n this]
    show ?thesis
      using st by (simp add: mc_exec_STORE_def exec_STORE_def v on_ctx_def Let_def illegal_def n put_same[OF v]
          split: option.split Funct3_Store_enum.split)
  qed
  show ?thesis
    using l st nsys by (simp add: mc_exec_full_def mc_case_defs exec_full_def op on_ctx_def v split: option.split RV64I_OpCode_enum.split)
qed

lemma rvc_same:
  assumes v: "view c = Inr s" and n: "\<not> needTrap s" and sh: "shared_inst inst s" and rvc: "is_compressed inst"
  shows "same_returns (mc_exec_rvc vt inst c) (on_ctx (exec_rvc vt inst) c)"
proof -
  note same = load_reg_same[OF v n] store_reg_same[OF v n]
  note cases = exec_C_LW_def exec_C_LD_def exec_C_SW_def exec_C_SD_def exec_C_LWSP_def exec_C_LDSP_def exec_C_SWSP_def exec_C_SDSP_def
  have "data_addr inst s \<noteq> Some CTX_ID_REG_MMIO" "data_addr inst s \<noteq> Some PUTC_MMIO" using sh by (simp_all add: shared_inst_def)
  then show ?thesis
    using rvc same unfolding mc_exec_rvc_def mc_rvc_defs exec_rvc_def on_ctx_def v bnd_Inr data_addr_def
    by (cases "RV64C_OpCode_enum_of (rvc_opcode inst)"; simp; cases "the (RV64C_OpCode_enum_of (rvc_opcode inst))"; simp add: cases)
qed

lemma inst_follows:
  assumes v: "view c = Inr s" and n: "\<not> needTrap s" and sh: "shared_inst inst s"
  shows "follows (mc_exec_inst vt inst c) c (exec_inst vt inst s)"
proof (cases "is_compressed inst")
  case True
  then show ?thesis using same_follows[OF v rvc_same[OF v n sh True, of vt]] by (simp add: mc_exec_inst_def exec_inst_def)
next
  case False
  then have i: "mc_exec_inst vt inst c = mc_exec_full vt inst c" "exec_inst vt inst s = exec_full vt inst s"
    by (simp_all add: mc_exec_inst_def exec_inst_def)
  show ?thesis
  proof (cases "RV64I_OpCode_enum_of (fld inst r_opcode) = Some OPCODE_SYSTEM")
    case True
    have "fld inst r_opcode \<noteq> OPCODE_LOAD_ASYNC" "fld inst r_opcode \<noteq> OPCODE_STORE_ASYNC"
      using sh False by (simp_all add: shared_inst_def)
    then show ?thesis using True system_follows[OF v, of inst] by (simp add: i mc_exec_full_def exec_full_def)
  next
    case other: False
    show ?thesis unfolding i by (rule same_follows[OF v full_same[OF v n sh False other]])
  qed
qed

section \<open>A step, and the contexts that do not run\<close>

text \<open>The instruction that a step would execute, if it gets that far.\<close>

definition next_fetch :: "irq_store \<Rightarrow> 'b slave_atomic_io \<Rightarrow> 'b rv64core \<Rightarrow> (u32 \<times> 'b rv64core) res" where
  "next_fetch w vt s = bnd (preExec w s) (\<lambda>s.
     bnd (VAddr_InstFetch_MMU_API vt (currentProgramCounter s) (replicate 4 0) s) (\<lambda>(_, buf, s). Inr (word_of_bytes buf, s)))"

lemma finish_same:
  assumes v: "view c = Inr s"
  shows "mc_finish cmp (np, ill, c) = Inr c' \<longleftrightarrow>
     \<not> ill \<and> (\<exists>s'. finish inst cmp (np, False, s) = Inr s' \<and>
       c' = (let c1 = mc_switch (put_view s' c) in c1\<lparr>mc_global_tick := mc_global_tick c1 + 1\<rparr>))"
  using v by (auto simp: mc_finish_def finish_def mc_raiseTrap_def Let_def guard_eq_Inr)

text \<open>A step of this core, when it returns, is a step of the simple core on the current context, followed by the switch.\<close>

lemma step_same:
  assumes v: "view c = Inr s" and st: "mc_step w vt c = Inr c'"
    and f: "next_fetch w vt s = Inr (inst, s1)" and sh: "shared_inst inst s1"
  shows "\<exists>s'. step w vt s = Inr s' \<and> c' = (let c1 = mc_switch (put_view s' c) in c1\<lparr>mc_global_tick := mc_global_tick c1 + 1\<rparr>)"
proof -
  obtain s0 where p: "preExec w s = Inr s0" "\<not> needTrap s0" and vp: "view (put_view s0 c) = Inr s0"
    using st v view_put[OF v] by (auto simp: mc_step_def mc_preExec_def mc_raiseTrap_def bnd_eq_Inr split: if_split_asm)
  have pc: "currentProgramCounter s0 mod PC_ALIGN = 0"
    using st v p vp by (auto simp: mc_step_def mc_preExec_def mc_raiseTrap_def split: if_split_asm)
  obtain fb buf where g: "VAddr_InstFetch_MMU_API vt (currentProgramCounter s0) (replicate 4 0) s0 = Inr (fb, buf, s1)"
    and inst: "inst = word_of_bytes buf"
    using f p by (auto simp: next_fetch_def bnd_eq_Inr)
  have v1: "view (put_view s1 c) = Inr s1" by (rule view_put[OF v])
  have n1: "\<not> needTrap s1" using mmu_only_core(2)[OF fetch_frame[OF g]] p(2) by simp
  have fb: "fb = VADDR_ACCESS_OK" and
    e: "bnd (mc_exec_inst vt inst (put_view s1 c)) (mc_finish (is_compressed inst)) = Inr c'"
    using st v p vp pc g inst by (auto simp: mc_step_def mc_preExec_def mc_raiseTrap_def Let_def guard_def split: if_split_asm)
  obtain np ill c1 where e1: "mc_exec_inst vt inst (put_view s1 c) = Inr (np, ill, c1)"
    and e2: "mc_finish (is_compressed inst) (np, ill, c1) = Inr c'"
    using e by (auto simp: bnd_eq_Inr)
  obtain s2 where x: "exec_inst vt inst s1 = Inr (np, ill, s2)" and c1: "c1 = put_view s2 c"
    using inst_follows[OF v1 n1 sh, of vt] e1 by (auto simp: follows_def)
  have v2: "view c1 = Inr s2" unfolding c1 by (rule view_put[OF v])
  obtain s' where s': "finish inst (is_compressed inst) (np, False, s2) = Inr s'" "\<not> ill"
    "c' = (let c1 = mc_switch (put_view s' c) in c1\<lparr>mc_global_tick := mc_global_tick c1 + 1\<rparr>)"
    using finish_same[OF v2, of "is_compressed inst" np ill c' inst] e2 c1 by auto
  have "step w vt s = Inr s'"
    using p pc g fb x s' inst by (simp add: step_def Let_def)
  then show ?thesis using s'(3) by blast
qed

text \<open>What an instruction leaves alone: the other contexts, and which context is current.\<close>

definition others_kept :: "'b minicore \<Rightarrow> 'b minicore \<Rightarrow> bool" where
  "others_kept c c' \<longleftrightarrow> mc_currentCtx c' = mc_currentCtx c \<and> length (mc_ctx c') = length (mc_ctx c)
     \<and> (\<forall>i. i \<noteq> unat (mc_currentCtx c) \<longrightarrow> mc_ctx c' ! i = mc_ctx c ! i)"

lemma others_kept_trans: "others_kept c c1 \<Longrightarrow> others_kept c1 c2 \<Longrightarrow> others_kept c c2"
  by (simp add: others_kept_def)

lemma others_kept_simps [simp]:
  "others_kept c c" "others_kept c (put_view s c)" "others_kept c (c\<lparr>mc_newCtx := n, mc_switchCtx := b\<rparr>)"
  "others_kept c (c\<lparr>mc_ch := ch, mc_out := out\<rparr>)"
  by (auto simp: others_kept_def put_view_def Let_def)

lemma on_ctx_others: "on_ctx f c = Inr (np, ill, c') \<Longrightarrow> others_kept c c'"
  by (auto simp: on_ctx_def bnd_eq_Inr split: if_split_asm)

lemma mem_others:
  "mc_memRead vt a len c = Inr (ok, b, c') \<Longrightarrow> others_kept c c'" "mc_memWrite vt a bs c = Inr (ok, c') \<Longrightarrow> others_kept c c'"
  by (auto simp: mc_memRead_def mc_memWrite_def mc_raiseTrap_def res_simps guard_eq_Inr Let_def split: if_split_asm)

lemma load_reg_others: "mc_load_reg vt a len g rd c = Inr (np, ill, c') \<Longrightarrow> others_kept c c'"
  by (auto simp: mc_load_reg_def bnd_eq_Inr split: option.splits if_splits
      dest!: mem_others(1) on_ctx_others intro: others_kept_trans)

lemma store_reg_others: "mc_store_reg vt a k rs c = Inr (np, ill, c') \<Longrightarrow> others_kept c c'"
  by (auto simp: mc_store_reg_def bnd_eq_Inr dest: mem_others(2))

lemma LOAD_others:
  assumes "mc_exec_LOAD vt inst c = Inr (np, ill, c')" shows "others_kept c c'"
proof (cases "Funct3_Load_enum_of (fld inst i_funct3)")
  case (Some f)
  with assms show ?thesis by (cases f) (auto simp: mc_exec_LOAD_def bnd_eq_Inr Let_def dest: load_reg_others)
qed (use assms in \<open>auto simp: mc_exec_LOAD_def bnd_eq_Inr Let_def\<close>)

lemma STORE_others:
  assumes "mc_exec_STORE vt inst c = Inr (np, ill, c')" shows "others_kept c c'"
proof (cases "Funct3_Store_enum_of (fld inst i_funct3)")
  case (Some f)
  with assms show ?thesis by (cases f) (auto simp: mc_exec_STORE_def bnd_eq_Inr Let_def dest: store_reg_others)
qed (use assms in \<open>auto simp: mc_exec_STORE_def bnd_eq_Inr Let_def\<close>)

lemma on_ret_others: "on_ret f c = Inr (np, ill, c') \<Longrightarrow> others_kept c c'"
proof -
  assume a: "on_ret f c = Inr (np, ill, c')"
  then obtain s where "view c = Inr s" by (cases "view c") (auto simp: on_ret_def)
  then show ?thesis using a by (cases "f s") (auto simp: on_ret_def)
qed

lemma PRIV_others:
  assumes "mc_exec_PRIV inst c = Inr (np, ill, c')" shows "others_kept c c'"
proof (cases "Funct7_Priv_enum_of (drop_bit 5 (fld inst i_imm12 AND (push_bit 12 1 - 1)))")
  case (Some f)
  with assms show ?thesis
    by (cases f) (auto simp: mc_exec_PRIV_def mc_raiseTrap_def Let_def dest: on_ctx_others on_ret_others split: if_split_asm)
qed (use assms in \<open>auto simp: mc_exec_PRIV_def Let_def dest: on_ctx_others\<close>)

lemma SYSTEM_others:
  assumes "mc_exec_SYSTEM inst c = Inr (np, ill, c')" shows "others_kept c c'"
proof (cases "Funct3_System_enum_of (fld inst i_funct3)")
  case (Some f)
  with assms show ?thesis by (cases f) (auto simp: mc_exec_SYSTEM_def dest: on_ctx_others PRIV_others)
qed (use assms in \<open>auto simp: mc_exec_SYSTEM_def dest: on_ctx_others\<close>)

lemmas case_others = on_ctx_others load_reg_others store_reg_others LOAD_others STORE_others SYSTEM_others

lemma inst_others:
  assumes "mc_exec_inst vt inst c = Inr (np, ill, c')" shows "others_kept c c'"
proof (cases "is_compressed inst")
  case True
  then have "mc_exec_rvc vt inst c = Inr (np, ill, c')" using assms by (simp add: mc_exec_inst_def)
  then show ?thesis
  proof (cases "RV64C_OpCode_enum_of (rvc_opcode inst)")
    case (Some op)
    with \<open>mc_exec_rvc vt inst c = _\<close> show ?thesis by (cases op) (auto simp: mc_exec_rvc_def mc_rvc_defs bnd_eq_Inr dest: case_others)
  qed (auto simp: mc_exec_rvc_def mc_rvc_defs bnd_eq_Inr dest: case_others)
next
  case False
  then have "mc_exec_full vt inst c = Inr (np, ill, c')" using assms by (simp add: mc_exec_inst_def)
  then show ?thesis
  proof (cases "RV64I_OpCode_enum_of (fld inst r_opcode)")
    case (Some op)
    with \<open>mc_exec_full vt inst c = _\<close> show ?thesis
      by (cases op) (auto simp: mc_exec_full_def mc_case_defs dest: case_others split: if_split_asm)
  qed (auto simp: mc_exec_full_def mc_case_defs dest: case_others split: if_split_asm)
qed

lemma preExec_others: "mc_preExec w c = Inr c' \<Longrightarrow> others_kept c c'"
  by (auto simp: mc_preExec_def mc_raiseTrap_def bnd_eq_Inr split: if_split_asm)

text \<open>The end of a step may change the current context, to the one that was asked for.\<close>

lemma finish_others:
  "mc_finish cmp (np, ill, c) = Inr c' \<Longrightarrow>
     length (mc_ctx c') = length (mc_ctx c) \<and> (\<forall>i. i \<noteq> unat (mc_currentCtx c) \<longrightarrow> mc_ctx c' ! i = mc_ctx c ! i)
     \<and> mc_currentCtx c' = (if mc_switchCtx c then mc_newCtx c else mc_currentCtx c) \<and> \<not> mc_switchCtx c'"
  by (auto simp: mc_finish_def mc_raiseTrap_def mc_switch_def bnd_eq_Inr guard_eq_Inr Let_def put_view_def split: if_split_asm)

lemma step_others:
  assumes "mc_step w vt c = Inr c'"
  shows "unat (mc_currentCtx c) < length (mc_ctx c) \<and> length (mc_ctx c') = length (mc_ctx c) \<and> \<not> mc_switchCtx c'
     \<and> (\<forall>i. i \<noteq> unat (mc_currentCtx c) \<longrightarrow> mc_ctx c' ! i = mc_ctx c ! i)"
proof -
  obtain c1 s where p: "mc_preExec w c = Inr c1" "view c1 = Inr s"
    using assms by (auto simp: mc_step_def bnd_eq_Inr)
  then obtain fb buf s1 where g: "VAddr_InstFetch_MMU_API vt (currentProgramCounter s) (replicate 4 0) s = Inr (fb, buf, s1)"
    using assms by (auto simp: mc_step_def mc_raiseTrap_def bnd_eq_Inr split: if_split_asm)
  let ?inst = "word_of_bytes buf :: u32"
  obtain np ill c2 where e: "mc_exec_inst vt ?inst (put_view s1 c1) = Inr (np, ill, c2)"
    and f: "mc_finish (is_compressed ?inst) (np, ill, c2) = Inr c'"
    using assms p g by (auto simp: mc_step_def mc_raiseTrap_def bnd_eq_Inr Let_def guard_def split: if_split_asm)
  have "others_kept c c2" using preExec_others[OF p(1)] inst_others[OF e] others_kept_trans others_kept_simps(2) by blast
  moreover have "unat (mc_currentCtx c) < length (mc_ctx c)"
    using view_inD[OF p(2)] preExec_others[OF p(1)] by (simp add: others_kept_def)
  ultimately show ?thesis using finish_others[OF f] by (auto simp: others_kept_def)
qed

text \<open>Any number of steps in which context \<open>i\<close> is never the current one.\<close>

inductive away :: "'b slave_atomic_io \<Rightarrow> nat \<Rightarrow> 'b minicore \<Rightarrow> 'b minicore \<Rightarrow> bool" for vt i c0 where
  away_start: "away vt i c0 c0"
| away_step: "away vt i c0 c \<Longrightarrow> unat (mc_currentCtx c) \<noteq> i \<Longrightarrow> mc_step w vt c = Inr c' \<Longrightarrow> away vt i c0 c'"

lemma away_kept: "away vt i c0 c \<Longrightarrow> mc_ctx c ! i = mc_ctx c0 ! i \<and> length (mc_ctx c) = length (mc_ctx c0)"
  by (induction rule: away.induct) (use step_others in force)+

section \<open>The debug interface\<close>

definition mc_DumpProgramCounter :: "'b minicore \<Rightarrow> RegisterItem res" where
  "mc_DumpProgramCounter c = bnd (arr_get (mc_ctx c) (unat (mc_currentCtx c))) (\<lambda>x.
     Inr \<lparr>reg_id = 33, disp_name = ''pc'', reg_size = 8, reg_val = cx_currentProgramCounter x\<rparr>)"

definition mc_WriteProgramCounter :: "u64 \<Rightarrow> 'b minicore \<Rightarrow> 'b minicore res" where
  "mc_WriteProgramCounter v c =
     (let i = unat (mc_currentCtx c) in
      bnd (arr_get (mc_ctx c) i) (\<lambda>x. Inr (c\<lparr>mc_ctx := (mc_ctx c)[i := x\<lparr>cx_currentProgramCounter := v\<rparr>]\<rparr>)))"

definition mc_WriteProgramCounterForAllCtx :: "u64 \<Rightarrow> 'b minicore \<Rightarrow> 'b minicore res" where
  "mc_WriteProgramCounterForAllCtx v c =
     for_each (\<lambda>i c. bnd (arr_get (mc_ctx c) i) (\<lambda>x.
       Inr (c\<lparr>mc_ctx := (mc_ctx c)[i := x\<lparr>cx_currentProgramCounter := v\<rparr>]\<rparr>))) [0..<NR_CTX] c"

definition mc_setGPRByIndex :: "u8 \<Rightarrow> u64 \<Rightarrow> 'b minicore \<Rightarrow> 'b minicore res" where
  "mc_setGPRByIndex gpr_index v c =
     guard (gpr_index < 32)
       (if gpr_index = 0 then Inr c else
        let i = unat (mc_currentCtx c) in
        bnd (arr_get (mc_ctx c) i) (\<lambda>x.
          Inr (c\<lparr>mc_ctx := (mc_ctx c)[i := x\<lparr>cx_GPR := (cx_GPR x)(ucast gpr_index := v)\<rparr>]\<rparr>)))"

text \<open>The memory of the debugger is read and written without a trap; \<open>doLoad\<close> goes to the memory management unit.\<close>

definition mc_MemRead :: "'b slave_atomic_io \<Rightarrow> u64 \<Rightarrow> u64 \<Rightarrow> 'b minicore
    \<Rightarrow> (FuncReturnFeedback_e \<times> u8 list option \<times> 'b minicore) res" where
  "mc_MemRead vt start_addr len c =
     (if start_addr = CTX_ID_REG_MMIO then guard (len = 8) (Inr (MEMU_OK, Some (bytes_of 8 (mc_currentCtx c)), c))
      else bnd (mmu_load vt (mc_base c) start_addr len) (\<lambda>(fb, b, s).
        Inr (if fb = FB_SUCCESS then MEMU_OK else MEMU_UNKNOWN, b, c\<lparr>mc_base := s\<rparr>)))"

definition mc_MemWrite :: "'b slave_atomic_io \<Rightarrow> u64 \<Rightarrow> u8 list \<Rightarrow> 'b minicore
    \<Rightarrow> (FuncReturnFeedback_e \<times> 'b minicore) res" where
  "mc_MemWrite vt start_addr buffer c =
     bnd (mmu_store vt (mc_base c) start_addr buffer) (\<lambda>(fb, s).
       Inr (if fb = FB_SUCCESS then MEMU_OK else MEMU_UNKNOWN, c\<lparr>mc_base := s\<rparr>))"

definition mc_DumpAllRegister :: "'b minicore \<Rightarrow> RegisterItem list \<Rightarrow> (FuncReturnFeedback_e \<times> RegisterItem list) res" where
  "mc_DumpAllRegister c regs =
     bnd (arr_get (mc_ctx c) (unat (mc_currentCtx c))) (\<lambda>x.
       Inr (MEMU_OK, regs
         @ map (\<lambda>i. \<lparr>reg_id = of_nat i, disp_name = GPR_NAME_ARR ! i, reg_size = 8, reg_val = cx_GPR x (of_nat i)\<rparr>) [0..<32]
         @ [\<lparr>reg_id = 32, disp_name = ''pc'', reg_size = 8, reg_val = cx_currentProgramCounter x\<rparr>]))"

definition mc_WriteAllRegister :: "RegisterItem list \<Rightarrow> 'b minicore \<Rightarrow> (FuncReturnFeedback_e \<times> 'b minicore) res" where
  "mc_WriteAllRegister regs c =
     (if length regs \<noteq> 33 then Inr (MEMU_INVALID_PARAM, c)
      else let i = unat (mc_currentCtx c) in
        bnd (arr_get (mc_ctx c) i) (\<lambda>x.
          Inr (MEMU_OK, c\<lparr>mc_ctx := (mc_ctx c)[i := x\<lparr>cx_GPR := (\<lambda>r. reg_val (regs ! unat r)),
             cx_currentProgramCounter := reg_val (regs ! 32)\<rparr>]\<rparr>)))"

section \<open>Properties\<close>

text \<open>
  C6. The core with contexts refines the simple core: whenever a step of it returns, on an instruction that both cores have
  and that does not access one of its own registers, the simple core in the state of the current context makes
  the same step, traps and interrupts included (there are none, since this core aborts on them), the current context stays
  current and then shows the state that the simple core reaches, and no other context changes.
\<close>

theorem minicpu_refines_core:
  assumes "view c = Inr s" and "\<not> mc_switchCtx c" and "mc_step w vt c = Inr c'"
    and "next_fetch w vt s = Inr (inst, s1)" and "shared_inst inst s1"
  shows "\<exists>s'. step w vt s = Inr s' \<and> view c' = Inr s' \<and> mc_currentCtx c' = mc_currentCtx c
     \<and> (\<forall>i. i \<noteq> unat (mc_currentCtx c) \<longrightarrow> mc_ctx c' ! i = mc_ctx c ! i)"
proof -
  obtain s' where s': "step w vt s = Inr s'"
    and c': "c' = (let c1 = mc_switch (put_view s' c) in c1\<lparr>mc_global_tick := mc_global_tick c1 + 1\<rparr>)"
    using step_same[OF assms(1,3-5)] by blast
  have "view (put_view s' c) = Inr s'" by (rule view_put[OF assms(1)])
  then have "view c' = Inr s'" "mc_currentCtx c' = mc_currentCtx c"
    using assms(2) by (simp_all add: c' mc_switch_def view_def)
  then show ?thesis using s' step_others[OF assms(3)] by blast
qed

text \<open>A core with four equal contexts, and a bus that answers with one instruction.\<close>

definition mini_core :: "u64 \<Rightarrow> unit minicore" where
  "mini_core i = \<lparr>mc_base = zero_core (),
     mc_ctx = replicate 4 \<lparr>cx_GPR = (\<lambda>_. 0), cx_waitingChnBits = 0, cx_currentProgramCounter = currentProgramCounter (zero_core ())\<rparr>,
     mc_currentCtx = i, mc_newCtx = 0, mc_switchCtx = False, mc_ch = 0, mc_out = [], mc_global_tick = 0\<rparr>"

text \<open>\<open>addi x1, x0, 5\<close> on context 2.\<close>

theorem minicpu_refines_core_witness:
  "\<exists>s' c'. step (\<lambda>_. False) (rom_vt 0x00500093) (zero_core ()) = Inr s'
     \<and> mc_step (\<lambda>_. False) (rom_vt 0x00500093) (mini_core 2) = Inr c' \<and> view c' = Inr s'"
proof -
  have v: "view (mini_core 2) = Inr (zero_core ())" by (simp add: view_def mini_core_def zero_core_def)
  have "case mc_step (\<lambda>_. False) (rom_vt 0x00500093) (mini_core 2) of Inr _ \<Rightarrow> True | Inl _ \<Rightarrow> False" by code_simp
  then obtain c' where c': "mc_step (\<lambda>_. False) (rom_vt 0x00500093) (mini_core 2) = Inr c'" by (auto split: sum.split_asm)
  have "case next_fetch (\<lambda>_. False) (rom_vt 0x00500093) (zero_core ()) of Inr (i, s1) \<Rightarrow> shared_inst i s1 | Inl _ \<Rightarrow> False"
    by code_simp
  then obtain i s1 where "next_fetch (\<lambda>_. False) (rom_vt 0x00500093) (zero_core ()) = Inr (i, s1)" "shared_inst i s1"
    by (auto split: sum.split_asm)
  from minicpu_refines_core [OF v _ c' this] show ?thesis using c' by (auto simp: mini_core_def)
qed

text \<open>
  C7. A context that is not running is not touched: however long the other contexts run, whatever instructions, stores to
  the core's own registers and switches between them they make, the registers and the program counter of the context with number \<open>i\<close> are
  those it had, so a switch back resumes it where it was.
\<close>

theorem minicpu_contexts_isolated:
  assumes "away vt i c0 c"
  shows "mc_ctx c ! i = mc_ctx c0 ! i
     \<and> (unat (mc_currentCtx c) = i \<and> i < length (mc_ctx c0) \<longrightarrow>
          (\<exists>s. view c = Inr s \<and> GPR s = cx_GPR (mc_ctx c0 ! i) \<and> currentProgramCounter s = cx_currentProgramCounter (mc_ctx c0 ! i)))"
  using away_kept[OF assms] by (auto simp: view_def)

theorem minicpu_contexts_isolated_witness:
  "\<exists>c'. mc_step (\<lambda>_. False) (rom_vt 0x00500093) (mini_core 2) = Inr c' \<and> mc_ctx c' ! 1 = mc_ctx (mini_core 2) ! 1"
proof -
  have "case mc_step (\<lambda>_. False) (rom_vt 0x00500093) (mini_core 2) of Inr _ \<Rightarrow> True | Inl _ \<Rightarrow> False" by code_simp
  then obtain c' where c': "mc_step (\<lambda>_. False) (rom_vt 0x00500093) (mini_core 2) = Inr c'" by (auto split: sum.split_asm)
  have "unat (mc_currentCtx (mini_core 2)) \<noteq> 1" by (simp add: mini_core_def)
  from away_step [OF away_start this c'] have "away (rom_vt 0x00500093) 1 (mini_core 2) c'" .
  from minicpu_contexts_isolated [OF this] show ?thesis using c' by blast
qed

text \<open>
  The context number is not checked: a store of any value to \<open>CTX_ID_REG_MMIO\<close> succeeds, the instruction that made it
  completes with that value as the current context, and when it is 4 or more no later step returns, whatever the bus
  and the interrupt lines do.
\<close>

theorem minicpu_switch_unchecked:
  assumes "mc_finish cmp (np, ill, c\<lparr>mc_newCtx := v, mc_switchCtx := True\<rparr>) = Inr c'" and "mc_ok c" and "4 \<le> unat v"
  shows "mc_memWrite vt CTX_ID_REG_MMIO (bytes_of 8 v) c = Inr (True, c\<lparr>mc_newCtx := v, mc_switchCtx := True\<rparr>)
     \<and> mc_currentCtx c' = v \<and> (\<exists>e. mc_step w vt c' = Inl e)"
proof -
  have "CTX_ID_REG_MMIO mod 8 = 0" by (simp add: CTX_ID_REG_MMIO_def)
  then have "mc_memWrite vt CTX_ID_REG_MMIO (bytes_of 8 v) c = Inr (True, c\<lparr>mc_newCtx := v, mc_switchCtx := True\<rparr>)"
    using take_bit_word_eq_self[of 64 v] by (simp add: mc_memWrite_def word_of_bytes_bytes_of)
  moreover have c': "length (mc_ctx c') = 4" "mc_currentCtx c' = v"
    using finish_others[OF assms(1)] assms(2) by (simp_all add: mc_ok_def NR_CTX_def)
  moreover have "mc_step w vt c' \<noteq> Inr c2" for c2 using step_others[of w vt c' c2] c' assms(3) by auto
  ultimately show ?thesis by (cases "mc_step w vt c'") auto
qed

theorem minicpu_switch_unchecked_witness:
  "\<exists>c' e. mc_finish False (False, False, (mini_core 0)\<lparr>mc_newCtx := 9, mc_switchCtx := True\<rparr>) = Inr c'
     \<and> mc_currentCtx c' = 9 \<and> mc_step (\<lambda>_. False) (rom_vt 0x00500093) c' = Inl e"
proof -
  have "case mc_finish False (False, False, (mini_core 0)\<lparr>mc_newCtx := 9, mc_switchCtx := True\<rparr>) of Inr _ \<Rightarrow> True | Inl _ \<Rightarrow> False"
    by code_simp
  then obtain c' where c': "mc_finish False (False, False, (mini_core 0)\<lparr>mc_newCtx := 9, mc_switchCtx := True\<rparr>) = Inr c'"
    by (auto split: sum.split_asm)
  have "mc_ok (mini_core 0)" by (simp add: mc_ok_def mini_core_def NR_CTX_def)
  from minicpu_switch_unchecked [OF c' this] show ?thesis using c' by auto
qed

end
