(* ===== verification/GdbStub.thy ===== *)
theory GdbStub
  imports GdbRsp MiniCpu
begin

text \<open>
  The debug server, \<open>src/gdb_stub\<close> and \<open>include/sdk/base/GDBStub.h\<close>: framing and acknowledgement of packets on the connection,
  the commands, and the loop that serves them. The core that is debugged is an object of the interface \<open>Debuggable_I\<close>, here a
  record of its operations; the locale \<open>debuggable_core\<close> is what the register commands rely on, and the core with contexts
  provides it.
\<close>

section \<open>The interface of a core\<close>

record 'c debuggable =
  DumpAllRegister_DebugAPI :: "'c \<Rightarrow> (FuncReturnFeedback_e \<times> RegisterItem list) res"
  WriteAllRegister_DebugAPI :: "RegisterItem list \<Rightarrow> 'c \<Rightarrow> (FuncReturnFeedback_e \<times> 'c) res"
  MemRead_DebugAPI :: "u64 \<Rightarrow> u64 \<Rightarrow> 'c \<Rightarrow> (FuncReturnFeedback_e \<times> u8 list option \<times> 'c) res"
  MemWrite_DebugAPI :: "u64 \<Rightarrow> u8 list \<Rightarrow> 'c \<Rightarrow> (FuncReturnFeedback_e \<times> 'c) res"
  DumpProgramCounter_DebugAPI :: "'c \<Rightarrow> RegisterItem res"
  Step_DebugAPI :: "'c \<Rightarrow> 'c res"

definition GetISABitLen_DebugAPI :: nat where
  "GetISABitLen_DebugAPI = 64"

section \<open>The connection\<close>

text \<open>
  \<open>recv_segs\<close> is what arrives: the pieces in which the operating system hands it over, one for a call of \<open>read\<close> on the whole
  buffer of a \<open>FILE\<close>; after the last one the connection is at its end. \<open>sent\<close> is what was written, \<open>gdb_packet\<close> the
  content of the packet in \<open>buffer\<close> (from \<open>packetBeginIndex\<close>, \<open>packetSize\<close> characters). The connection is accepted.
\<close>

record 'c gdb_stub =
  recv_segs :: "string list"
  sent :: string
  gdb_packet :: string
  watchPointPCs :: "u64 set"
  debuggedCore :: 'c

definition BUFFER_SIZE :: nat where "BUFFER_SIZE = 8192"

definition write_fd :: "string \<Rightarrow> 'c gdb_stub \<Rightarrow> 'c gdb_stub" where
  "write_fd s g = g\<lparr>sent := sent g @ s\<rparr>"

definition sendACK :: "'c gdb_stub \<Rightarrow> 'c gdb_stub" where "sendACK g = write_fd ''+'' g"
definition sendNAK :: "'c gdb_stub \<Rightarrow> 'c gdb_stub" where "sendNAK g = write_fd ''-'' g"

text \<open>\<open>getc\<close> on a \<open>FILE\<close> that holds \<open>fb\<close>; \<open>EOF\<close> becomes the character 255.\<close>

fun getc :: "string \<Rightarrow> string list \<Rightarrow> char \<times> string \<times> string list" where
  "getc (c # fb) segs = (c, fb, segs)"
| "getc [] ((c # fb) # segs) = (c, fb, segs)"
| "getc [] ([] # segs) = getc [] segs"
| "getc [] [] = (CHR 0xFF, [], [])"

text \<open>\<open>read(recvFD, &ack, 1)\<close>, which leaves \<open>ack\<close> alone at the end of the connection.\<close>

fun read_byte :: "char \<Rightarrow> string list \<Rightarrow> char \<times> string list" where
  "read_byte ack ((c # s) # segs) = (c, s # segs)"
| "read_byte ack ([] # segs) = read_byte ack segs"
| "read_byte ack [] = (ack, [])"

section \<open>Receiving a packet\<close>

text \<open>The loop of \<open>recvAndCheck\<close> with \<open>n\<close> characters of the buffer left; \<open>bg\<close> is \<open>packet_begin_index\<close>.\<close>

fun scan_packet :: "nat \<Rightarrow> string \<Rightarrow> string list \<Rightarrow> string \<Rightarrow> int \<Rightarrow> (string \<times> int \<times> string \<times> string list) option" where
  "scan_packet 0 fb segs buf bg = None"
| "scan_packet (Suc n) fb segs buf bg =
     (let (ch, fb, segs) = getc fb segs; buf = buf @ [ch];
          bg = (if ch = PACKET_BEGIN_CHAR then int (length buf) else bg) in
      if ch = PACKET_END_CHAR then Some (buf, bg, fb, segs) else scan_packet n fb segs buf bg)"

text \<open>
  \<open>sscanf("%02x")\<close> of the two characters of the check sum, cut to the byte that the variable has; \<open>None\<close> when nothing is
  converted, which leaves the variable uninitialised. A sign or a blank takes the place of a digit.
\<close>

definition sscanf_02x :: "char \<Rightarrow> char \<Rightarrow> u8 option" where
  "sscanf_02x a b =
     (if a \<in> {CHR '' '', CHR 0x09, CHR 0x0A, CHR 0x0B, CHR 0x0C, CHR 0x0D, CHR ''+''} then map_option of_nat (hex_digit b)
      else if a = CHR ''-'' then map_option (\<lambda>n. - of_nat n) (hex_digit b)
      else map_option (\<lambda>n. case hex_digit b of Some m \<Rightarrow> of_nat (16 * n + m) | None \<Rightarrow> of_nat n) (hex_digit a))"

text \<open>The \<open>FILE\<close> is local to the call: what it has read ahead (\<open>fb\<close>) is lost with it.\<close>

definition recvAndCheck :: "'c gdb_stub \<Rightarrow> (FuncReturnFeedback_e \<times> 'c gdb_stub) res" where
  "recvAndCheck g =
     (case scan_packet BUFFER_SIZE [] (recv_segs g) [] (- 1) of
        None \<Rightarrow> Inl Exit
      | Some (buf, bg, fb, segs) \<Rightarrow>
          let (c1, fb, segs) = getc fb segs; (c2, fb, segs) = getc fb segs;
              packet = take (length buf - 1 - nat bg) (drop (nat bg) buf);
              chk_sum_cal = CalCheckSum_GDB_RSP_Utils packet; g = g\<lparr>recv_segs := segs\<rparr> in
          if bg = - 1 then Inr (MEMU_PROTOCOL_ERR, g)
          else case sscanf_02x c1 c2 of None \<Rightarrow> Inl Undefined
            | Some chk_sum_recv \<Rightarrow>
                if chk_sum_recv \<noteq> chk_sum_cal then Inr (MEMU_CHKSUM_ERR, g)
                else Inr (MEMU_OK, g\<lparr>gdb_packet := packet\<rparr>))"

text \<open>A loop of \<open>recvPacket\<close>: as long as the feedback is \<open>err\<close>, at most \<open>left\<close> retries.\<close>

fun retry :: "FuncReturnFeedback_e \<Rightarrow> nat \<Rightarrow> FuncReturnFeedback_e \<times> 'c gdb_stub \<Rightarrow> (nat \<times> FuncReturnFeedback_e \<times> 'c gdb_stub) res" where
  "retry err 0 (feedback, g) = (if feedback = err then Inl Exit else Inr (0, feedback, g))"
| "retry err (Suc left) (feedback, g) =
     (if feedback = err then bnd (recvAndCheck (sendNAK g)) (retry err left) else Inr (Suc left, feedback, g))"

definition recvPacket :: "'c gdb_stub \<Rightarrow> (FuncReturnFeedback_e \<times> 'c gdb_stub) res" where
  "recvPacket g =
     bnd (recvAndCheck g) (\<lambda>r.
     bnd (retry MEMU_CHKSUM_ERR 10 r) (\<lambda>(left, r).
     bnd (retry MEMU_PROTOCOL_ERR left r) (\<lambda>(_, feedback, g). Inr (feedback, sendACK g))))"

section \<open>Sending a packet\<close>

definition frame :: "string \<Rightarrow> string" where
  "frame data = PACKET_BEGIN_CHAR # data @ PACKET_END_CHAR # hex_byte (CalCheckSum_GDB_RSP_Utils data)"

definition read_ack :: "char \<Rightarrow> 'c gdb_stub \<Rightarrow> char \<times> 'c gdb_stub" where
  "read_ack ack g = (let (ack, segs) = read_byte ack (recv_segs g) in (ack, g\<lparr>recv_segs := segs\<rparr>))"

text \<open>The loop that sends the packet again, at most \<open>left\<close> times, until it is acknowledged.\<close>

fun resend :: "nat \<Rightarrow> string \<Rightarrow> char \<times> 'c gdb_stub \<Rightarrow> 'c gdb_stub" where
  "resend 0 pk (ack, g) = g"
| "resend (Suc left) pk (ack, g) = (if ack = CHR ''+'' then g else resend left pk (read_ack ack (write_fd pk g)))"

definition packingAndSend :: "string \<Rightarrow> 'c gdb_stub \<Rightarrow> 'c gdb_stub" where
  "packingAndSend data g = resend 10 (frame data) (read_ack (CHR ''-'') (write_fd (frame data) g))"

section \<open>The commands\<close>

type_synonym 'c command = "'c gdb_stub \<Rightarrow> 'c gdb_stub res"

definition reply :: "string \<Rightarrow> 'c command" where
  "reply data g = Inr (packingAndSend data g)"

definition cmd_ReadAllRegister :: "'c debuggable \<Rightarrow> 'c command" where
  "cmd_ReadAllRegister dg g =
     bnd (DumpAllRegister_DebugAPI dg (debuggedCore g)) (\<lambda>(_, regs).
       if \<exists>r \<in> set regs. 8 < reg_size r then Inl Undefined
       else reply (hex_bytes (concat (map (\<lambda>r. bytes_of (unat (reg_size r)) (reg_val r)) regs))) g)"

text \<open>The reply to a write is sent on an error only; \<open>E01\<close> when \<open>feedback\<close> is not \<open>MEMU_OK\<close>.\<close>

definition reply_error :: "FuncReturnFeedback_e \<Rightarrow> 'c command" where
  "reply_error feedback g = (if feedback \<noteq> MEMU_OK then reply ''E01'' g else Inr g)"

definition cmd_WriteAllRegister :: "'c debuggable \<Rightarrow> GDB_RSP_Packet \<Rightarrow> 'c command" where
  "cmd_WriteAllRegister dg packet g =
     guard (packetType packet = CMD_REG_WRITE_ALL)
       (case paramList packet of
          [all_reg_str] \<Rightarrow>
            let reg_str_len = GetISABitLen_DebugAPI div 4; reg_size = GetISABitLen_DebugAPI div 8;
                reg_num = length all_reg_str div reg_str_len in
            if length all_reg_str mod reg_str_len \<noteq> 0 then reply [] g
            else bnd (ParseByteStreamStr all_reg_str) (\<lambda>all_reg_data.
              let vals = words_of_bytes reg_size reg_num all_reg_data;
                  regs = map (\<lambda>i. \<lparr>reg_id = of_nat i, disp_name = [], reg_size = of_nat reg_size, reg_val = vals ! i\<rparr>) [0..<reg_num] in
              bnd (WriteAllRegister_DebugAPI dg regs (debuggedCore g)) (\<lambda>(feedback, c).
                reply_error feedback (g\<lparr>debuggedCore := c\<rparr>)))
        | _ \<Rightarrow> reply [] g)"

definition cmd_GetHaltReason :: "'c command" where
  "cmd_GetHaltReason = reply ''S05''"

definition cmd_QSupported :: "GDB_RSP_Packet \<Rightarrow> 'c command" where
  "cmd_QSupported packet = reply (concat (map (\<lambda>s. if s = ''hwbreak'' then ''hwbreak+'' else []) (paramList packet)))"

definition cmd_Unknown :: "'c command" where
  "cmd_Unknown = reply []"

text \<open>The index of the loop that prints the bytes is an \<open>int\<close>.\<close>

definition cmd_MemRead :: "'c debuggable \<Rightarrow> GDB_RSP_Packet \<Rightarrow> 'c command" where
  "cmd_MemRead dg packet g =
     guard (packetType packet = CMD_MEM_READ)
       (case paramList packet of
          [p0, p1] \<Rightarrow>
            let addr = strtoll16 p0; len = strtoll16 p1 in
            bnd (MemRead_DebugAPI dg addr len (debuggedCore g)) (\<lambda>(feedback, data, c).
              let g = g\<lparr>debuggedCore := c\<rparr> in
              if feedback = MEMU_OK then
                if len = 0 then reply [] g
                else case data of None \<Rightarrow> Inl Undefined
                  | Some bs \<Rightarrow> if len < 0x80000000 then reply (hex_bytes bs) g else Inl Undefined
              else reply ''E01'' g)
        | _ \<Rightarrow> reply [] g)"

definition cmd_MemWrite :: "'c debuggable \<Rightarrow> GDB_RSP_Packet \<Rightarrow> 'c command" where
  "cmd_MemWrite dg packet g =
     guard (packetType packet = CMD_MEM_WRITE)
       (case paramList packet of
          [p0, p1, p2] \<Rightarrow>
            let addr = strtoll16 p0; len = strtoll16 p1 in
            if 2 * len \<noteq> of_nat (length p2) then reply [] g
            else bnd (ParseByteStreamStr p2) (\<lambda>data.
              bnd (MemWrite_DebugAPI dg addr data (debuggedCore g)) (\<lambda>(feedback, c).
                reply_error feedback (g\<lparr>debuggedCore := c\<rparr>)))
        | _ \<Rightarrow> reply [] g)"

text \<open>The type of a breakpoint is an \<open>int\<close>: 0 (software) and 1 (hardware) are treated alike.\<close>

definition pc_breakpoint :: "string \<Rightarrow> bool" where
  "pc_breakpoint s \<longleftrightarrow> (let watchpoint_type = ucast (strtoll16 s) :: u32 in watchpoint_type = 0 \<or> watchpoint_type = 1)"

definition cmd_InsertBreakpoint :: "GDB_RSP_Packet \<Rightarrow> 'c command" where
  "cmd_InsertBreakpoint packet g =
     guard (packetType packet = CMD_INSERT_BREAKPOINT)
       (case paramList packet of
          [p0, p1, p2] \<Rightarrow>
            if \<not> pc_breakpoint p0 then reply [] g
            else reply ''OK'' (g\<lparr>watchPointPCs := insert (strtoll16 p1) (watchPointPCs g)\<rparr>)
        | _ \<Rightarrow> reply [] g)"

definition cmd_RemoveBreakpoint :: "GDB_RSP_Packet \<Rightarrow> 'c command" where
  "cmd_RemoveBreakpoint packet g =
     guard (packetType packet = CMD_REMOVE_BREAKPOINT)
       (case paramList packet of
          [p0, p1, p2] \<Rightarrow>
            if \<not> pc_breakpoint p0 then reply [] g
            else reply ''OK'' (g\<lparr>watchPointPCs := watchPointPCs g - {strtoll16 p1}\<rparr>)
        | _ \<Rightarrow> reply [] g)"

definition hitsWatchPoint :: "'c debuggable \<Rightarrow> u64 set \<Rightarrow> 'c \<Rightarrow> bool res" where
  "hitsWatchPoint dg pcs c = bnd (DumpProgramCounter_DebugAPI dg c) (\<lambda>pc. Inr (reg_val pc \<in> pcs))"

text \<open>\<open>while(!hitsWatchPoint()) Step_DebugAPI()\<close>, which need not end: then it is \<open>None\<close>.\<close>

partial_function (option) run_to_watchpoint :: "'c debuggable \<Rightarrow> u64 set \<Rightarrow> 'c \<Rightarrow> 'c res option" where
  "run_to_watchpoint dg pcs c =
     (case hitsWatchPoint dg pcs c of
        Inl e \<Rightarrow> Some (Inl e)
      | Inr hit \<Rightarrow>
          if hit then Some (Inr c)
          else case Step_DebugAPI dg c of Inl e \<Rightarrow> Some (Inl e) | Inr c' \<Rightarrow> run_to_watchpoint dg pcs c')"

definition cmd_Continue :: "'c debuggable \<Rightarrow> GDB_RSP_Packet \<Rightarrow> 'c gdb_stub \<Rightarrow> 'c gdb_stub res option" where
  "cmd_Continue dg packet g =
     (if packetType packet \<noteq> CMD_CONTINUE then Some (Inl AssertFail)
      else if paramList packet \<noteq> [] then Some (reply [] g)
      else map_option (\<lambda>r. bnd r (\<lambda>c. reply ''S05'' (g\<lparr>debuggedCore := c\<rparr>)))
        (run_to_watchpoint dg (watchPointPCs g) (debuggedCore g)))"

section \<open>The loop\<close>

text \<open>The switch on the type of the packet; a type without a case is the \<open>assert(0)\<close> of the default.\<close>

definition exec_packet :: "'c debuggable \<Rightarrow> GDB_RSP_Packet \<Rightarrow> 'c gdb_stub \<Rightarrow> 'c gdb_stub res option" where
  "exec_packet dg packet g =
     (case packetType packet of
        CMD_QUERY_HALT_REASON \<Rightarrow> Some (cmd_GetHaltReason (sendACK g))
      | CMD_REG_READ_ALL \<Rightarrow> Some (cmd_ReadAllRegister dg (sendACK g))
      | CMD_REG_WRITE_ALL \<Rightarrow> Some (cmd_WriteAllRegister dg packet (sendACK g))
      | CMD_Q_SUPPORTED \<Rightarrow> Some (cmd_QSupported packet (sendACK g))
      | CMD_MEM_READ \<Rightarrow> Some (cmd_MemRead dg packet (sendACK g))
      | CMD_MEM_WRITE \<Rightarrow> Some (cmd_MemWrite dg packet (sendACK g))
      | CMD_INSERT_BREAKPOINT \<Rightarrow> Some (cmd_InsertBreakpoint packet (sendACK g))
      | CMD_REMOVE_BREAKPOINT \<Rightarrow> Some (cmd_RemoveBreakpoint packet (sendACK g))
      | CMD_CONTINUE \<Rightarrow> cmd_Continue dg packet (sendACK g)
      | EMPTY_PACKET \<Rightarrow> Some (Inr (sendACK g))
      | CMD_UNKNOWN \<Rightarrow> Some (cmd_Unknown (sendACK g))
      | _ \<Rightarrow> Some (Inl AssertFail))"

text \<open>One turn of the loop of \<open>Debug_GDBStub\<close>.\<close>

definition debug_turn :: "'c debuggable \<Rightarrow> 'c gdb_stub \<Rightarrow> 'c gdb_stub res option" where
  "debug_turn dg g =
     (case recvPacket g of
        Inl e \<Rightarrow> Some (Inl e)
      | Inr (feedback, g) \<Rightarrow>
          if feedback \<noteq> MEMU_OK then Some (Inl Exit)
          else exec_packet dg (ParsePacket_GDB_RSP_Utils (gdb_packet g) (fresh_packet CMD_UNKNOWN)) g)"

text \<open>
  The loop itself. It ends the emulator, by an error or by \<open>exit\<close>, or goes on for ever; the return behind it is never reached.
\<close>

partial_function (option) Debug_GDBStub :: "'c debuggable \<Rightarrow> 'c gdb_stub \<Rightarrow> 'c gdb_stub res option" where
  "Debug_GDBStub dg g =
     (case debug_turn dg g of
        None \<Rightarrow> None
      | Some (Inl e) \<Rightarrow> Some (Inl e)
      | Some (Inr g') \<Rightarrow> Debug_GDBStub dg g')"

lemma Debug_GDBStub_never_returns: "Debug_GDBStub dg g \<noteq> Some (Inr g')"
proof
  assume "Debug_GDBStub dg g = Some (Inr g')"
  then have "case Inr g' :: 'a gdb_stub res of Inl _ \<Rightarrow> True | Inr _ \<Rightarrow> False"
  proof (induction rule: Debug_GDBStub.raw_induct[rotated 1, consumes 1, case_names step])
    case step then show ?case by (force split: option.splits sum.splits)
  qed
  then show False by simp
qed

section \<open>Receiving what was sent\<close>

text \<open>The characters that are still to come.\<close>

definition avail :: "string \<Rightarrow> string list \<Rightarrow> string" where
  "avail fb segs = fb @ concat segs"

text \<open>
  Where the reader is in the pieces \<open>all\<close> of the connection after \<open>m\<close> characters: it has taken whole pieces, no more than it
  needed, and holds in \<open>fb\<close> what it has not used of the last one.
\<close>

definition read_to :: "string list \<Rightarrow> nat \<Rightarrow> string \<Rightarrow> string list \<Rightarrow> bool" where
  "read_to all m fb segs \<longleftrightarrow> (\<exists>n \<le> length all. segs = drop n all \<and> m + length fb = length (concat (take n all))
     \<and> (\<forall>k < n. length (concat (take k all)) < m))"

definition read_near :: "string list \<Rightarrow> nat \<Rightarrow> string \<Rightarrow> string list \<Rightarrow> bool" where
  "read_near all m fb segs \<longleftrightarrow> (\<exists>n \<le> length all. segs = drop n all \<and> m + length fb = length (concat (take n all))
     \<and> (\<forall>k < n. length (concat (take k all)) \<le> m))"

lemma read_to_near: "read_to all m fb segs \<Longrightarrow> read_near all m fb segs"
  unfolding read_to_def read_near_def using less_imp_le by blast

lemma drop_eq_Cons: "drop n xs = y # ys \<Longrightarrow> n < length xs \<and> take (Suc n) xs = take n xs @ [y] \<and> drop (Suc n) xs = ys"
  by (metis drop_eq_Nil2 list.distinct(1) list.sel(1) list.sel(3) not_le drop_Suc tl_drop hd_drop_conv_nth take_Suc_conv_app_nth)

lemma getc_read_to:
  "read_near all m fb segs \<Longrightarrow> avail fb segs = c # r \<Longrightarrow>
     \<exists>fb' segs'. getc fb segs = (c, fb', segs') \<and> avail fb' segs' = r \<and> read_to all (Suc m) fb' segs'"
proof (induction fb segs rule: getc.induct)
  case (1 d fb segs)
  then show ?case by (auto simp: avail_def read_near_def read_to_def less_Suc_eq_le)
next
  case (2 d fb segs)
  then obtain n where n: "drop n all = (d # fb) # segs" "m = length (concat (take n all))" "\<forall>k < n. length (concat (take k all)) \<le> m"
    by (auto simp: read_near_def)
  have "read_to all (Suc m) fb segs"
    unfolding read_to_def using drop_eq_Cons[OF n(1)] n(2,3) by (intro exI[of _ "Suc n"]) (auto simp: less_Suc_eq_le le_less)
  then show ?case using 2 by (simp add: avail_def)
next
  case (3 segs)
  then obtain n where n: "drop n all = [] # segs" "m = length (concat (take n all))" "\<forall>k < n. length (concat (take k all)) \<le> m"
    by (auto simp: read_near_def)
  have "read_near all m [] segs"
    unfolding read_near_def using drop_eq_Cons[OF n(1)] n(2,3) by (intro exI[of _ "Suc n"]) (auto simp: less_Suc_eq)
  then show ?case using 3 by (simp add: avail_def)
qed (simp add: avail_def)

lemma scan_run:
  assumes "avail fb segs = u @ r" and "PACKET_END_CHAR \<notin> set u" and "read_near all m fb segs"
  shows "\<exists>fb' segs' bg'. avail fb' segs' = r \<and> (PACKET_BEGIN_CHAR \<notin> set u \<longrightarrow> bg' = bg) \<and> read_near all (m + length u) fb' segs'
    \<and> (\<forall>n. scan_packet (length u + n) fb segs buf bg = scan_packet n fb' segs' (buf @ u) bg')"
  using assms
proof (induction u arbitrary: fb segs buf bg m)
  case (Cons c u)
  obtain fb1 segs1 where g: "getc fb segs = (c, fb1, segs1)" and a: "avail fb1 segs1 = u @ r" and n: "read_near all (Suc m) fb1 segs1"
    using getc_read_to[OF Cons.prems(3), of c "u @ r"] Cons.prems(1) read_to_near by auto
  let ?bg = "if c = PACKET_BEGIN_CHAR then int (length (buf @ [c])) else bg"
  obtain fb' segs' bg' where 1: "avail fb' segs' = r" "PACKET_BEGIN_CHAR \<notin> set u \<longrightarrow> bg' = ?bg" "read_near all (Suc m + length u) fb' segs'"
    "\<forall>n. scan_packet (length u + n) fb1 segs1 (buf @ [c]) ?bg = scan_packet n fb' segs' (buf @ [c] @ u) bg'"
    using Cons.IH[OF a _ n, of ?bg "buf @ [c]"] Cons.prems(2) by auto
  have "scan_packet (length (c # u) + n) fb segs buf bg = scan_packet n fb' segs' (buf @ c # u) bg'" for n
    using 1(4)[rule_format, of n] g Cons.prems(2) by (auto simp: Let_def)
  then show ?case using 1(1,2,3) by (intro exI[of _ fb'] exI[of _ segs'] exI[of _ bg']) auto
qed auto

lemma checksum_read: "sscanf_02x (hex_byte b ! 0) (hex_byte b ! 1) = Some b"
proof -
  have h: "is_hex (hex_byte b ! 0)" using byte_digits[of b] by (simp add: hex_byte_def hex_char_hex)
  then have c: "hex_byte b ! 0 \<notin> {CHR '' '', CHR 0x09, CHR 0x0A, CHR 0x0B, CHR 0x0C, CHR 0x0D, CHR ''+''}" "hex_byte b ! 0 \<noteq> CHR ''-''"
    by (auto simp: is_hex_def hex_digit_def)
  have d: "hex_digit (hex_byte b ! 0) = Some (unat b div 16)" "hex_digit (hex_byte b ! 1) = Some (unat b mod 16)"
    using byte_digits[of b] by (simp_all add: hex_byte_def hex_char_digit)
  have "sscanf_02x (hex_byte b ! 0) (hex_byte b ! 1) = Some (of_nat (16 * (unat b div 16) + unat b mod 16))"
    unfolding sscanf_02x_def d using c by (simp only: if_False option.map option.case)
  also have "16 * (unat b div 16) + unat b mod 16 = unat b" by simp
  finally show ?thesis by simp
qed

text \<open>The pieces that are gone when a packet with \<open>m\<close> characters in front of and in its frame has been read.\<close>

definition pieces_read :: "string list \<Rightarrow> nat \<Rightarrow> nat \<Rightarrow> bool" where
  "pieces_read all m n \<longleftrightarrow> n \<le> length all \<and> m \<le> length (concat (take n all)) \<and> (\<forall>k < n. length (concat (take k all)) < m)"

lemma recv_frame:
  assumes p: "\<forall>c \<in> set p. c \<noteq> PACKET_BEGIN_CHAR \<and> c \<noteq> PACKET_END_CHAR" and pre: "PACKET_END_CHAR \<notin> set pre"
    and in_: "concat (recv_segs g) = pre @ frame p @ rest" and len: "length pre + length p + 2 \<le> BUFFER_SIZE"
  shows "\<exists>n. recvAndCheck g = Inr (MEMU_OK, g\<lparr>gdb_packet := p, recv_segs := drop n (recv_segs g)\<rparr>)
    \<and> pieces_read (recv_segs g) (length pre + length p + 4) n"
proof -
  let ?k = "hex_byte (CalCheckSum_GDB_RSP_Utils p)" and ?all = "recv_segs g"
  have k: "?k = [?k ! 0, ?k ! 1]" by (simp add: hex_byte_def)
  define n where "n = BUFFER_SIZE - (length pre + length p + 2)"
  have B: "BUFFER_SIZE = length pre + (Suc (length p + Suc n))" using len by (simp add: n_def)
  have a: "avail [] ?all = pre @ PACKET_BEGIN_CHAR # p @ PACKET_END_CHAR # ?k @ rest"
    using in_ by (simp add: avail_def frame_def)
  have r0: "read_near ?all 0 [] ?all" unfolding read_near_def by (intro exI[of _ 0]) simp
  obtain fb1 s1 bg1 where 1: "avail fb1 s1 = PACKET_BEGIN_CHAR # p @ PACKET_END_CHAR # ?k @ rest" "read_near ?all (length pre) fb1 s1"
    "\<forall>n. scan_packet (length pre + n) [] ?all [] (- 1) = scan_packet n fb1 s1 pre bg1"
    using scan_run[OF a pre r0, of "- 1" "[]"] by auto
  obtain fb2 s2 where 2: "getc fb1 s1 = (PACKET_BEGIN_CHAR, fb2, s2)" "avail fb2 s2 = p @ PACKET_END_CHAR # ?k @ rest"
    "read_near ?all (Suc (length pre)) fb2 s2"
    using getc_read_to[OF 1(2,1)] read_to_near by blast
  let ?buf = "pre @ [PACKET_BEGIN_CHAR]"
  obtain fb3 s3 where 3: "avail fb3 s3 = PACKET_END_CHAR # ?k @ rest" "read_near ?all (Suc (length pre) + length p) fb3 s3"
    "\<forall>n. scan_packet (length p + n) fb2 s2 ?buf (int (length ?buf)) = scan_packet n fb3 s3 (?buf @ p) (int (length ?buf))"
    using scan_run[OF 2(2) _ 2(3), of "int (length ?buf)" ?buf] p by auto
  have k4: "?k @ rest = ?k ! 0 # ?k ! 1 # rest" using k by simp
  obtain fb4 s4 where 4: "getc fb3 s3 = (PACKET_END_CHAR, fb4, s4)" "avail fb4 s4 = ?k ! 0 # ?k ! 1 # rest"
    "read_near ?all (Suc (Suc (length pre) + length p)) fb4 s4"
    using getc_read_to[OF 3(2,1)] read_to_near unfolding k4 by blast
  have ne: "PACKET_BEGIN_CHAR \<noteq> PACKET_END_CHAR" by (simp add: PACKET_BEGIN_CHAR_def PACKET_END_CHAR_def)
  have scan: "scan_packet BUFFER_SIZE [] ?all [] (- 1) = Some (?buf @ p @ [PACKET_END_CHAR], int (length ?buf), fb4, s4)"
    unfolding B 1(3)[rule_format] using 2(1) 4(1) 3(3)[rule_format, of "Suc n"] ne by (simp add: Let_def)
  obtain fb5 s5 where 5: "getc fb4 s4 = (?k ! 0, fb5, s5)" "avail fb5 s5 = ?k ! 1 # rest"
    "read_near ?all (Suc (Suc (Suc (length pre) + length p))) fb5 s5"
    using getc_read_to[OF 4(3,2)] read_to_near by blast
  obtain fb6 s6 where 6: "getc fb5 s5 = (?k ! 1, fb6, s6)" "read_to ?all (Suc (Suc (Suc (Suc (length pre) + length p)))) fb6 s6"
    using getc_read_to[OF 5(3,2)] by blast
  obtain l where l: "s6 = drop l ?all" "pieces_read ?all (length pre + length p + 4) l"
    using 6(2) unfolding read_to_def pieces_read_def by (auto simp: eval_nat_numeral)
  have "recvAndCheck g = Inr (MEMU_OK, g\<lparr>gdb_packet := p, recv_segs := s6\<rparr>)"
  proof -
    have b: "int (length ?buf) \<noteq> - 1" by simp
    have pk: "take (length (?buf @ p @ [PACKET_END_CHAR]) - 1 - nat (int (length ?buf)))
        (drop (nat (int (length ?buf))) (?buf @ p @ [PACKET_END_CHAR])) = p"
      unfolding nat_int by simp
    show ?thesis
      unfolding recvAndCheck_def scan option.case prod.case Let_def 5(1) 6(1) pk checksum_read using b by simp
  qed
  then show ?thesis using l by blast
qed

lemma recv_packet_frame:
  assumes "\<forall>c \<in> set p. c \<noteq> PACKET_BEGIN_CHAR \<and> c \<noteq> PACKET_END_CHAR" and "PACKET_END_CHAR \<notin> set pre"
    and "concat (recv_segs g) = pre @ frame p @ rest" and "length pre + length p + 2 \<le> BUFFER_SIZE"
  shows "\<exists>n. recvPacket g = Inr (MEMU_OK, sendACK (g\<lparr>gdb_packet := p, recv_segs := drop n (recv_segs g)\<rparr>))
    \<and> pieces_read (recv_segs g) (length pre + length p + 4) n"
proof -
  obtain n where "recvAndCheck g = Inr (MEMU_OK, g\<lparr>gdb_packet := p, recv_segs := drop n (recv_segs g)\<rparr>)"
    "pieces_read (recv_segs g) (length pre + length p + 4) n"
    using recv_frame[OF assms] by blast
  then show ?thesis by (auto simp: recvPacket_def numeral_eq_Suc)
qed

lemma resend_acked: "resend n pk (CHR ''+'', g) = g"
  by (cases n) simp_all

lemma send_acked: "recv_segs g = (CHR ''+'' # s) # segs \<Longrightarrow>
    packingAndSend p g = g\<lparr>sent := sent g @ frame p, recv_segs := s # segs\<rparr>"
  by (simp add: packingAndSend_def read_ack_def write_fd_def resend_acked)

lemma resend_keeps: "watchPointPCs (resend n pk (ack, g)) = watchPointPCs g \<and> debuggedCore (resend n pk (ack, g)) = debuggedCore g"
  by (induction n pk "(ack, g)" arbitrary: ack g rule: resend.induct) (auto simp: read_ack_def write_fd_def split: prod.splits)

lemma send_keeps: "watchPointPCs (packingAndSend p g) = watchPointPCs g" "debuggedCore (packingAndSend p g) = debuggedCore g"
  by (auto simp: packingAndSend_def read_ack_def write_fd_def resend_keeps split: prod.splits)

section \<open>The registers of a core\<close>

text \<open>
  What the register commands need of a core: \<open>regs\<close> are the 33 values it shows, and it takes others by \<open>put\<close>, which then are
  those it shows.
\<close>

locale debuggable_core =
  fixes dg :: "'c debuggable" and ok :: "'c \<Rightarrow> bool" and regs :: "'c \<Rightarrow> u64 list" and put :: "u64 list \<Rightarrow> 'c \<Rightarrow> 'c"
  assumes dump: "ok c \<Longrightarrow> \<exists>rs. DumpAllRegister_DebugAPI dg c = Inr (MEMU_OK, rs) \<and> map reg_val rs = regs c
      \<and> (\<forall>r \<in> set rs. reg_size r = 8)"
    and count: "ok c \<Longrightarrow> length (regs c) = 33"
    and restore: "ok c \<Longrightarrow> length rs = 33 \<Longrightarrow> WriteAllRegister_DebugAPI dg rs c = Inr (MEMU_OK, put (map reg_val rs) c)"
    and regs_put: "ok c \<Longrightarrow> length vs = 33 \<Longrightarrow> ok (put vs c) \<and> regs (put vs c) = vs"
begin

lemma read_all: "ok (debuggedCore g) \<Longrightarrow>
    cmd_ReadAllRegister dg g = Inr (packingAndSend (hex_bytes (bytes_of_list 8 (regs (debuggedCore g)))) g)"
proof -
  assume "ok (debuggedCore g)"
  then obtain rs where rs: "DumpAllRegister_DebugAPI dg (debuggedCore g) = Inr (MEMU_OK, rs)" "map reg_val rs = regs (debuggedCore g)"
    "\<forall>r \<in> set rs. reg_size r = 8" using dump by blast
  have "map (\<lambda>r. bytes_of (unat (reg_size r)) (reg_val r)) rs = map (\<lambda>r. bytes_of 8 (reg_val r)) rs"
    using rs(3) by auto
  also have "concat \<dots> = bytes_of_list 8 (regs (debuggedCore g))"
    by (simp add: bytes_of_list_def rs(2)[symmetric] comp_def)
  finally show ?thesis using rs(1,3) by (auto simp: cmd_ReadAllRegister_def reply_def)
qed

lemma write_all:
  assumes "ok (debuggedCore g)" and "length vs = 33"
  shows "cmd_WriteAllRegister dg \<lparr>packetType = CMD_REG_WRITE_ALL, packet_cmd = [], paramList = [hex_bytes (bytes_of_list 8 vs)]\<rparr> g
      = Inr (g\<lparr>debuggedCore := put vs (debuggedCore g)\<rparr>)"
proof -
  let ?rs = "map (\<lambda>i. \<lparr>reg_id = of_nat i, disp_name = [], reg_size = of_nat 8, reg_val = vs ! i\<rparr>) [0..<33]"
  have v: "words_of_bytes 8 33 (bytes_of_list 8 vs) = vs" using words_of_bytes_of_list[of 8 vs] assms(2) by simp
  have "map reg_val ?rs = vs" using assms(2) by (intro nth_equalityI) auto
  then have "WriteAllRegister_DebugAPI dg ?rs (debuggedCore g) = Inr (MEMU_OK, put vs (debuggedCore g))"
    using restore[OF assms(1), of ?rs] by simp
  then show ?thesis
    using assms(2) v by (simp add: cmd_WriteAllRegister_def GetISABitLen_DebugAPI_def parse_hex_bytes reply_error_def Let_def)
qed

end

text \<open>The core with contexts.\<close>

definition minicpu_debug :: "irq_store \<Rightarrow> 'b slave_atomic_io \<Rightarrow> 'b minicore debuggable" where
  "minicpu_debug w vt =
     \<lparr>DumpAllRegister_DebugAPI = (\<lambda>c. mc_DumpAllRegister c []), WriteAllRegister_DebugAPI = mc_WriteAllRegister,
      MemRead_DebugAPI = mc_MemRead vt, MemWrite_DebugAPI = mc_MemWrite vt,
      DumpProgramCounter_DebugAPI = mc_DumpProgramCounter, Step_DebugAPI = mc_step w vt\<rparr>"

definition ctx_regs :: "mini_ctx \<Rightarrow> u64 list" where
  "ctx_regs x = map (\<lambda>i. cx_GPR x (of_nat i)) [0..<32] @ [cx_currentProgramCounter x]"

abbreviation current_ctx :: "'b minicore \<Rightarrow> mini_ctx" where
  "current_ctx c \<equiv> mc_ctx c ! unat (mc_currentCtx c)"

text \<open>The registers of the current context replaced, and nothing else.\<close>

definition put_ctx_regs :: "u64 list \<Rightarrow> 'b minicore \<Rightarrow> 'b minicore" where
  "put_ctx_regs vs c = c\<lparr>mc_ctx := (mc_ctx c)[unat (mc_currentCtx c) :=
     (current_ctx c)\<lparr>cx_GPR := (\<lambda>r. vs ! unat r), cx_currentProgramCounter := vs ! 32\<rparr>]\<rparr>"

interpretation mini: debuggable_core "minicpu_debug w vt" mc_ok "\<lambda>c. ctx_regs (current_ctx c)" put_ctx_regs for w vt
proof (unfold_locales, goal_cases)
  case (1 c) then show ?case
    by (auto simp: minicpu_debug_def mc_DumpAllRegister_def mc_ok_def ctx_regs_def comp_def)
next
  case (2 c) show ?case by (simp add: ctx_regs_def)
next
  case (3 c rs)
  have "map reg_val rs ! unat r = reg_val (rs ! unat r)" for r :: reg
  proof (rule nth_map)
    have "unat r < 2 ^ LENGTH(5)" by (rule unsigned_less)
    then show "unat r < length rs" using 3(2) by simp
  qed
  then show ?case
    using 3 by (simp add: minicpu_debug_def mc_WriteAllRegister_def mc_ok_def put_ctx_regs_def Let_def)
next
  case (4 c vs)
  have u: "unat (of_nat i :: reg) = i" if "i < 32" for i using that by (intro unat_of_nat_small) simp
  have m: "map (\<lambda>i. vs ! unat (of_nat i :: reg)) [0..<32] = map (\<lambda>i. vs ! i) [0..<32]" by (intro map_cong refl) (simp add: u)
  have l: "map (\<lambda>i. vs ! i) [0..<32] @ [vs ! 32] = vs"
    using 4(2) map_nth[of vs] upt_Suc_append[of 0 32] by (simp del: upt_Suc upt_rec_numeral)
  have "map (\<lambda>i. vs ! unat (of_nat i :: reg)) [0..<32] @ [vs ! 32] = vs" unfolding m by (rule l)
  then show ?case using 4(1) unfolding ctx_regs_def put_ctx_regs_def mc_ok_def by (simp del: upt_rec_numeral)
qed

text \<open>The registers of one context put into another.\<close>

lemma put_ctx_regs_of:
  "put_ctx_regs (ctx_regs x) c = c\<lparr>mc_ctx := (mc_ctx c)[unat (mc_currentCtx c) :=
     (current_ctx c)\<lparr>cx_GPR := cx_GPR x, cx_currentProgramCounter := cx_currentProgramCounter x\<rparr>]\<rparr>"
proof -
  have "ctx_regs x ! unat r = cx_GPR x r" for r :: reg
  proof -
    have "unat r < 32" using unsigned_less[of r] by simp
    then show ?thesis by (simp add: ctx_regs_def nth_append)
  qed
  then show ?thesis by (simp add: put_ctx_regs_def ctx_regs_def nth_append)
qed

section \<open>Running to a watchpoint\<close>

text \<open>A turn of the loop that goes on, and how the loop ends in a state.\<close>

definition goes_on :: "'c debuggable \<Rightarrow> u64 set \<Rightarrow> 'c \<Rightarrow> 'c \<Rightarrow> bool" where
  "goes_on dg pcs c c' \<longleftrightarrow> hitsWatchPoint dg pcs c = Inr False \<and> Step_DebugAPI dg c = Inr c'"

definition ends :: "'c debuggable \<Rightarrow> u64 set \<Rightarrow> 'c \<Rightarrow> 'c res \<Rightarrow> bool" where
  "ends dg pcs c r \<longleftrightarrow>
     (case hitsWatchPoint dg pcs c of Inl e \<Rightarrow> r = Inl e
      | Inr hit \<Rightarrow> if hit then r = Inr c else \<exists>e. Step_DebugAPI dg c = Inl e \<and> r = Inl e)"

lemma run_ends: "ends dg pcs c r \<Longrightarrow> run_to_watchpoint dg pcs c = Some r"
  by (subst run_to_watchpoint.simps) (auto simp: ends_def split: sum.splits if_splits)

lemma run_goes_on: "goes_on dg pcs c c' \<Longrightarrow> run_to_watchpoint dg pcs c = run_to_watchpoint dg pcs c'"
  by (subst run_to_watchpoint.simps) (auto simp: goes_on_def)

lemma run_from: "(goes_on dg pcs)\<^sup>*\<^sup>* c d \<Longrightarrow> run_to_watchpoint dg pcs c = run_to_watchpoint dg pcs d"
  by (induction rule: rtranclp_induct) (auto dest: run_goes_on)

lemma run_some: "run_to_watchpoint dg pcs c = Some r \<Longrightarrow> \<exists>d. (goes_on dg pcs)\<^sup>*\<^sup>* c d \<and> ends dg pcs d r"
proof (induction rule: run_to_watchpoint.raw_induct[rotated 1, consumes 1, case_names step])
  case (step run dg pcs c r)
  show ?case
  proof (cases "hitsWatchPoint dg pcs c")
    case (Inl e) then show ?thesis using step(2) by (auto simp: ends_def intro!: exI[of _ c])
  next
    case (Inr hit)
    show ?thesis
    proof (cases "hit \<or> (\<exists>e. Step_DebugAPI dg c = Inl e)")
      case True then show ?thesis using Inr step(2) by (auto simp: ends_def intro!: exI[of _ c] split: if_splits)
    next
      case False
      then obtain c' where c': "Step_DebugAPI dg c = Inr c'" "\<not> hit" by (cases "Step_DebugAPI dg c") auto
      then have "run dg pcs c' = Some r" using step(2) Inr by simp
      then obtain d where "(goes_on dg pcs)\<^sup>*\<^sup>* c' d" "ends dg pcs d r" using step(1) by blast
      moreover have "goes_on dg pcs c c'" using c' Inr by (simp add: goes_on_def)
      ultimately show ?thesis by (meson converse_rtranclp_into_rtranclp)
    qed
  qed
qed

lemma run_spec: "run_to_watchpoint dg pcs c = Some r \<longleftrightarrow> (\<exists>d. (goes_on dg pcs)\<^sup>*\<^sup>* c d \<and> ends dg pcs d r)"
  using run_some run_from run_ends by metis

text \<open>The core after \<open>n\<close> steps.\<close>

primrec mc_steps :: "irq_store \<Rightarrow> 'b slave_atomic_io \<Rightarrow> nat \<Rightarrow> 'b minicore \<Rightarrow> 'b minicore res" where
  "mc_steps w vt 0 c = Inr c"
| "mc_steps w vt (Suc n) c = bnd (mc_steps w vt n c) (mc_step w vt)"

text \<open>A core whose context exists, and whose program counter is none of \<open>pcs\<close>.\<close>

definition off_watch :: "u64 set \<Rightarrow> 'b minicore \<Rightarrow> bool" where
  "off_watch pcs d \<longleftrightarrow> unat (mc_currentCtx d) < length (mc_ctx d) \<and> cx_currentProgramCounter (current_ctx d) \<notin> pcs"

definition clear_before :: "irq_store \<Rightarrow> 'b slave_atomic_io \<Rightarrow> u64 set \<Rightarrow> 'b minicore \<Rightarrow> nat \<Rightarrow> bool" where
  "clear_before w vt pcs c n \<longleftrightarrow> (\<forall>k < n. \<exists>d. mc_steps w vt k c = Inr d \<and> off_watch pcs d)"

lemma clear_beforeD: "clear_before w vt pcs c n \<Longrightarrow> k < n \<Longrightarrow> \<exists>d. mc_steps w vt k c = Inr d \<and> off_watch pcs d"
  unfolding clear_before_def by blast

lemma clear_before_mono: "clear_before w vt pcs c n \<Longrightarrow> m \<le> n \<Longrightarrow> clear_before w vt pcs c m"
  unfolding clear_before_def by (meson less_le_trans)

lemma mini_hits: "hitsWatchPoint (minicpu_debug w vt) pcs d =
    (if unat (mc_currentCtx d) < length (mc_ctx d) then Inr (cx_currentProgramCounter (current_ctx d) \<in> pcs) else Inl Undefined)"
  by (simp add: hitsWatchPoint_def minicpu_debug_def mc_DumpProgramCounter_def arr_get_def guard_def)

lemma mini_step: "Step_DebugAPI (minicpu_debug w vt) = mc_step w vt"
  by (simp add: minicpu_debug_def)

lemma mini_goes_on: "goes_on (minicpu_debug w vt) pcs d d' \<longleftrightarrow> off_watch pcs d \<and> mc_step w vt d = Inr d'"
  by (auto simp: goes_on_def mini_hits off_watch_def mini_step)

lemma steps_run:
  assumes "clear_before w vt pcs c n" and "mc_steps w vt n c = Inr d"
  shows "run_to_watchpoint (minicpu_debug w vt) pcs c = run_to_watchpoint (minicpu_debug w vt) pcs d"
  using assms
proof (induction n arbitrary: d)
  case (Suc n)
  then obtain e where e: "mc_steps w vt n c = Inr e" "off_watch pcs e" using clear_beforeD[OF Suc.prems(1) lessI] by blast
  then have "goes_on (minicpu_debug w vt) pcs e d" using Suc.prems(2) by (simp add: mini_goes_on)
  moreover have "clear_before w vt pcs c n" using clear_before_mono[OF Suc.prems(1)] by simp
  ultimately show ?case using Suc.IH e(1) run_goes_on by metis
qed simp

lemma steps_abort:
  assumes "clear_before w vt pcs c n" and "mc_steps w vt n c = Inl e"
  shows "run_to_watchpoint (minicpu_debug w vt) pcs c = Some (Inl e)"
proof -
  obtain m where n: "n = Suc m" using assms(2) by (cases n) auto
  then obtain d where d: "mc_steps w vt m c = Inr d" "off_watch pcs d" using clear_beforeD[OF assms(1)] by blast
  then have "ends (minicpu_debug w vt) pcs d (Inl e)"
    using assms(2) n by (simp add: ends_def mini_hits off_watch_def mini_step)
  moreover have "clear_before w vt pcs c m" using clear_before_mono[OF assms(1)] n by simp
  ultimately show ?thesis using steps_run[OF _ d(1)] run_ends by metis
qed

lemma goes_on_steps: "(goes_on (minicpu_debug w vt) pcs)\<^sup>*\<^sup>* c d \<Longrightarrow> \<exists>n. mc_steps w vt n c = Inr d"
proof (induction rule: rtranclp_induct)
  case base show ?case by (intro exI[of _ 0]) simp
next
  case (step d e)
  then obtain n where "mc_steps w vt n c = Inr d" by blast
  then show ?case using step(2) by (intro exI[of _ "Suc n"]) (simp add: mini_goes_on)
qed

lemma steps_for_ever:
  assumes "\<And>n. clear_before w vt pcs c n" shows "run_to_watchpoint (minicpu_debug w vt) pcs c = None"
proof (rule ccontr)
  assume "run_to_watchpoint (minicpu_debug w vt) pcs c \<noteq> None"
  then obtain r where "run_to_watchpoint (minicpu_debug w vt) pcs c = Some r" by auto
  then obtain d where d: "(goes_on (minicpu_debug w vt) pcs)\<^sup>*\<^sup>* c d" "ends (minicpu_debug w vt) pcs d r" by (auto dest: run_some)
  obtain n where n: "mc_steps w vt n c = Inr d" using goes_on_steps[OF d(1)] by blast
  have "off_watch pcs d" using clear_beforeD[OF assms lessI, of n] n by simp
  moreover obtain d' where "mc_steps w vt (Suc n) c = Inr d'" using clear_beforeD[OF assms lessI, of "Suc n"] by blast
  then have "mc_step w vt d = Inr d'" using n by simp
  ultimately show False using d(2) by (auto simp: ends_def mini_hits off_watch_def mini_step)
qed

section \<open>Properties\<close>

text \<open>
  C20. What the server sends is what its peer receives: a payload without the two framing characters, sent by
  \<open>packingAndSend\<close> and acknowledged, is the packet that \<open>recvPacket\<close> of a stub finds in its input, after any characters
  but \<open>#\<close> and however the connection cuts the input into pieces, as long as it fits in the buffer. The input loses
  whole pieces: those up to the first with which the packet is complete, so what the peer has sent in the same piece behind the packet is
  lost with the read-ahead of the \<open>FILE\<close>, and all later pieces stay.
\<close>

theorem gdb_packet_roundtrip:
  assumes "\<forall>c \<in> set p. c \<noteq> PACKET_BEGIN_CHAR \<and> c \<noteq> PACKET_END_CHAR" and "recv_segs g0 = (CHR ''+'' # s) # segs0"
    and "concat (recv_segs g) = pre @ drop (length (sent g0)) (sent (packingAndSend p g0)) @ rest"
    and "PACKET_END_CHAR \<notin> set pre" and "length pre + length p + 2 \<le> BUFFER_SIZE"
  shows "\<exists>n. recvPacket g = Inr (MEMU_OK, sendACK (g\<lparr>gdb_packet := p, recv_segs := drop n (recv_segs g)\<rparr>))
    \<and> length pre + length p + 4 \<le> length (concat (take n (recv_segs g)))
    \<and> (\<forall>k < n. length (concat (take k (recv_segs g))) < length pre + length p + 4)"
proof -
  have "sent (packingAndSend p g0) = sent g0 @ frame p"
    by (simp add: send_acked[OF assms(2)])
  then have "concat (recv_segs g) = pre @ frame p @ rest" using assms(3) by simp
  then show ?thesis using recv_packet_frame[OF assms(1,4) _ assms(5)] unfolding pieces_read_def by blast
qed

definition idle_stub :: "string list \<Rightarrow> 'c \<Rightarrow> 'c gdb_stub" where
  "idle_stub segs c = \<lparr>recv_segs = segs, sent = [], gdb_packet = [], watchPointPCs = {}, debuggedCore = c\<rparr>"

text \<open>The reply \<open>OK\<close> in two pieces, the second of which also has the next packet: it is gone.\<close>

theorem gdb_packet_roundtrip_witness:
  "\<exists>g'. recvPacket (idle_stub [''+$O'', ''K#9a$g#67'', ''+''] ()) = Inr (MEMU_OK, g') \<and> gdb_packet g' = ''OK'' \<and> recv_segs g' = [''+'']"
proof -
  let ?g0 = "idle_stub [''+''] ()" and ?segs = "[''+$O'', ''K#9a$g#67'', ''+'']"
  have "frame ''OK'' = ''$OK#9a''"
    by (simp add: frame_def PACKET_BEGIN_CHAR_def PACKET_END_CHAR_def CalCheckSum_GDB_RSP_Utils_def hex_byte_def hex_char_def char_of_def bit_0)
  then have f: "sent (packingAndSend ''OK'' ?g0) = ''$OK#9a''"
    using send_acked[of ?g0 "[]" "[]" "''OK''"] by (simp add: idle_stub_def)
  have "\<exists>n. recvPacket (idle_stub ?segs ()) = Inr (MEMU_OK, sendACK ((idle_stub ?segs ())\<lparr>gdb_packet := ''OK'', recv_segs := drop n (recv_segs (idle_stub ?segs ()))\<rparr>))
      \<and> length ''+'' + length ''OK'' + 4 \<le> length (concat (take n (recv_segs (idle_stub ?segs ()))))
      \<and> (\<forall>k < n. length (concat (take k (recv_segs (idle_stub ?segs ())))) < length ''+'' + length ''OK'' + 4)"
    by (rule gdb_packet_roundtrip [where ?g0.0 = ?g0 and pre = "''+''" and rest = "''$g#67+''"])
      (simp_all only: f, simp_all add: idle_stub_def PACKET_BEGIN_CHAR_def PACKET_END_CHAR_def BUFFER_SIZE_def)
  then obtain n where n: "recvPacket (idle_stub ?segs ()) = Inr (MEMU_OK, sendACK ((idle_stub ?segs ())\<lparr>gdb_packet := ''OK'', recv_segs := drop n ?segs\<rparr>))"
    "7 \<le> length (concat (take n ?segs))" "\<forall>k < n. length (concat (take k ?segs)) < 7" by (auto simp: idle_stub_def)
  have "n = 2"
  proof -
    have "n \<noteq> 0" "n \<noteq> 1" using n(2) by (intro notI; simp)+
    then have "\<not> n < 2" by simp
    moreover have "\<not> 2 < n" using n(3)[rule_format, of 2] by auto
    ultimately show ?thesis by simp
  qed
  then show ?thesis using n(1) by (auto simp: sendACK_def write_fd_def idle_stub_def)
qed

text \<open>
  C21. A debugger can save and restore a context: the payload \<open>p\<close> with which the server answers \<open>g\<close> on a core, sent back as
  \<open>Gp\<close>, gives the current context of the core of any stub the registers and the program counter of the first, and
  changes nothing else of that core: no other context, no register that the contexts share, not the choice of the context, not the bus. The \<open>G\<close>
  is only acknowledged: no reply packet is sent.
\<close>

theorem gdb_registers_roundtrip:
  assumes "mc_ok (debuggedCore g1)" and "mc_ok (debuggedCore g2)"
  shows "\<exists>p. exec_packet (minicpu_debug w vt) (ParsePacket_GDB_RSP_Utils ''g'' (fresh_packet t0)) g1 =
         Some (Inr (packingAndSend p (sendACK g1)))
     \<and> exec_packet (minicpu_debug w vt) (ParsePacket_GDB_RSP_Utils (CHR ''G'' # p) (fresh_packet t0)) g2 =
         Some (Inr ((sendACK g2)\<lparr>debuggedCore := (debuggedCore g2)\<lparr>mc_ctx := (mc_ctx (debuggedCore g2))[unat (mc_currentCtx (debuggedCore g2)) :=
           (current_ctx (debuggedCore g2))\<lparr>cx_GPR := cx_GPR (current_ctx (debuggedCore g1)),
              cx_currentProgramCounter := cx_currentProgramCounter (current_ctx (debuggedCore g1))\<rparr>]\<rparr>\<rparr>))"
proof -
  let ?dg = "minicpu_debug w vt"
  let ?vs = "ctx_regs (current_ctx (debuggedCore g1))"
  let ?p = "hex_bytes (bytes_of_list 8 ?vs)"
  have l: "length ?vs = 33" by (simp add: ctx_regs_def)
  have h: "hex_text ?p"
  proof -
    have "length ?p = 2 * (8 * 33)" using l by (simp only: length_hex_bytes length_bytes_of_list)
    then have "?p \<noteq> []" by (metis list.size(3) mult_eq_0_iff zero_neq_numeral)
    then show ?thesis using hex_bytes_hex by (auto simp: hex_text_def)
  qed
  have g1: "mc_ok (debuggedCore (sendACK g1))" "debuggedCore (sendACK g1) = debuggedCore g1"
    and g2: "mc_ok (debuggedCore (sendACK g2))" "debuggedCore (sendACK g2) = debuggedCore g2"
    using assms by (simp_all add: sendACK_def write_fd_def)
  have r: "exec_packet ?dg (ParsePacket_GDB_RSP_Utils ''g'' (fresh_packet t0)) g1 = Some (Inr (packingAndSend ?p (sendACK g1)))"
    using mini.read_all[OF g1(1), of w vt] g1(2) parse_commands(4)[OF h h h, of t0] by (simp add: exec_packet_def)
  have "exec_packet ?dg (ParsePacket_GDB_RSP_Utils (CHR ''G'' # ?p) (fresh_packet t0)) g2 =
      Some (Inr ((sendACK g2)\<lparr>debuggedCore := put_ctx_regs ?vs (debuggedCore g2)\<rparr>))"
    using mini.write_all[OF g2(1) l, of w vt] g2(2) parse_commands(3)[OF h h h, of t0] by (simp add: exec_packet_def)
  then show ?thesis using r unfolding put_ctx_regs_of by blast
qed

theorem gdb_registers_roundtrip_witness:
  "\<exists>p t. exec_packet (minicpu_debug (\<lambda>_. False) (rom_vt 0x13)) (ParsePacket_GDB_RSP_Utils (CHR ''G'' # p) (fresh_packet CMD_UNKNOWN))
       (idle_stub [] ((mini_core 1)\<lparr>mc_ctx := replicate 4 \<lparr>cx_GPR = (\<lambda>_. 7), cx_waitingChnBits = 0, cx_currentProgramCounter = 0\<rparr>\<rparr>)) =
       Some (Inr t) \<and> cx_GPR (mc_ctx (debuggedCore t) ! 1) 3 = 0 \<and> cx_GPR (mc_ctx (debuggedCore t) ! 2) 3 = 7"
proof -
  let ?t = "(mini_core 1)\<lparr>mc_ctx := replicate 4 \<lparr>cx_GPR = (\<lambda>_. 7), cx_waitingChnBits = 0, cx_currentProgramCounter = 0\<rparr>\<rparr>"
  have "mc_ok (debuggedCore (idle_stub [] (mini_core 2)))" "mc_ok (debuggedCore (idle_stub [] ?t))"
    by (simp_all add: mc_ok_def mini_core_def NR_CTX_def idle_stub_def)
  from gdb_registers_roundtrip [OF this, of "\<lambda>_. False" "rom_vt 0x13" CMD_UNKNOWN]
  show ?thesis by (elim exE conjE) (intro exI conjI, assumption, simp_all add: idle_stub_def mini_core_def)
qed

text \<open>
  C22. A breakpoint stops the core where it was set and nowhere before: a packet \<open>Z\<close> of type 0 or 1 adds the address it writes in
  hexadecimal, below \<open>2^63\<close>, to the watchpoints and leaves the core alone; and \<open>c\<close> then steps the core with contexts until the
  program counter of the current context is a watchpoint, answers \<open>S05\<close>, and leaves the core as it was after that many steps,
  before the instruction at the watchpoint. If the core aborts first, or its context does not exist, so does the server, and
  if it never gets to a watchpoint, \<open>c\<close> does not return.
\<close>

theorem gdb_continue_stops:
  assumes "hex_text a" and "hex_number a < 2 ^ 63" and "hex_text n" and "k = ''0'' \<or> k = ''1''"
  shows "\<exists>h. exec_packet (minicpu_debug w vt) (ParsePacket_GDB_RSP_Utils (CHR ''Z'' # k @ CHR '','' # a @ CHR '','' # n) (fresh_packet t0)) g = Some (Inr h)
     \<and> watchPointPCs h = insert (of_nat (hex_number a)) (watchPointPCs g) \<and> debuggedCore h = debuggedCore g
     \<and> (let c = exec_packet (minicpu_debug w vt) (ParsePacket_GDB_RSP_Utils ''c'' (fresh_packet t0)) h;
            clear = clear_before w vt (watchPointPCs h) (debuggedCore g) in
        (\<forall>m d. clear m \<and> mc_steps w vt m (debuggedCore g) = Inr d \<and> unat (mc_currentCtx d) < length (mc_ctx d)
            \<and> cx_currentProgramCounter (current_ctx d) \<in> watchPointPCs h
            \<longrightarrow> c = Some (Inr (packingAndSend ''S05'' ((sendACK h)\<lparr>debuggedCore := d\<rparr>))))
        \<and> (\<forall>m d. clear m \<and> mc_steps w vt m (debuggedCore g) = Inr d \<and> length (mc_ctx d) \<le> unat (mc_currentCtx d) \<longrightarrow> c = Some (Inl Undefined))
        \<and> (\<forall>m e. clear m \<and> mc_steps w vt m (debuggedCore g) = Inl e \<longrightarrow> c = Some (Inl e))
        \<and> ((\<forall>m. clear m) \<longrightarrow> c = None))"
proof -
  let ?dg = "minicpu_debug w vt"
  have k: "hex_text k" "pc_breakpoint k"
    using assms(4) by (auto simp: hex_text_def is_hex_def hex_digit_def pc_breakpoint_def strtoll16_def hex_number_def)
  have a: "strtoll16 a = of_nat (hex_number a)" using assms(2) by (simp add: strtoll16_def min_def)
  let ?h = "packingAndSend ''OK'' ((sendACK g)\<lparr>watchPointPCs := insert (of_nat (hex_number a)) (watchPointPCs g)\<rparr>)"
  have z: "exec_packet ?dg (ParsePacket_GDB_RSP_Utils (CHR ''Z'' # k @ CHR '','' # a @ CHR '','' # n) (fresh_packet t0)) g = Some (Inr ?h)"
    unfolding parse_breakpoint[OF k(1) assms(1,3)]
    by (simp add: exec_packet_def cmd_InsertBreakpoint_def guard_def k(2) a reply_def sendACK_def write_fd_def)
  have h: "watchPointPCs ?h = insert (of_nat (hex_number a)) (watchPointPCs g)" "debuggedCore ?h = debuggedCore g"
    by (simp_all add: send_keeps) (simp_all add: sendACK_def write_fd_def)
  let ?run = "run_to_watchpoint ?dg (watchPointPCs ?h) (debuggedCore g)"
  have c: "exec_packet ?dg (ParsePacket_GDB_RSP_Utils ''c'' (fresh_packet t0)) ?h =
      map_option (\<lambda>r. bnd r (\<lambda>d. Inr (packingAndSend ''S05'' ((sendACK ?h)\<lparr>debuggedCore := d\<rparr>)))) ?run"
    unfolding parse_commands(5)[OF assms(1,1,1)] using h
    by (simp add: exec_packet_def cmd_Continue_def reply_def) (simp add: sendACK_def write_fd_def)
  have hit: "?run = Some (if unat (mc_currentCtx d) < length (mc_ctx d) then Inr d else Inl Undefined)"
    if "clear_before w vt (watchPointPCs ?h) (debuggedCore g) m" "mc_steps w vt m (debuggedCore g) = Inr d" "\<not> off_watch (watchPointPCs ?h) d" for m d
    unfolding steps_run[OF that(1,2)] using that(3) by (intro run_ends) (simp add: ends_def mini_hits off_watch_def)
  show ?thesis
    unfolding Let_def
  proof (intro exI[of _ ?h] conjI allI impI z h)
    fix m d assume "clear_before w vt (watchPointPCs ?h) (debuggedCore g) m \<and> mc_steps w vt m (debuggedCore g) = Inr d
      \<and> unat (mc_currentCtx d) < length (mc_ctx d) \<and> cx_currentProgramCounter (current_ctx d) \<in> watchPointPCs ?h"
    then show "exec_packet ?dg (ParsePacket_GDB_RSP_Utils ''c'' (fresh_packet t0)) ?h = Some (Inr (packingAndSend ''S05'' ((sendACK ?h)\<lparr>debuggedCore := d\<rparr>)))"
      unfolding c using hit[of m d] by (simp add: off_watch_def)
  next
    fix m d assume "clear_before w vt (watchPointPCs ?h) (debuggedCore g) m \<and> mc_steps w vt m (debuggedCore g) = Inr d
      \<and> length (mc_ctx d) \<le> unat (mc_currentCtx d)"
    then show "exec_packet ?dg (ParsePacket_GDB_RSP_Utils ''c'' (fresh_packet t0)) ?h = Some (Inl Undefined)"
      unfolding c using hit[of m d] by (simp add: off_watch_def)
  next
    fix m e assume "clear_before w vt (watchPointPCs ?h) (debuggedCore g) m \<and> mc_steps w vt m (debuggedCore g) = Inl e"
    then show "exec_packet ?dg (ParsePacket_GDB_RSP_Utils ''c'' (fresh_packet t0)) ?h = Some (Inl e)"
      unfolding c using steps_abort by fastforce
  next
    assume "\<forall>m. clear_before w vt (watchPointPCs ?h) (debuggedCore g) m"
    then show "exec_packet ?dg (ParsePacket_GDB_RSP_Utils ''c'' (fresh_packet t0)) ?h = None"
      unfolding c using steps_for_ever by fastforce
  qed
qed

text \<open>
  On a core that executes \<open>addi x0, x0, 0\<close> for ever, a breakpoint at the next instruction stops it after one step.
\<close>

theorem gdb_continue_stops_witness:
  "\<exists>h h'. exec_packet (minicpu_debug (\<lambda>_. False) (rom_vt 0x13)) (ParsePacket_GDB_RSP_Utils ''Z0,80000004,4'' (fresh_packet CMD_UNKNOWN)) (idle_stub [] (mini_core 1)) = Some (Inr h)
     \<and> exec_packet (minicpu_debug (\<lambda>_. False) (rom_vt 0x13)) (ParsePacket_GDB_RSP_Utils ''c'' (fresh_packet CMD_UNKNOWN)) h = Some (Inr h')
     \<and> cx_currentProgramCounter (mc_ctx (debuggedCore h') ! 1) = 0x80000004"
proof -
  let ?w = "\<lambda>_. False" and ?vt = "rom_vt 0x13" and ?c = "mini_core 1"
  let ?dg = "minicpu_debug ?w ?vt"
  have "case mc_steps ?w ?vt 1 ?c of Inr d \<Rightarrow> mc_currentCtx d = 1 \<and> length (mc_ctx d) = NR_CTX
      \<and> cx_currentProgramCounter (mc_ctx d ! 1) = 0x80000004 | Inl _ \<Rightarrow> False" by code_simp
  then obtain d where d: "mc_steps ?w ?vt 1 ?c = Inr d" "mc_currentCtx d = 1" "length (mc_ctx d) = NR_CTX"
    "cx_currentProgramCounter (mc_ctx d ! 1) = 0x80000004" by (auto split: sum.split_asm)
  have a: "hex_text ''80000004''" "hex_number ''80000004'' = 0x80000004" "hex_text ''4''"
    by (simp_all add: hex_text_def hex_number_def is_hex_def hex_digit_def)
  obtain h where h: "exec_packet ?dg (ParsePacket_GDB_RSP_Utils ''Z0,80000004,4'' (fresh_packet CMD_UNKNOWN)) (idle_stub [] ?c) = Some (Inr h)"
    "watchPointPCs h = {0x80000004}"
    "\<forall>m d. clear_before ?w ?vt (watchPointPCs h) ?c m \<and> mc_steps ?w ?vt m ?c = Inr d \<and> unat (mc_currentCtx d) < length (mc_ctx d)
       \<and> cx_currentProgramCounter (current_ctx d) \<in> watchPointPCs h
       \<longrightarrow> exec_packet ?dg (ParsePacket_GDB_RSP_Utils ''c'' (fresh_packet CMD_UNKNOWN)) h =
           Some (Inr (packingAndSend ''S05'' ((sendACK h)\<lparr>debuggedCore := d\<rparr>)))"
    using gdb_continue_stops [of "''80000004''" "''4''" "''0''" ?w ?vt CMD_UNKNOWN "idle_stub [] ?c"] a
    by (auto simp: Let_def idle_stub_def)
  have "clear_before ?w ?vt (watchPointPCs h) ?c 1"
    by (simp add: clear_before_def off_watch_def h(2) mini_core_def zero_core_def)
  then have "exec_packet ?dg (ParsePacket_GDB_RSP_Utils ''c'' (fresh_packet CMD_UNKNOWN)) h =
      Some (Inr (packingAndSend ''S05'' ((sendACK h)\<lparr>debuggedCore := d\<rparr>)))"
    using h(3)[rule_format, of 1 d] d h(2) by (simp add: NR_CTX_def)
  then show ?thesis using h(1) d(4) by (auto simp: send_keeps)
qed

text \<open>
  Addresses from \<open>2^63\<close> on, those of the upper half of the address space where kernels live, are not told apart: a
  read of memory, a write and a breakpoint at any of them act on address \<open>0x7fffffffffffffff\<close>.
\<close>

theorem gdb_high_addresses_collapse:
  assumes "2 ^ 63 \<le> hex_number a"
  shows "cmd_MemRead dg \<lparr>packetType = CMD_MEM_READ, packet_cmd = [], paramList = [a, n]\<rparr> g =
       cmd_MemRead dg \<lparr>packetType = CMD_MEM_READ, packet_cmd = [], paramList = [''7fffffffffffffff'', n]\<rparr> g
     \<and> cmd_MemWrite dg \<lparr>packetType = CMD_MEM_WRITE, packet_cmd = [], paramList = [a, n, d]\<rparr> g =
       cmd_MemWrite dg \<lparr>packetType = CMD_MEM_WRITE, packet_cmd = [], paramList = [''7fffffffffffffff'', n, d]\<rparr> g
     \<and> (pc_breakpoint k \<longrightarrow> cmd_InsertBreakpoint \<lparr>packetType = CMD_INSERT_BREAKPOINT, packet_cmd = [], paramList = [k, a, n]\<rparr> g =
       reply ''OK'' (g\<lparr>watchPointPCs := insert 0x7fffffffffffffff (watchPointPCs g)\<rparr>))"
proof -
  have "strtoll16 a = 0x7fffffffffffffff" using assms by (simp add: strtoll16_def min_def)
  moreover have "strtoll16 ''7fffffffffffffff'' = 0x7fffffffffffffff"
    by (simp add: strtoll16_def hex_number_def is_hex_def hex_digit_def)
  ultimately show ?thesis by (simp add: cmd_MemRead_def cmd_MemWrite_def cmd_InsertBreakpoint_def)
qed

theorem gdb_high_addresses_collapse_witness:
  "watchPointPCs (case cmd_InsertBreakpoint \<lparr>packetType = CMD_INSERT_BREAKPOINT, packet_cmd = [],
       paramList = [''0'', ''ffffffff80000000'', ''4'']\<rparr> (idle_stub [''+''] ()) of Inr g \<Rightarrow> g | Inl _ \<Rightarrow> idle_stub [] ()) = {0x7fffffffffffffff}"
proof -
  let ?g = "(idle_stub [''+''] ())\<lparr>watchPointPCs := {0x7fffffffffffffff}\<rparr> :: unit gdb_stub"
  have h: "2 ^ 63 \<le> hex_number ''ffffffff80000000''"
    by (simp add: hex_number_def is_hex_def hex_digit_def)
  have k: "pc_breakpoint ''0''"
    by (simp add: pc_breakpoint_def strtoll16_def hex_number_def is_hex_def hex_digit_def)
  have i: "insert 0x7fffffffffffffff (watchPointPCs (idle_stub [''+''] ())) = {0x7fffffffffffffff}" by (simp add: idle_stub_def)
  have e: "cmd_InsertBreakpoint \<lparr>packetType = CMD_INSERT_BREAKPOINT, packet_cmd = [],
      paramList = [''0'', ''ffffffff80000000'', ''4'']\<rparr> (idle_stub [''+''] ()) = reply ''OK'' ((idle_stub [''+''] ())\<lparr>watchPointPCs := {0x7fffffffffffffff}\<rparr>)"
    using gdb_high_addresses_collapse [OF h, of undefined "''4''" "idle_stub [''+''] ()" undefined "''0''"] k i by simp
  have "recv_segs ?g = (CHR ''+'' # []) # []" by (simp add: idle_stub_def)
  from send_acked[OF this, of "''OK''"] show ?thesis unfolding e reply_def by simp
qed

text \<open>A query of one register, which the table recognises, has no case in the switch of the server.\<close>

lemma gdb_register_query_aborts:
  assumes "hex_text n"
  shows "exec_packet dg (ParsePacket_GDB_RSP_Utils (CHR ''p'' # n) (fresh_packet t0)) g = Some (Inl AssertFail)"
proof -
  have "c_str (CHR ''p'' # n) = CHR ''p'' # n"
    by (rule c_str_id) (use assms hexs_text[of n] in \<open>auto simp: hex_text_def\<close>)
  then have "ParsePacket_GDB_RSP_Utils (CHR ''p'' # n) (fresh_packet t0) =
      \<lparr>packetType = CMD_REG_READ_INDEX, packet_cmd = [], paramList = find_all hexs (CHR ''p'' # n)\<rparr>"
    using assms by (subst parse_row[of CMD_REG_READ_INDEX _ "Some hexs"]) (auto simp: PacketTypeRegexStr_GV_def hex_text_def)
  then show ?thesis by (simp add: exec_packet_def)
qed

end
