(* ===== verification/ThreadPool.thy ===== *)
theory ThreadPool
  imports Prelude "HOL-Library.Multiset"
begin

text \<open>
  The thread pool, \<open>include/sdk/base/ThreadPool.h\<close>. A worker thread, the thread that submits a task and the destructor are
  separate threads of control: a state of the pool holds the program counter of each, a label names whose turn it is, and
  one atomic action of the source is one step. A step that would block is not enabled. A wait for a condition can end without
  a notification, as the standard allows. The mutex \<open>ownershipMutex\<close> is locked by the thread that submits a task and unlocked by the thread
  of the worker, which the standard leaves undefined, as it does a \<open>try_lock\<close> of a mutex by the thread that holds it. What then happens is
  up to the platform: \<open>plain\<close> says that its mutexes are plain flags, which any thread may test and release, as those of glibc
  are; otherwise the two are an undefined step.
\<close>

section \<open>Workers\<close>

text \<open>
  Where the thread of a worker stands: \<open>W_Test\<close> evaluates the predicate of \<open>wait\<close>, with \<open>runMutex\<close> held; \<open>W_Sleep\<close> has
  found it false and is about to block; \<open>W_Waiting\<close> is blocked until it wakes; \<open>W_Task t\<close> runs \<open>task()\<close>, of which \<open>t\<close>
  remains; \<open>W_Done\<close> clears \<open>start\<close>, \<open>W_Unlock\<close> gives the ownership back. The mutex of the ownership has the thread that
  locked it.
\<close>

datatype 't worker_pc = W_Test | W_Sleep | W_Waiting | W_Task 't | W_Done | W_Unlock | W_Exit

record 't worker =
  ownershipMutex :: bool
  owner :: nat
  start :: bool
  exit :: bool
  task :: "'t option"
  thread_pc :: "'t worker_pc"

definition new_worker :: "'t worker" where
  "new_worker = \<lparr>ownershipMutex = False, owner = 0, start = False, exit = False, task = None, thread_pc = W_Test\<rparr>"

text \<open>One action of the thread; \<open>None\<close> when it is blocked, has ended, or is inside the task.\<close>

definition thread_step :: "bool \<Rightarrow> 't worker \<Rightarrow> 't worker res option" where
  "thread_step plain w =
     (case thread_pc w of
        W_Test \<Rightarrow>
          if \<not> (start w \<or> exit w) then Some (Inr (w\<lparr>thread_pc := W_Sleep\<rparr>))
          else if exit w then Some (Inr (w\<lparr>thread_pc := W_Exit\<rparr>))
          else (case task w of None \<Rightarrow> Some (Inl Undefined) | Some t \<Rightarrow> Some (Inr (w\<lparr>thread_pc := W_Task t\<rparr>)))
      | W_Sleep \<Rightarrow> Some (Inr (w\<lparr>thread_pc := W_Waiting\<rparr>))
      | W_Done \<Rightarrow> Some (Inr (w\<lparr>start := False, thread_pc := W_Unlock\<rparr>))
      | W_Unlock \<Rightarrow> Some (if plain then Inr (w\<lparr>ownershipMutex := False, thread_pc := W_Test\<rparr>) else Inl Undefined)
      | _ \<Rightarrow> None)"

text \<open>The end of a wait, and the attempt of the thread \<open>k\<close> to lock the mutex of the ownership.\<close>

definition notify :: "'t worker \<Rightarrow> 't worker" where
  "notify w = (if thread_pc w = W_Waiting then w\<lparr>thread_pc := W_Test\<rparr> else w)"

definition tryAcquire :: "bool \<Rightarrow> nat \<Rightarrow> 't worker \<Rightarrow> (bool \<times> 't worker) res" where
  "tryAcquire plain k w =
     (if ownershipMutex w then if \<not> plain \<and> owner w = k then Inl Undefined else Inr (False, w)
      else Inr (True, w\<lparr>ownershipMutex := True, owner := k\<rparr>))"

text \<open>\<open>runTask\<close> up to its notification, which is a step of its own.\<close>

definition runTask :: "'t \<Rightarrow> 't worker \<Rightarrow> 't worker res" where
  "runTask tsk w = guard (\<not> start w) (Inr (w\<lparr>task := Some tsk, start := True\<rparr>))"

section \<open>The pool\<close>

text \<open>
  The thread \<open>k\<close> inside \<open>asyncRunTask\<close>, which holds \<open>poolMutex\<close>: it looks for a worker from \<open>worker_idx\<close> on, has acquired one,
  or has started it and is about to notify it.
\<close>

datatype 't caller = Idle | Scan nat 't u64 | Acquired 't nat | Started nat

record 't thread_pool =
  pool :: "'t worker list"
  pool_caller :: "'t caller"

definition new_ThreadPool :: "nat \<Rightarrow> 't thread_pool" where
  "new_ThreadPool pool_size = \<lparr>pool = replicate pool_size new_worker, pool_caller = Idle\<rparr>"

definition caller_step :: "bool \<Rightarrow> 't thread_pool \<Rightarrow> 't thread_pool res option" where
  "caller_step plain p =
     (case pool_caller p of
        Idle \<Rightarrow> None
      | Scan k t worker_idx \<Rightarrow>
          if pool p = [] then Some (Inl Undefined)
          else let i = unat worker_idx mod length (pool p) in
            Some (bnd (tryAcquire plain k (pool p ! i)) (\<lambda>(acquired, w).
              if acquired then Inr (p\<lparr>pool := (pool p)[i := w], pool_caller := Acquired t i\<rparr>)
              else Inr (p\<lparr>pool_caller := Scan k t (worker_idx + 1)\<rparr>)))
      | Acquired t i \<Rightarrow> Some (bnd (runTask t (pool p ! i)) (\<lambda>w. Inr (p\<lparr>pool := (pool p)[i := w], pool_caller := Started i\<rparr>)))
      | Started i \<Rightarrow> Some (Inr (p\<lparr>pool := (pool p)[i := notify (pool p ! i)], pool_caller := Idle\<rparr>)))"

text \<open>
  Whose turn it is: the thread \<open>k\<close> enters \<open>asyncRunTask\<close> or goes on in it, the thread of a worker goes on, its task returns, its
  wait ends of itself, the destructor of a worker sets \<open>exit\<close> or notifies.
\<close>

datatype 't turn = Submit nat 't | Caller | Thread nat | Return nat | Spurious nat | Exit_store nat | Exit_notify nat

definition set_worker :: "nat \<Rightarrow> 't worker \<Rightarrow> 't thread_pool \<Rightarrow> 't thread_pool" where
  "set_worker i w p = p\<lparr>pool := (pool p)[i := w]\<rparr>"

definition running :: "'t worker \<Rightarrow> 't option" where
  "running w = (case thread_pc w of W_Task t \<Rightarrow> Some t | _ \<Rightarrow> None)"

definition worker_step :: "bool \<Rightarrow> 't turn \<Rightarrow> 't worker \<Rightarrow> 't worker res option" where
  "worker_step plain l w =
     (case l of
        Thread i \<Rightarrow> thread_step plain w
      | Return i \<Rightarrow> if running w = None then None else Some (Inr (w\<lparr>thread_pc := W_Done\<rparr>))
      | Spurious i \<Rightarrow> if thread_pc w = W_Waiting then Some (Inr (w\<lparr>thread_pc := W_Test\<rparr>)) else None
      | Exit_store i \<Rightarrow> Some (Inr (w\<lparr>exit := True\<rparr>))
      | Exit_notify i \<Rightarrow> Some (Inr (notify w))
      | _ \<Rightarrow> None)"

fun turn_of :: "'t turn \<Rightarrow> nat option" where
  "turn_of (Thread i) = Some i" | "turn_of (Return i) = Some i" | "turn_of (Spurious i) = Some i"
| "turn_of (Exit_store i) = Some i" | "turn_of (Exit_notify i) = Some i" | "turn_of _ = None"

definition pool_step :: "bool \<Rightarrow> 't turn \<Rightarrow> 't thread_pool \<Rightarrow> 't thread_pool res option" where
  "pool_step plain l p =
     (case l of
        Submit k t \<Rightarrow> if pool_caller p = Idle then Some (Inr (p\<lparr>pool_caller := Scan k t 0\<rparr>)) else None
      | Caller \<Rightarrow> caller_step plain p
      | _ \<Rightarrow> let i = the (turn_of l) in
          if i < length (pool p) then map_option (\<lambda>r. bnd r (\<lambda>w. Inr (set_worker i w p))) (worker_step plain l (pool p ! i)) else None)"

fun pool_run :: "bool \<Rightarrow> 't turn list \<Rightarrow> 't thread_pool \<Rightarrow> 't thread_pool res option" where
  "pool_run plain [] p = Some (Inr p)"
| "pool_run plain (l # ls) p =
     (case pool_step plain l p of None \<Rightarrow> None | Some (Inl e) \<Rightarrow> Some (Inl e) | Some (Inr p') \<Rightarrow> pool_run plain ls p')"

section \<open>The invariant\<close>

text \<open>
  A worker that is started is owned and has a task; its thread is inside or behind the task only while it is started, and
  gives the ownership back only when it is not. The caller that has acquired a worker is its only owner.
\<close>

definition worker_ok :: "'t worker \<Rightarrow> bool" where
  "worker_ok w \<longleftrightarrow> (start w \<longrightarrow> ownershipMutex w \<and> task w \<noteq> None)
     \<and> (case thread_pc w of W_Task _ \<Rightarrow> start w | W_Done \<Rightarrow> start w | W_Unlock \<Rightarrow> \<not> start w \<and> ownershipMutex w | _ \<Rightarrow> True)"

definition handed :: "'t worker \<Rightarrow> bool" where
  "handed w \<longleftrightarrow> ownershipMutex w \<and> \<not> start w \<and> thread_pc w \<noteq> W_Unlock"

definition pool_ok :: "'t thread_pool \<Rightarrow> bool" where
  "pool_ok p \<longleftrightarrow> pool p \<noteq> [] \<and> (\<forall>w \<in> set (pool p). worker_ok w)
     \<and> (case pool_caller p of Acquired _ i \<Rightarrow> i < length (pool p) \<and> handed (pool p ! i) | Started i \<Rightarrow> i < length (pool p) | _ \<Rightarrow> True)"

text \<open>The tasks a worker has not finished: the one it runs, or the one it was started for.\<close>

definition worker_tasks :: "'t worker \<Rightarrow> 't multiset" where
  "worker_tasks w =
     (case thread_pc w of W_Task t \<Rightarrow> {#t#} | W_Done \<Rightarrow> {#}
      | _ \<Rightarrow> if start w then (case task w of Some t \<Rightarrow> {#t#} | None \<Rightarrow> {#}) else {#})"

definition caller_tasks :: "'t caller \<Rightarrow> 't multiset" where
  "caller_tasks c = (case c of Scan _ t _ \<Rightarrow> {#t#} | Acquired t _ \<Rightarrow> {#t#} | _ \<Rightarrow> {#})"

definition tasks_of :: "'t thread_pool \<Rightarrow> 't multiset" where
  "tasks_of p = caller_tasks (pool_caller p) + sum_list (map worker_tasks (pool p))"

definition submits :: "'t turn \<Rightarrow> 't multiset" where
  "submits l = (case l of Submit _ t \<Rightarrow> {#t#} | _ \<Rightarrow> {#})"

definition returned :: "'t turn \<Rightarrow> 't thread_pool \<Rightarrow> 't multiset" where
  "returned l p = (case l of Return i \<Rightarrow> (case running (pool p ! i) of Some t \<Rightarrow> {#t#} | None \<Rightarrow> {#}) | _ \<Rightarrow> {#})"

lemma sum_list_update_mset:
  "i < length ws \<Longrightarrow> sum_list (map f (ws[i := w])) + f (ws ! i) = sum_list (map f ws) + (f w :: 'a multiset)"
  by (induction ws arbitrary: i) (auto split: nat.split simp: add_ac)

text \<open>The steps whose effect the standard does not define.\<close>

definition misuses_mutex :: "'t turn \<Rightarrow> 't thread_pool \<Rightarrow> bool" where
  "misuses_mutex l p \<longleftrightarrow>
     (case l of
        Thread i \<Rightarrow> i < length (pool p) \<and> thread_pc (pool p ! i) = W_Unlock
      | Caller \<Rightarrow> (case pool_caller p of
          Scan k t idx \<Rightarrow> let w = pool p ! (unat idx mod length (pool p)) in ownershipMutex w \<and> owner w = k
        | _ \<Rightarrow> False)
      | _ \<Rightarrow> False)"

lemma worker_step_ok:
  assumes "worker_ok w" and "worker_step plain l w = Some r"
  shows "case r of Inl e \<Rightarrow> \<not> plain \<and> e = Undefined \<and> (\<exists>i. l = Thread i) \<and> thread_pc w = W_Unlock | Inr w' \<Rightarrow> worker_ok w' \<and> (handed w \<longrightarrow> handed w')
    \<and> worker_tasks w' + (case l of Return i \<Rightarrow> (case running w of Some t \<Rightarrow> {#t#} | None \<Rightarrow> {#}) | _ \<Rightarrow> {#}) = worker_tasks w"
proof -
  obtain ow k st ex tk pc where w: "w = \<lparr>ownershipMutex = ow, owner = k, start = st, exit = ex, task = tk, thread_pc = pc\<rparr>" by (cases w)
  note defs = worker_ok_def worker_step_def thread_step_def notify_def running_def handed_def worker_tasks_def
  have e: "Some r = worker_step plain l w" using assms(2) by simp
  show ?thesis
    using assms(1) e unfolding w
    by (cases l; cases pc; cases tk; cases st; cases ex) (simp_all add: defs)
qed

lemma all_set_update: "(\<forall>w \<in> set ws. P w) \<Longrightarrow> P w' \<Longrightarrow> \<forall>w \<in> set (ws[i := w']). P w"
  using set_update_subset_insert[of ws i w'] by auto

lemma replace_worker:
  assumes "pool_ok p" and "i < length (pool p)" and "worker_ok w'" and "handed (pool p ! i) \<longrightarrow> handed w'"
    and "worker_tasks w' + X = worker_tasks (pool p ! i)"
  shows "pool_ok (set_worker i w' p) \<and> tasks_of (set_worker i w' p) + X = tasks_of p"
proof
  show "pool_ok (set_worker i w' p)"
    using assms all_set_update[of "pool p" worker_ok w' i]
    by (auto simp: pool_ok_def set_worker_def nth_list_update split: caller.splits)
  have "sum_list (map worker_tasks ((pool p)[i := w'])) + X = sum_list (map worker_tasks (pool p))"
    using sum_list_update_mset[OF assms(2), of worker_tasks w'] unfolding assms(5)[symmetric]
    by (metis (no_types, opaque_lifting) add.assoc add.commute add_left_cancel)
  then show "tasks_of (set_worker i w' p) + X = tasks_of p" by (simp add: tasks_of_def set_worker_def add_ac)
qed

text \<open>The steps of the caller.\<close>

lemma caller_step_ok:
  assumes ok: "pool_ok p" and st: "caller_step plain p = Some r"
  shows "case r of Inl e \<Rightarrow> \<not> plain \<and> e = Undefined \<and> misuses_mutex Caller p | Inr p' \<Rightarrow> pool_ok p' \<and> tasks_of p' = tasks_of p"
proof (cases "pool_caller p")
  case Idle then show ?thesis using st by (simp add: caller_step_def)
next
  case (Scan h t k)
  define i where "i = unat k mod length (pool p)"
  have i: "i < length (pool p)" using ok by (simp add: i_def pool_ok_def)
  then have w: "worker_ok (pool p ! i)" using ok by (simp add: pool_ok_def)
  show ?thesis
  proof (cases "ownershipMutex (pool p ! i)")
    case True
    show ?thesis
    proof (cases "\<not> plain \<and> owner (pool p ! i) = h")
      case bad: True
      then have "r = Inl Undefined"
        using True st Scan ok by (simp add: caller_step_def tryAcquire_def i_def pool_ok_def)
      then show ?thesis using True bad Scan by (simp add: misuses_mutex_def i_def)
    next
      case False
      then have "r = Inr (p\<lparr>pool_caller := Scan h t (k + 1)\<rparr>)"
        using True st Scan ok by (auto simp: caller_step_def tryAcquire_def i_def pool_ok_def)
      then show ?thesis using ok Scan by (simp add: pool_ok_def tasks_of_def caller_tasks_def)
    qed
  next
    case False
    let ?w = "(pool p ! i)\<lparr>ownershipMutex := True, owner := h\<rparr>"
    have r: "r = Inr ((set_worker i ?w p)\<lparr>pool_caller := Acquired t i\<rparr>)"
      using False st Scan ok by (auto simp: caller_step_def tryAcquire_def i_def pool_ok_def set_worker_def Let_def)
    have h: "worker_ok ?w" "handed ?w" "worker_tasks ?w + {#} = worker_tasks (pool p ! i)"
      using w False by (auto simp: worker_ok_def handed_def worker_tasks_def split: worker_pc.splits)
    have "pool_ok (set_worker i ?w p)" "tasks_of (set_worker i ?w p) = tasks_of p"
      using replace_worker[OF ok i h(1) _ h(3)] h(2) by auto
    then show ?thesis using Scan i h(2) by (simp add: r pool_ok_def tasks_of_def caller_tasks_def set_worker_def)
  qed
next
  case (Acquired t i)
  then have i: "i < length (pool p)" and h: "handed (pool p ! i)" and w: "worker_ok (pool p ! i)"
    using ok by (auto simp: pool_ok_def)
  let ?w = "(pool p ! i)\<lparr>task := Some t, start := True\<rparr>"
  have r: "r = Inr ((set_worker i ?w p)\<lparr>pool_caller := Started i\<rparr>)"
    using st Acquired h by (simp add: caller_step_def runTask_def handed_def set_worker_def)
  have ok': "worker_ok ?w" and ts: "worker_tasks ?w = {#t#}" "worker_tasks (pool p ! i) = {#}"
    using w h by (auto simp: worker_ok_def handed_def worker_tasks_def split: worker_pc.splits)
  have "sum_list (map worker_tasks ((pool p)[i := ?w])) = add_mset t (sum_list (map worker_tasks (pool p)))"
    using sum_list_update_mset[OF i, of worker_tasks ?w] ts by simp
  then show ?thesis
    using ok i Acquired all_set_update[of "pool p" worker_ok ?w i, OF _ ok']
    by (auto simp: r pool_ok_def tasks_of_def caller_tasks_def set_worker_def)
next
  case (Started i)
  then have i: "i < length (pool p)" and w: "worker_ok (pool p ! i)" using ok by (auto simp: pool_ok_def)
  have r: "r = Inr ((set_worker i (notify (pool p ! i)) p)\<lparr>pool_caller := Idle\<rparr>)"
    using st Started by (simp add: caller_step_def set_worker_def)
  have n: "worker_ok (notify (pool p ! i))" "handed (pool p ! i) \<longrightarrow> handed (notify (pool p ! i))"
    "worker_tasks (notify (pool p ! i)) + {#} = worker_tasks (pool p ! i)"
    using w by (auto simp: notify_def worker_ok_def handed_def worker_tasks_def)
  show ?thesis
    using replace_worker[OF ok i n] Started by (simp add: r pool_ok_def tasks_of_def caller_tasks_def set_worker_def)
qed

lemma pool_step_ok:
  assumes ok: "pool_ok p" and st: "pool_step plain l p = Some r"
  shows "case r of Inl e \<Rightarrow> \<not> plain \<and> e = Undefined \<and> misuses_mutex l p | Inr p' \<Rightarrow> pool_ok p' \<and> tasks_of p' + returned l p = tasks_of p + submits l"
proof (cases "turn_of l")
  case (Some i)
  then have "pool_step plain l p = (if i < length (pool p) then map_option (\<lambda>r. bnd r (\<lambda>w. Inr (set_worker i w p))) (worker_step plain l (pool p ! i)) else None)"
    by (cases l) (simp_all add: pool_step_def)
  then obtain r' where i: "i < length (pool p)" and r': "worker_step plain l (pool p ! i) = Some r'" "r = bnd r' (\<lambda>w. Inr (set_worker i w p))"
    using st by (auto simp: eq_commute[of "Some r"] split: if_splits)
  have w: "worker_ok (pool p ! i)" using ok i by (simp add: pool_ok_def)
  show ?thesis
  proof (cases r')
    case (Inl e)
    then show ?thesis using worker_step_ok[OF w r'(1)] Some i r'(2) by (auto simp: misuses_mutex_def)
  next
    case (Inr w')
    have w': "worker_ok w'" "handed (pool p ! i) \<longrightarrow> handed w'" "worker_tasks w' + returned l p = worker_tasks (pool p ! i)"
      using worker_step_ok[OF w r'(1)] Some Inr by (cases l; auto simp: returned_def)+
    have "submits l = {#}" using Some by (cases l) (simp_all add: submits_def)
    then show ?thesis using replace_worker[OF ok i w'] r'(2) Inr by simp
  qed
next
  case None
  then show ?thesis
  proof (cases l)
    case (Submit k t)
    then show ?thesis using ok st by (auto simp: pool_step_def pool_ok_def tasks_of_def caller_tasks_def submits_def returned_def split: if_splits)
  next
    case Caller
    then have "caller_step plain p = Some r" using st by (simp add: pool_step_def)
    from caller_step_ok[OF ok this] show ?thesis using Caller by (auto simp: submits_def returned_def split: sum.splits)
  qed simp_all
qed

section \<open>Runs\<close>

fun returned_run :: "bool \<Rightarrow> 't turn list \<Rightarrow> 't thread_pool \<Rightarrow> 't multiset" where
  "returned_run plain [] p = {#}"
| "returned_run plain (l # ls) p =
     returned l p + (case pool_step plain l p of Some (Inr p') \<Rightarrow> returned_run plain ls p' | _ \<Rightarrow> {#})"

text \<open>A run comes to a step that misuses a mutex.\<close>

fun run_misuses :: "bool \<Rightarrow> 't turn list \<Rightarrow> 't thread_pool \<Rightarrow> bool" where
  "run_misuses plain [] p \<longleftrightarrow> False"
| "run_misuses plain (l # ls) p \<longleftrightarrow> misuses_mutex l p \<or> (case pool_step plain l p of Some (Inr p') \<Rightarrow> run_misuses plain ls p' | _ \<Rightarrow> False)"

lemma pool_run_ok:
  "pool_ok p \<Longrightarrow> pool_run plain ls p = Some r \<Longrightarrow>
     (case r of Inl e \<Rightarrow> \<not> plain \<and> e = Undefined \<and> run_misuses plain ls p
      | Inr p' \<Rightarrow> pool_ok p' \<and> tasks_of p' + returned_run plain ls p = tasks_of p + sum_list (map submits ls))"
proof (induction ls arbitrary: p)
  case (Cons l ls)
  obtain r1 where s: "pool_step plain l p = Some r1" using Cons.prems(2) by (auto split: option.splits)
  note st = pool_step_ok[OF Cons.prems(1) s]
  show ?case
  proof (cases r1)
    case (Inl e)
    then have "r = Inl e" using Cons.prems(2) s by simp
    then show ?thesis using st Inl by simp
  next
    case (Inr p1)
    then have p1: "pool_ok p1" "tasks_of p1 + returned l p = tasks_of p + submits l" using st by simp_all
    have "pool_run plain ls p1 = Some r" using Cons.prems(2) s Inr by simp
    note ih = Cons.IH[OF p1(1) this]
    show ?thesis
    proof (cases r)
      case (Inl e) then show ?thesis using ih s Inr by auto
    next
      case r: (Inr p')
      have e: "tasks_of p' + returned_run plain ls p1 = tasks_of p1 + sum_list (map submits ls)" using ih r by simp
      have "tasks_of p' + (returned l p + returned_run plain ls p1) = tasks_of p + submits l + sum_list (map submits ls)"
        using e p1(2) by (metis add.assoc add.commute)
      then show ?thesis using ih r s Inr by (simp add: add_ac)
    qed
  qed
qed auto

lemma new_pool_ok: "0 < n \<Longrightarrow> pool_ok (new_ThreadPool n)"
  by (simp add: pool_ok_def new_ThreadPool_def new_worker_def worker_ok_def)

lemma new_pool_tasks: "tasks_of (new_ThreadPool n) = {#}"
  by (induction n) (auto simp: tasks_of_def new_ThreadPool_def caller_tasks_def new_worker_def worker_tasks_def)

section \<open>Lost wakeups\<close>

text \<open>A worker that waits though it was started, with no notification under way.\<close>

definition stranded :: "'t \<Rightarrow> nat \<Rightarrow> 't thread_pool \<Rightarrow> bool" where
  "stranded t i p \<longleftrightarrow> i < length (pool p) \<and> (case pool_caller p of Acquired _ j \<Rightarrow> j \<noteq> i | Started j \<Rightarrow> j \<noteq> i | _ \<Rightarrow> True)
     \<and> (let w = pool p ! i in thread_pc w = W_Waiting \<and> start w \<and> ownershipMutex w \<and> task w = Some t)"

lemma stranded_caller: "stranded t i p \<Longrightarrow> caller_step plain p = Some (Inr p') \<Longrightarrow> stranded t i p'"
  by (auto simp: stranded_def caller_step_def tryAcquire_def runTask_def bnd_eq_Inr guard_eq_Inr nth_list_update Let_def
      split: caller.splits if_splits)

lemma stranded_worker:
  assumes s: "stranded t i p" and w: "worker_step plain l (pool p ! j) = Some (Inr w')" and l: "turn_of l = Some j" "l \<noteq> Exit_notify i" "l \<noteq> Spurious i"
  shows "stranded t i (set_worker j w' p)"
proof (cases "j = i")
  case True
  then have "w' = (pool p ! i)\<lparr>exit := True\<rparr>"
    using s w l by (cases l) (auto simp: stranded_def worker_step_def thread_step_def running_def Let_def)
  then show ?thesis using s True by (auto simp: stranded_def set_worker_def Let_def split: caller.splits)
next
  case False
  then show ?thesis using s by (auto simp: stranded_def set_worker_def Let_def split: caller.splits)
qed

lemma stranded_step:
  assumes "stranded t i p" and "pool_step plain l p = Some (Inr p')" and "l \<noteq> Exit_notify i" and "l \<noteq> Spurious i"
  shows "stranded t i p'"
proof (cases "turn_of l")
  case (Some j)
  then have "pool_step plain l p = (if j < length (pool p) then map_option (\<lambda>r. bnd r (\<lambda>w. Inr (set_worker j w p))) (worker_step plain l (pool p ! j)) else None)"
    by (cases l) (simp_all add: pool_step_def)
  then obtain r where r: "worker_step plain l (pool p ! j) = Some r" "bnd r (\<lambda>w. Inr (set_worker j w p)) = Inr p'"
    using assms(2) by (auto simp: eq_commute[of "Some _"] split: if_splits)
  then obtain w' where "worker_step plain l (pool p ! j) = Some (Inr w')" "p' = set_worker j w' p" by (auto simp: bnd_eq_Inr)
  then show ?thesis using stranded_worker[OF assms(1) _ Some assms(3,4)] by simp
next
  case None
  show ?thesis
  proof (cases l)
    case (Submit k u)
    then show ?thesis using assms(1,2) by (auto simp: pool_step_def stranded_def split: if_splits)
  next
    case Caller
    then show ?thesis using stranded_caller[OF assms(1)] assms(2) by (simp add: pool_step_def)
  qed (use None in simp_all)
qed

lemma stranded_run:
  "stranded t i p \<Longrightarrow> pool_run plain ls p = Some (Inr p') \<Longrightarrow> Exit_notify i \<notin> set ls \<Longrightarrow> Spurious i \<notin> set ls \<Longrightarrow> stranded t i p'"
proof (induction ls arbitrary: p)
  case (Cons l ls)
  then obtain p1 where p1: "pool_step plain l p = Some (Inr p1)" "pool_run plain ls p1 = Some (Inr p')"
    by (auto split: option.splits sum.splits)
  have l: "l \<noteq> Exit_notify i" "l \<noteq> Spurious i" using Cons.prems(3,4) by auto
  show ?case using Cons.IH[OF stranded_step[OF Cons.prems(1) p1(1) l] p1(2)] Cons.prems(3,4) by simp
qed simp

section \<open>Properties\<close>

text \<open>
  C24. The pool neither loses nor repeats a task: however the threads are interleaved, and whenever a wait ends of itself, the tasks
  that have returned together with those that a worker or the caller still has are the tasks that were submitted, each as
  often. No assertion of a pool of at least one worker fails, and the only thing that may happen and that the
  standard does not define is a misuse of \<open>ownershipMutex\<close> on a platform whose mutexes are not plain flags: a worker unlocks the mutex that
  the thread of the caller has locked, or a thread tries to lock one that it holds.
\<close>

theorem pool_tasks_once:
  assumes "0 < n" and "pool_run plain ls (new_ThreadPool n) = Some r"
  shows "case r of
      Inr p \<Rightarrow> tasks_of p + returned_run plain ls (new_ThreadPool n) = sum_list (map submits ls)
    | Inl e \<Rightarrow> \<not> plain \<and> e = Undefined \<and> run_misuses plain ls (new_ThreadPool n)"
  using pool_run_ok[OF new_pool_ok[OF assms(1)] assms(2)] by (cases r) (auto simp: new_pool_tasks)

text \<open>Two tasks on two workers: the first has returned, the second has not begun. The second worker has woken for nothing.\<close>

theorem pool_tasks_once_witness:
  "\<exists>p. pool_run True [Thread 0, Thread 0, Thread 1, Thread 1, Spurious 1, Submit 0 (5::nat), Caller, Caller, Caller, Submit 0 6, Caller, Caller,
       Thread 0, Return 0, Caller, Caller, Thread 0, Thread 0] (new_ThreadPool 2) = Some (Inr p) \<and> tasks_of p = {#6#}"
proof -
  let ?ls = "[Thread 0, Thread 0, Thread 1, Thread 1, Spurious 1, Submit 0 (5::nat), Caller, Caller, Caller, Submit 0 6, Caller, Caller,
       Thread 0, Return 0, Caller, Caller, Thread 0, Thread 0]"
  have "case pool_run True ?ls (new_ThreadPool 2) of Some (Inr p) \<Rightarrow> True | _ \<Rightarrow> False" by code_simp
  then obtain p where p: "pool_run True ?ls (new_ThreadPool 2) = Some (Inr p)" by (auto split: option.splits sum.splits)
  have r: "returned_run True ?ls (new_ThreadPool 2) = {#5#}" by code_simp
  show ?thesis using pool_tasks_once [OF _ p] p r by (simp add: submits_def)
qed

text \<open>
  C25. A worker can miss its notification, because \<open>runTask\<close> sets \<open>start\<close> and notifies without \<open>runMutex\<close>: there is an
  interleaving after which the only task submitted belongs to a worker that waits, and whatever the other threads do, the
  worker waits, with the task and not free for another, as long as neither the destructor of the pool notifies it nor its wait ends of itself. The
  program never notifies it again, so the task depends on a spurious wake-up, which the standard allows but
  does not promise: after one the task runs.
\<close>

theorem pool_lost_wakeup:
  fixes t :: 't
  assumes "0 < n"
  shows "\<exists>ls p. pool_run plain ls (new_ThreadPool n) = Some (Inr p) \<and> tasks_of p = {#t#}
    \<and> (\<forall>ls' p'. Exit_notify 0 \<notin> set ls' \<and> Spurious 0 \<notin> set ls' \<and> pool_run plain ls' p = Some (Inr p') \<longrightarrow>
         thread_pc (pool p' ! 0) = W_Waiting \<and> task (pool p' ! 0) = Some t \<and> ownershipMutex (pool p' ! 0))
    \<and> (\<exists>p'. pool_run plain [Spurious 0, Thread 0] p = Some (Inr p') \<and> running (pool p' ! 0) = Some t)"
proof -
  obtain m where n: "n = Suc m" using assms by (cases n) auto
  let ?ls = "[Thread 0, Submit 0 t, Caller, Caller, Caller, Thread 0]"
  let ?w = "\<lparr>ownershipMutex = True, owner = 0, start = True, exit = False, task = Some t, thread_pc = W_Waiting\<rparr>"
  let ?p = "\<lparr>pool = ?w # replicate m new_worker, pool_caller = Idle\<rparr>"
  let ?q = "\<lambda>w c. \<lparr>pool = w # replicate m new_worker, pool_caller = c\<rparr>"
  note defs = new_worker_def pool_step_def caller_step_def tryAcquire_def runTask_def notify_def worker_step_def thread_step_def set_worker_def
  have "pool_step plain (Thread 0) (new_ThreadPool n :: 't thread_pool) = Some (Inr (?q (new_worker\<lparr>thread_pc := W_Sleep\<rparr>) Idle))"
    by (simp add: n new_ThreadPool_def defs)
  moreover have "pool_run plain (tl ?ls) (?q (new_worker\<lparr>thread_pc := W_Sleep\<rparr>) Idle) = Some (Inr ?p)"
    by (simp add: defs)
  ultimately have run: "pool_run plain ?ls (new_ThreadPool n) = Some (Inr ?p)" by simp
  have "stranded t 0 ?p" by (simp add: stranded_def)
  then have s: "stranded t 0 p'" if "Exit_notify 0 \<notin> set ls'" "Spurious 0 \<notin> set ls'" "pool_run plain ls' ?p = Some (Inr p')" for ls' p'
    by (rule stranded_run[OF _ that(3,1,2)])
  have w: "\<exists>p'. pool_run plain [Spurious 0, Thread 0] ?p = Some (Inr p') \<and> running (pool p' ! 0) = Some t"
    by (simp add: defs running_def)
  have "tasks_of ?p = {#t#}"
    using new_pool_tasks[of m] by (simp add: tasks_of_def caller_tasks_def worker_tasks_def new_ThreadPool_def)
  then show ?thesis using run w by (intro exI[of _ ?ls] exI[of _ ?p]) (auto dest: s simp: stranded_def Let_def)
qed

theorem pool_lost_wakeup_witness:
  "\<exists>ls p. pool_run True ls (new_ThreadPool 16) = Some (Inr p) \<and> tasks_of p = {#7::nat#} \<and> thread_pc (pool p ! 0) = W_Waiting"
proof -
  obtain ls p where p: "pool_run True ls (new_ThreadPool 16) = Some (Inr p)" "tasks_of p = {#7::nat#}"
    "\<forall>ls' p'. Exit_notify 0 \<notin> set ls' \<and> Spurious 0 \<notin> set ls' \<and> pool_run True ls' p = Some (Inr p') \<longrightarrow>
         thread_pc (pool p' ! 0) = W_Waiting \<and> task (pool p' ! 0) = Some 7 \<and> ownershipMutex (pool p' ! 0)"
    using pool_lost_wakeup [of 16 True "7::nat"] by auto
  then show ?thesis using p(3)[rule_format, of "[]" p] by auto
qed

end
