(* ===== verification/MemCtrl.thy ===== *)
theory MemCtrl
  imports DevIf ThreadPool
begin

text \<open>
  The memory controller of the core with contexts, \<open>modules/device/minicpu_controller\<close>: a device whose registers start
  transfers of eight bytes on 16 read and 16 write channels. A store to a pending register queues events, a thread hands
  them to a pool of 16 workers, a worker waits a number of cycles and copies through the bus. The threads are interleaved by
  a schedule: each action on shared state is one step. The bus is an object of the interface \<open>SlaveIO_I\<close>, and may
  have the controller itself among its devices, as in \<open>example/minicpu_full_sys.cpp\<close>: a transfer can then read and write
  the registers.
\<close>

section \<open>Registers\<close>

text \<open>
  \<open>struct inner_state\<close> as the bytes it occupies; the offsets are those of \<open>rd_pending_chn_bits\<close>, \<open>wr_pending_chn_bits\<close> and
  of the two arrays of channel descriptors. It has no initialiser.
\<close>

definition NR_CHN :: nat where "NR_CHN = 16"
definition NR_CYCLE :: u64 where "NR_CYCLE = 88"
definition rd_pending_at :: nat where "rd_pending_at = 0x10"
definition wr_pending_at :: nat where "wr_pending_at = 0x18"
definition rd_chn_descs_at :: "nat \<Rightarrow> nat" where "rd_chn_descs_at i = 0x100 + 16 * i"
definition wr_chn_descs_at :: "nat \<Rightarrow> nat" where "wr_chn_descs_at i = 0x200 + 16 * i"
definition sizeof_inner_state :: nat where "sizeof_inner_state = 0x300"

definition field64 :: "nat \<Rightarrow> u8 list \<Rightarrow> u64" where
  "field64 off bs = word_of_bytes (take 8 (drop off bs))"

definition put64 :: "nat \<Rightarrow> u64 \<Rightarrow> u8 list \<Rightarrow> u8 list" where
  "put64 off v bs = take off bs @ bytes_of 8 v @ drop (off + 8) bs"

datatype EventType = ASYNC_READ | ASYNC_WRITE

record MemCtrlEvent =
  ev_type :: EventType
  chnID :: nat
  srcAddr :: u64
  dstAddr :: u64

text \<open>Where a handler stands, and its local variables.\<close>

datatype handler_pc = H_Begin | H_Delay | H_Load | H_Store | H_Clear | H_End

record handler_frame =
  h_pc :: handler_pc
  tick_start :: u64
  h_data :: u64

definition new_frame :: handler_frame where
  "new_frame = \<lparr>h_pc = H_Begin, tick_start = 0, h_data = 0\<rparr>"

record 'b mem_ctrl =
  reg :: "u8 list"
  eventQueue :: "MemCtrlEvent list"
  stop :: bool
  ctl_pool :: "MemCtrlEvent thread_pool"
  frames :: "handler_frame list"
  ctl_bus :: 'b
  global_tick :: u64

definition new_MiniCPUMemController :: "u8 list \<Rightarrow> 'b \<Rightarrow> 'b mem_ctrl" where
  "new_MiniCPUMemController junk bus =
     \<lparr>reg = junk, eventQueue = [], stop = False, ctl_pool = new_ThreadPool NR_CHN, frames = replicate NR_CHN new_frame,
      ctl_bus = bus, global_tick = 0\<rparr>"

abbreviation rd_pending :: "'b mem_ctrl \<Rightarrow> u64" where "rd_pending c \<equiv> field64 rd_pending_at (reg c)"
abbreviation wr_pending :: "'b mem_ctrl \<Rightarrow> u64" where "wr_pending c \<equiv> field64 wr_pending_at (reg c)"

section \<open>Loads and stores\<close>

definition ctl_load :: "'b mem_ctrl load_fn" where
  "ctl_load c begin_addr len =
     guard (len = 8) (bnd (mem_read (reg c) (unat begin_addr) 8) (\<lambda>bs. Inr (FB_SUCCESS, Some bs, c)))"

definition emitEvent :: "MemCtrlEvent \<Rightarrow> 'b mem_ctrl \<Rightarrow> 'b mem_ctrl" where
  "emitEvent e c = c\<lparr>eventQueue := eventQueue c @ [e]\<rparr>"

definition rd_event :: "u8 list \<Rightarrow> nat \<Rightarrow> MemCtrlEvent" where
  "rd_event rg i = \<lparr>ev_type = ASYNC_READ, chnID = i, srcAddr = field64 (rd_chn_descs_at i) rg, dstAddr = field64 (rd_chn_descs_at i + 8) rg\<rparr>"

definition wr_event :: "u8 list \<Rightarrow> nat \<Rightarrow> MemCtrlEvent" where
  "wr_event rg i = \<lparr>ev_type = ASYNC_WRITE, chnID = i, srcAddr = field64 (wr_chn_descs_at i) rg, dstAddr = field64 (wr_chn_descs_at i + 8) rg\<rparr>"

text \<open>The loops over the channels from \<open>i\<close> on, with \<open>n\<close> turns left; the first one has a \<open>break\<close>.\<close>

fun start_read :: "nat \<Rightarrow> nat \<Rightarrow> u64 \<Rightarrow> 'b mem_ctrl \<Rightarrow> 'b mem_ctrl" where
  "start_read 0 i chn_to_start c = c"
| "start_read (Suc n) i chn_to_start c =
     (if push_bit i 1 AND chn_to_start \<noteq> 0 then emitEvent (rd_event (reg c) i) c else start_read n (Suc i) chn_to_start c)"

fun start_write :: "nat \<Rightarrow> nat \<Rightarrow> u64 \<Rightarrow> 'b mem_ctrl \<Rightarrow> 'b mem_ctrl" where
  "start_write 0 i chn_to_start c = c"
| "start_write (Suc n) i chn_to_start c =
     start_write n (Suc i) chn_to_start (if push_bit i 1 AND chn_to_start \<noteq> 0 then emitEvent (wr_event (reg c) i) c else c)"

text \<open>
  The register is stored first; what follows reads it back, so that \<open>val_to_store\<close> loses all its bits. The guest's store and
  what follows it are one step.
\<close>

definition ctl_store :: "'b mem_ctrl store_fn" where
  "ctl_store c begin_addr bs =
     guard (length bs = 8) (bnd (mem_write (reg c) (unat begin_addr) bs) (\<lambda>rg.
       let c = c\<lparr>reg := rg\<rparr>; val_to_store = word_of_bytes bs :: u64 in
       if begin_addr = 0x10 then
         let val_to_store = val_to_store AND NOT (rd_pending c); chn_to_start = val_to_store XOR rd_pending c;
             c = c\<lparr>reg := put64 rd_pending_at (rd_pending c OR val_to_store) (reg c)\<rparr> in
         Inr (FB_SUCCESS, start_read NR_CHN 0 chn_to_start c)
       else if begin_addr = 0x18 then
         let val_to_store = val_to_store AND NOT (wr_pending c); chn_to_start = val_to_store XOR wr_pending c;
             c = c\<lparr>reg := put64 wr_pending_at (wr_pending c OR val_to_store) (reg c)\<rparr> in
         Inr (FB_SUCCESS, start_write NR_CHN 0 chn_to_start c)
       else Inr (FB_SUCCESS, c)))"

section \<open>The bus\<close>

text \<open>
  What the threads of the controller run on: the bus without the controller, the addresses that the bus passes to the
  controller, with what is left of them, and whether mutexes are plain flags.
\<close>

record 'b ctl_env =
  env_io :: "'b slave_io"
  env_own :: "u64 \<Rightarrow> u64 option"
  env_plain :: bool

text \<open>In \<open>minicpu_full_sys.cpp\<close> the controller is the device with the highest address.\<close>

definition ctl_base :: u64 where "ctl_base = 0x200000000"

definition full_sys_env :: "'b slave_io \<Rightarrow> 'b ctl_env" where
  "full_sys_env vt =
     \<lparr>env_io = vt, env_own = (\<lambda>a. if ctl_base \<le> a then Some (a - ctl_base) else None), env_plain = True\<rparr>"

definition bus_load :: "'b ctl_env \<Rightarrow> 'b mem_ctrl load_fn" where
  "bus_load E c a len =
     (case env_own E a of
        Some off \<Rightarrow> ctl_load c off len
      | None \<Rightarrow> bnd (io_load (env_io E) (ctl_bus c) a len) (\<lambda>(fb, bs, b). Inr (fb, bs, c\<lparr>ctl_bus := b\<rparr>)))"

definition bus_store :: "'b ctl_env \<Rightarrow> 'b mem_ctrl store_fn" where
  "bus_store E c a bs =
     (case env_own E a of
        Some off \<Rightarrow> ctl_store c off bs
      | None \<Rightarrow> bnd (io_store (env_io E) (ctl_bus c) a bs) (\<lambda>(fb, b). Inr (fb, c\<lparr>ctl_bus := b\<rparr>)))"

section \<open>The handlers\<close>

text \<open>The order of the actions of the two handlers: a read waits first, a write waits after the copy.\<close>

definition handler_next :: "EventType \<Rightarrow> handler_pc \<Rightarrow> handler_pc" where
  "handler_next ty h =
     (case h of
        H_Begin \<Rightarrow> if ty = ASYNC_READ then H_Delay else H_Load
      | H_Delay \<Rightarrow> if ty = ASYNC_READ then H_Load else H_Clear
      | H_Load \<Rightarrow> H_Store
      | H_Store \<Rightarrow> if ty = ASYNC_READ then H_Clear else H_Delay
      | _ \<Rightarrow> H_End)"

text \<open>
  One action; \<open>None\<close> while the delay lasts and after the end. The results of the bus are ignored: a failing load leaves
  \<open>data\<close> zero. Both handlers clear the bit of the read channel.
\<close>

definition handler_step :: "'b ctl_env \<Rightarrow> MemCtrlEvent \<Rightarrow> handler_frame \<Rightarrow> 'b mem_ctrl \<Rightarrow> (handler_frame \<times> 'b mem_ctrl) res option" where
  "handler_step E event f c =
     (let f' = f\<lparr>h_pc := handler_next (ev_type event) (h_pc f)\<rparr> in
      case h_pc f of
        H_Begin \<Rightarrow> Some (Inr (f'\<lparr>tick_start := global_tick c\<rparr>, c))
      | H_Delay \<Rightarrow> if global_tick c - tick_start f < NR_CYCLE then None else Some (Inr (f', c))
      | H_Load \<Rightarrow> Some (bnd (bus_load E c (srcAddr event) 8) (\<lambda>(_, bs, c).
          Inr (f'\<lparr>h_data := (case bs of Some x \<Rightarrow> word_of_bytes x | None \<Rightarrow> 0)\<rparr>, c)))
      | H_Store \<Rightarrow> Some (bnd (bus_store E c (dstAddr event) (bytes_of 8 (h_data f))) (\<lambda>(_, c). Inr (f', c)))
      | H_Clear \<Rightarrow> Some (Inr (f', c\<lparr>reg := put64 rd_pending_at (rd_pending c AND NOT (push_bit (chnID event) 1)) (reg c)\<rparr>))
      | H_End \<Rightarrow> None)"

section \<open>Schedules\<close>

text \<open>
  Whose turn it is: the guest stores, the event thread, thread 0, takes an event and calls \<open>asyncRunTask\<close>, a thread of the pool, the
  handler inside the \<open>i\<close>-th worker, the clock of the core, the destructor.
\<close>

datatype ctl_turn = Guest_store u64 "u8 list" | Dispatch | Pool "MemCtrlEvent turn" | Handler nat | Tick | Stop

text \<open>A thread that enters its task has a new frame; it returns at the end of the handler.\<close>

definition ctl_pool_step :: "bool \<Rightarrow> MemCtrlEvent turn \<Rightarrow> 'b mem_ctrl \<Rightarrow> 'b mem_ctrl res option" where
  "ctl_pool_step plain l c =
     (case l of
        Submit _ _ \<Rightarrow> None
      | Caller \<Rightarrow> map_option (\<lambda>r. bnd r (\<lambda>p. Inr (c\<lparr>ctl_pool := p\<rparr>))) (pool_step plain Caller (ctl_pool c))
      | Thread i \<Rightarrow> map_option (\<lambda>r. bnd r (\<lambda>p. Inr (c\<lparr>ctl_pool := p, frames := (frames c)[i := new_frame]\<rparr>))) (pool_step plain (Thread i) (ctl_pool c))
      | Return i \<Rightarrow> if i < length (frames c) \<and> h_pc (frames c ! i) = H_End
          then map_option (\<lambda>r. bnd r (\<lambda>p. Inr (c\<lparr>ctl_pool := p\<rparr>))) (pool_step plain (Return i) (ctl_pool c)) else None
      | _ \<Rightarrow> map_option (\<lambda>r. bnd r (\<lambda>p. Inr (c\<lparr>ctl_pool := p\<rparr>))) (pool_step plain l (ctl_pool c)))"

definition ctl_step :: "'b ctl_env \<Rightarrow> ctl_turn \<Rightarrow> 'b mem_ctrl \<Rightarrow> 'b mem_ctrl res option" where
  "ctl_step E l c =
     (case l of
        Guest_store a bs \<Rightarrow> Some (bnd (ctl_store c a bs) (\<lambda>(_, c). Inr c))
      | Dispatch \<Rightarrow>
          (case eventQueue c of
             [] \<Rightarrow> None
           | e # es \<Rightarrow> if stop c then None
               else map_option (\<lambda>r. bnd r (\<lambda>p. Inr (c\<lparr>eventQueue := es, ctl_pool := p\<rparr>))) (pool_step (env_plain E) (Submit 0 e) (ctl_pool c)))
      | Pool l' \<Rightarrow> ctl_pool_step (env_plain E) l' c
      | Handler i \<Rightarrow>
          if i < length (pool (ctl_pool c)) then
            (case running (pool (ctl_pool c) ! i) of
               None \<Rightarrow> None
             | Some e \<Rightarrow> map_option (\<lambda>r. bnd r (\<lambda>(f, c). Inr (c\<lparr>frames := (frames c)[i := f]\<rparr>))) (handler_step E e (frames c ! i) c))
          else None
      | Tick \<Rightarrow> Some (Inr (c\<lparr>global_tick := global_tick c + 1\<rparr>))
      | Stop \<Rightarrow> Some (Inr (c\<lparr>stop := True\<rparr>)))"

fun ctl_run :: "'b ctl_env \<Rightarrow> ctl_turn list \<Rightarrow> 'b mem_ctrl \<Rightarrow> 'b mem_ctrl res option" where
  "ctl_run E [] c = Some (Inr c)"
| "ctl_run E (l # ls) c =
     (case ctl_step E l c of None \<Rightarrow> None | Some (Inl e) \<Rightarrow> Some (Inl e) | Some (Inr c') \<Rightarrow> ctl_run E ls c')"

section \<open>Fields of the registers\<close>

lemma length_put64 [simp]: "off + 8 \<le> length bs \<Longrightarrow> length (put64 off v bs) = length bs"
  by (simp add: put64_def)

lemma field_put_same [simp]: "off + 8 \<le> length bs \<Longrightarrow> field64 off (put64 off v bs) = v"
  by (simp add: field64_def put64_def word_of_bytes_bytes_of take_bit_word_eq_self)

lemma field_put_other:
  assumes "off' + 8 \<le> length bs" and "off + 8 \<le> off' \<or> off' + 8 \<le> off"
  shows "field64 off (put64 off' v bs) = field64 off bs"
proof -
  have "take 8 (drop off (put64 off' v bs)) = take 8 (drop off bs)"
  proof (cases "off + 8 \<le> off'")
    case True
    then have "take 8 (drop off (put64 off' v bs)) = take 8 (drop off (take off' bs))"
      using assms(1) by (simp add: put64_def)
    also have "\<dots> = take 8 (drop off bs)" using True by (simp add: drop_take min_def)
    finally show ?thesis .
  next
    case False
    then have "off' + 8 \<le> off" using assms(2) by simp
    then show ?thesis using assms(1) by (simp add: put64_def)
  qed
  then show ?thesis by (simp add: field64_def)
qed

definition ctl_ok :: "'b mem_ctrl \<Rightarrow> bool" where
  "ctl_ok c \<longleftrightarrow> length (reg c) = sizeof_inner_state \<and> pool_ok (ctl_pool c)"

text \<open>The events that a queue, the event thread or a worker still has.\<close>

definition in_flight :: "'b mem_ctrl \<Rightarrow> MemCtrlEvent multiset" where
  "in_flight c = mset (eventQueue c) + tasks_of (ctl_pool c)"

lemma start_read_eq:
  "start_read n i v c = (case filter (\<lambda>k. push_bit k 1 AND v \<noteq> 0) [i..<i + n] of [] \<Rightarrow> c | k # _ \<Rightarrow> emitEvent (rd_event (reg c) k) c)"
proof (induction n arbitrary: i)
  case (Suc n)
  have "[i..<i + Suc n] = i # [Suc i..<Suc i + n]" by (simp add: upt_conv_Cons)
  then show ?case using Suc[of "Suc i"] by simp
qed simp

lemma start_write_eq:
  "start_write n i v c = c\<lparr>eventQueue := eventQueue c @ map (wr_event (reg c)) (filter (\<lambda>k. push_bit k 1 AND v \<noteq> 0) [i..<i + n])\<rparr>"
proof (induction n arbitrary: i c)
  case (Suc n)
  have "[i..<i + Suc n] = i # [Suc i..<Suc i + n]" by (simp add: upt_conv_Cons)
  then show ?case by (simp add: Suc emitEvent_def)
qed simp

lemma and_bit_iff: "push_bit k 1 AND v \<noteq> 0 \<longleftrightarrow> bit v k" for v :: u64
proof
  assume "bit v k"
  then have "bit (push_bit k 1 AND v) k" by (auto simp: bit_simps dest: bit_imp_le_length)
  then show "push_bit k 1 AND v \<noteq> 0" by (metis bit_0_eq bot_apply bot_bool_def)
next
  assume "push_bit k 1 AND v \<noteq> 0"
  then obtain n where "bit (push_bit k 1 AND v) n" by (metis bit_eqI bit_0_eq bot_apply bot_bool_def)
  then show "bit v k" by (auto simp: bit_simps bit_1_iff)
qed

text \<open>The channels among the first 16 whose bit is set.\<close>

definition chosen :: "u64 \<Rightarrow> nat list" where
  "chosen v = filter (bit v) [0..<NR_CHN]"

lemma mem_write_put64: "off + 8 \<le> length bs \<Longrightarrow> mem_write bs off (bytes_of 8 v) = Inr (put64 off v bs)"
  by (simp add: mem_write_def put64_def)

text \<open>What a store to a pending register does.\<close>

lemma store_rd_pending:
  assumes "ctl_ok c"
  shows "\<exists>rg. ctl_store c 0x10 (bytes_of 8 v) = Inr (FB_SUCCESS, c\<lparr>reg := rg,
       eventQueue := eventQueue c @ map (rd_event rg) (take 1 (chosen v))\<rparr>)
     \<and> rg = put64 rd_pending_at v (reg c)"
proof -
  have l: "rd_pending_at + 8 \<le> length (reg c)" using assms by (simp add: ctl_ok_def rd_pending_at_def sizeof_inner_state_def)
  have w: "mem_write (reg c) 16 (bytes_of 8 v) = Inr (put64 rd_pending_at v (reg c))"
    using mem_write_put64[OF l] by (simp add: rd_pending_at_def)
  have p: "put64 rd_pending_at v (put64 rd_pending_at v (reg c)) = put64 rd_pending_at v (reg c)"
    using l by (simp add: put64_def)
  show ?thesis
    using l by (simp add: ctl_store_def w word_of_bytes_bytes_of take_bit_word_eq_self p start_read_eq and_bit_iff[unfolded push_bit_of_1] chosen_def[symmetric] emitEvent_def
        Let_def split: list.split)
qed

lemma store_wr_pending:
  assumes "ctl_ok c"
  shows "\<exists>rg. ctl_store c 0x18 (bytes_of 8 v) = Inr (FB_SUCCESS, c\<lparr>reg := rg, eventQueue := eventQueue c @ map (wr_event rg) (chosen v)\<rparr>)
     \<and> rg = put64 wr_pending_at v (reg c)"
proof -
  have l: "wr_pending_at + 8 \<le> length (reg c)" using assms by (simp add: ctl_ok_def wr_pending_at_def sizeof_inner_state_def)
  have w: "mem_write (reg c) 24 (bytes_of 8 v) = Inr (put64 wr_pending_at v (reg c))"
    using mem_write_put64[OF l] by (simp add: wr_pending_at_def)
  have p: "put64 wr_pending_at v (put64 wr_pending_at v (reg c)) = put64 wr_pending_at v (reg c)"
    using l by (simp add: put64_def)
  show ?thesis
    using l by (simp add: ctl_store_def w word_of_bytes_bytes_of take_bit_word_eq_self p start_write_eq
        and_bit_iff[unfolded push_bit_of_1] chosen_def[symmetric] Let_def)
qed

section \<open>Steps other than the guest's\<close>

text \<open>
  What every action of the threads keeps: the write pending bits, the read pending bits of the channels that no event in
  flight is for, and that no event appears. It holds as long as no event in flight writes to the registers themselves.
\<close>

definition quiet :: "'b mem_ctrl \<Rightarrow> 'b mem_ctrl \<Rightarrow> bool" where
  "quiet c c' \<longleftrightarrow> ctl_ok c' \<and> in_flight c' \<subseteq># in_flight c \<and> wr_pending c' = wr_pending c
     \<and> (\<forall>j. (\<forall>e \<in># in_flight c. chnID e \<noteq> j) \<longrightarrow> bit (rd_pending c') j = bit (rd_pending c) j)"

definition outside :: "'b ctl_env \<Rightarrow> 'b mem_ctrl \<Rightarrow> bool" where
  "outside E c \<longleftrightarrow> (\<forall>e \<in># in_flight c. env_own E (dstAddr e) = None)"

lemma quiet_refl: "ctl_ok c \<Longrightarrow> quiet c c"
  by (simp add: quiet_def)

lemma quiet_outside: "quiet c c' \<Longrightarrow> outside E c \<Longrightarrow> outside E c'"
  unfolding quiet_def outside_def by (meson mset_subset_eqD)

lemma quiet_trans:
  assumes "quiet a b" and "quiet b c" shows "quiet a c"
proof -
  have s: "in_flight b \<subseteq># in_flight a" "in_flight c \<subseteq># in_flight b" using assms by (simp_all add: quiet_def)
  have "bit (rd_pending c) j = bit (rd_pending a) j" if "\<forall>e \<in># in_flight a. chnID e \<noteq> j" for j
  proof -
    have "\<forall>e \<in># in_flight b. chnID e \<noteq> j" using that mset_subset_eqD[OF s(1)] by blast
    then show ?thesis using that assms by (simp add: quiet_def)
  qed
  then show ?thesis using assms s subset_mset.order_trans[OF s(2,1)] by (simp add: quiet_def)
qed

lemma ctl_store_ok: "ctl_ok c \<Longrightarrow> ctl_store c a bs = Inr (fb, c') \<Longrightarrow> ctl_ok c'"
  by (auto simp: ctl_store_def ctl_ok_def guard_eq_Inr bnd_eq_Inr Let_def start_read_eq start_write_eq emitEvent_def
      rd_pending_at_def wr_pending_at_def sizeof_inner_state_def
      dest!: mem_write_length split: if_splits list.splits)

lemma bus_load_keeps: "bus_load E c a n = Inr (fb, x, c') \<Longrightarrow> \<exists>b. c' = c\<lparr>ctl_bus := b\<rparr>"
  by (auto simp: bus_load_def ctl_load_def guard_eq_Inr bnd_eq_Inr split: option.splits intro: exI[of _ "ctl_bus c"])

lemma bus_store_ok: "ctl_ok c \<Longrightarrow> bus_store E c a bs = Inr (fb, c') \<Longrightarrow> ctl_ok c'"
  by (auto simp: bus_store_def bnd_eq_Inr split: option.splits intro: ctl_store_ok) (simp add: ctl_ok_def)

lemma bus_store_outside: "env_own E a = None \<Longrightarrow> bus_store E c a bs = Inr (fb, c') \<Longrightarrow> \<exists>b. c' = c\<lparr>ctl_bus := b\<rparr>"
  by (auto simp: bus_store_def bnd_eq_Inr)

text \<open>The bit of the read channel that a handler clears.\<close>

lemma handler_clear:
  assumes "ctl_ok c" and "c' = c\<lparr>reg := put64 rd_pending_at (rd_pending c AND NOT (push_bit k 1)) (reg c)\<rparr>"
  shows "length (reg c') = length (reg c) \<and> wr_pending c' = wr_pending c \<and> (\<forall>j. k \<noteq> j \<longrightarrow> bit (rd_pending c') j = bit (rd_pending c) j)"
proof -
  have l: "rd_pending_at + 8 \<le> length (reg c)" using assms(1) by (simp add: ctl_ok_def rd_pending_at_def sizeof_inner_state_def)
  have "field64 wr_pending_at (put64 rd_pending_at v (reg c)) = wr_pending c" for v
    by (rule field_put_other[OF l]) (simp add: wr_pending_at_def rd_pending_at_def)
  then show ?thesis
    using l by (auto simp: assms(2) bit_simps bit_1_iff simp del: push_bit_of_1 dest: bit_imp_le_length)
qed

lemma handler_quiet:
  assumes st: "handler_step E e f c = Some (Inr (f', c'))" and ok: "ctl_ok c" and out: "env_own E (dstAddr e) = None"
  shows "ctl_pool c' = ctl_pool c \<and> eventQueue c' = eventQueue c \<and> length (reg c') = length (reg c) \<and> wr_pending c' = wr_pending c
    \<and> (\<forall>j. chnID e \<noteq> j \<longrightarrow> bit (rd_pending c') j = bit (rd_pending c) j)"
proof (cases "h_pc f")
  case H_Clear
  then have "c' = c\<lparr>reg := put64 rd_pending_at (rd_pending c AND NOT (push_bit (chnID e) 1)) (reg c)\<rparr>"
    using st by (simp add: handler_step_def Let_def)
  then show ?thesis using handler_clear[OF ok] by simp
next
  case H_Load
  then have "\<exists>b. c' = c\<lparr>ctl_bus := b\<rparr>"
    using st by (auto simp: handler_step_def Let_def bnd_eq_Inr dest: bus_load_keeps)
  then show ?thesis by auto
next
  case H_Store
  then have "\<exists>b. c' = c\<lparr>ctl_bus := b\<rparr>"
    using st by (auto simp: handler_step_def Let_def bnd_eq_Inr dest: bus_store_outside[OF out])
  then show ?thesis by auto
qed (use st in \<open>auto simp: handler_step_def Let_def split: if_splits\<close>)

lemma handler_ok:
  assumes st: "handler_step E e f c = Some (Inr (f', c'))" and ok: "ctl_ok c" shows "ctl_ok c'"
proof (cases "h_pc f")
  case H_Clear
  then have "c' = c\<lparr>reg := put64 rd_pending_at (rd_pending c AND NOT (push_bit (chnID e) 1)) (reg c)\<rparr>"
    using st by (simp add: handler_step_def Let_def)
  then show ?thesis using handler_clear[OF ok] ok by (simp add: ctl_ok_def)
next
  case H_Load
  then have "\<exists>b. c' = c\<lparr>ctl_bus := b\<rparr>"
    using st by (auto simp: handler_step_def Let_def bnd_eq_Inr dest: bus_load_keeps)
  then show ?thesis using ok by (auto simp: ctl_ok_def)
next
  case H_Store
  then show ?thesis using st by (auto simp: handler_step_def Let_def bnd_eq_Inr intro: bus_store_ok[OF ok])
qed (use st ok in \<open>auto simp: handler_step_def Let_def split: if_splits\<close>)

lemma running_in_flight:
  assumes "i < length (pool p)" and "running (pool p ! i) = Some e"
  shows "e \<in># tasks_of p"
proof -
  have "worker_tasks (pool p ! i) = {#e#}"
    using assms(2) by (simp add: running_def worker_tasks_def split: worker_pc.splits)
  moreover have "worker_tasks (pool p ! i) \<subseteq># sum_list (map worker_tasks (pool p))"
    using assms(1) by (metis nth_mem sum_list_map_remove1 mset_subset_eq_add_left)
  ultimately show ?thesis by (simp add: tasks_of_def)
qed

lemma pool_quiet:
  assumes ok: "ctl_ok c" and st: "pool_step plain l (ctl_pool c) = Some (Inr p)" and l: "submits l = {#}"
  shows "quiet c (c\<lparr>ctl_pool := p, frames := fs\<rparr>)"
proof -
  have p: "pool_ok p" "tasks_of p + returned l (ctl_pool c) = tasks_of (ctl_pool c)"
    using pool_step_ok[OF _ st] ok l by (auto simp: ctl_ok_def)
  have "tasks_of p \<subseteq># tasks_of (ctl_pool c)" using p(2) by (metis mset_subset_eq_add_left)
  then show ?thesis using p(1) ok by (simp add: quiet_def ctl_ok_def in_flight_def)
qed

lemma ctl_pool_quiet:
  assumes ok: "ctl_ok c" and st: "ctl_pool_step plain l c = Some (Inr c')"
  shows "quiet c c'"
proof -
  obtain p fs where r: "pool_step plain l (ctl_pool c) = Some (Inr p)" "submits l = {#}" "c' = c\<lparr>ctl_pool := p, frames := fs\<rparr>"
  proof (cases l)
    case (Thread i)
    then show ?thesis using st by (auto intro!: that simp: ctl_pool_step_def submits_def bnd_eq_Inr)
  next
    case (Submit k e)
    then show ?thesis using st by (simp add: ctl_pool_step_def)
  next
    case (Return i)
    then obtain z where z: "pool_step plain (Return i) (ctl_pool c) = Some (Inr z)" "c' = c\<lparr>ctl_pool := z\<rparr>"
      using st by (auto simp: ctl_pool_step_def bnd_eq_Inr split: if_splits)
    show ?thesis using z Return by (intro that[of z "frames c"]) (auto simp: submits_def)
  qed (use st in \<open>auto intro!: that[of _ "frames c"] simp: ctl_pool_step_def submits_def bnd_eq_Inr\<close>)
  then show ?thesis using pool_quiet[OF ok r(1,2), of fs] by simp
qed

lemma handler_turn:
  assumes "ctl_step E (Handler i) c = Some (Inr c')"
  obtains e f c1 where "e \<in># in_flight c" "handler_step E e (frames c ! i) c = Some (Inr (f, c1))"
    "c' = c1\<lparr>frames := (frames c1)[i := f]\<rparr>"
proof -
  obtain e r where e: "i < length (pool (ctl_pool c))" "running (pool (ctl_pool c) ! i) = Some e"
    and r: "handler_step E e (frames c ! i) c = Some r" "bnd r (\<lambda>(f, c). Inr (c\<lparr>frames := (frames c)[i := f]\<rparr>)) = Inr c'"
    using assms by (auto simp: ctl_step_def split: option.splits if_splits)
  have "e \<in># in_flight c" using running_in_flight[OF e] by (simp add: in_flight_def)
  then show thesis using r by (auto simp: bnd_eq_Inr intro: that)
qed

text \<open>The steps of threads other than a handler's, and those of a handler.\<close>

lemma ctl_step_quiet:
  assumes ok: "ctl_ok c" and st: "ctl_step E l c = Some (Inr c')" and l: "\<forall>a bs. l \<noteq> Guest_store a bs"
    and out: "outside E c \<or> (\<forall>i. l \<noteq> Handler i)"
  shows "quiet c c'"
proof (cases l)
  case (Guest_store a bs) then show ?thesis using l by simp
next
  case Dispatch
  then obtain e es r where e: "eventQueue c = e # es" and r: "pool_step (env_plain E) (Submit 0 e) (ctl_pool c) = Some r"
      "bnd r (\<lambda>p. Inr (c\<lparr>eventQueue := es, ctl_pool := p\<rparr>)) = Inr c'"
    using st by (auto simp: ctl_step_def split: list.splits if_splits)
  then obtain p where p: "r = Inr p" "pool_ok p" "tasks_of p = tasks_of (ctl_pool c) + {#e#}"
    using pool_step_ok[OF _ r(1)] ok by (auto simp: ctl_ok_def submits_def returned_def bnd_eq_Inr)
  show ?thesis using r(2) p ok e by (auto simp: quiet_def ctl_ok_def in_flight_def)
next
  case (Pool l')
  then show ?thesis using ctl_pool_quiet[OF ok, of "env_plain E" l' c'] st by (simp add: ctl_step_def)
next
  case (Handler i)
  then obtain e f c1 where e: "e \<in># in_flight c" "handler_step E e (frames c ! i) c = Some (Inr (f, c1))"
    "c' = c1\<lparr>frames := (frames c1)[i := f]\<rparr>" using st by (auto elim: handler_turn)
  have "env_own E (dstAddr e) = None" using out Handler e(1) by (auto simp: outside_def)
  note h = handler_quiet[OF e(2) ok this]
  have "in_flight c' = in_flight c" "ctl_ok c'" using h ok by (simp_all add: in_flight_def ctl_ok_def e(3))
  then show ?thesis using h e(1) by (auto simp: quiet_def e(3))
next
  case Tick
  then show ?thesis using st ok by (auto simp: ctl_step_def quiet_def ctl_ok_def in_flight_def)
next
  case Stop
  then show ?thesis using st ok by (auto simp: ctl_step_def quiet_def ctl_ok_def in_flight_def)
qed

section \<open>Runs\<close>

lemma ctl_run_append:
  "ctl_run E (xs @ ys) c = (case ctl_run E xs c of Some (Inr c') \<Rightarrow> ctl_run E ys c' | r \<Rightarrow> r)"
  by (induction xs arbitrary: c) (auto split: option.splits sum.splits)

lemma ctl_run_seq: "ctl_run E xs a = Some (Inr b) \<Longrightarrow> ctl_run E ys b = r \<Longrightarrow> ctl_run E (xs @ ys) a = r"
  by (simp add: ctl_run_append)

lemma ctl_step_ok:
  assumes ok: "ctl_ok c" and st: "ctl_step E l c = Some (Inr c')" shows "ctl_ok c'"
proof (cases "\<exists>i a bs. l = Handler i \<or> l = Guest_store a bs")
  case True
  then consider i where "l = Handler i" | a bs where "l = Guest_store a bs" by blast
  then show ?thesis
  proof cases
    case (1 i)
    then obtain e f c1 where "handler_step E e (frames c ! i) c = Some (Inr (f, c1))" "c' = c1\<lparr>frames := (frames c1)[i := f]\<rparr>"
      using st by (auto elim: handler_turn)
    then show ?thesis using handler_ok[OF _ ok] by (auto simp: ctl_ok_def)
  next
    case (2 a bs)
    then show ?thesis using st ok by (auto simp: ctl_step_def bnd_eq_Inr intro: ctl_store_ok)
  qed
next
  case False
  then show ?thesis using ctl_step_quiet[OF ok st] by (auto simp: quiet_def)
qed

lemma ctl_run_ok: "ctl_ok c \<Longrightarrow> ctl_run E ls c = Some (Inr c') \<Longrightarrow> ctl_ok c'"
proof (induction ls arbitrary: c)
  case (Cons l ls)
  then obtain c1 where c1: "ctl_step E l c = Some (Inr c1)" "ctl_run E ls c1 = Some (Inr c')"
    by (auto split: option.splits sum.splits)
  then show ?case using Cons.IH ctl_step_ok[OF Cons.prems(1)] by blast
qed simp

lemma ctl_run_quiet:
  "ctl_ok c \<Longrightarrow> ctl_run E ls c = Some (Inr c') \<Longrightarrow> \<forall>a bs. Guest_store a bs \<notin> set ls \<Longrightarrow> outside E c \<Longrightarrow> quiet c c'"
proof (induction ls arbitrary: c)
  case (Cons l ls)
  then obtain c1 where c1: "ctl_step E l c = Some (Inr c1)" "ctl_run E ls c1 = Some (Inr c')"
    by (auto split: option.splits sum.splits)
  have q: "quiet c c1" using ctl_step_quiet[OF Cons.prems(1) c1(1)] Cons.prems(3,4) by (metis list.set_intros(1))
  then have ok: "ctl_ok c1" by (simp add: quiet_def)
  have "quiet c1 c'" using Cons.IH[OF ok c1(2) _ quiet_outside[OF q Cons.prems(4)]] Cons.prems(3) by simp
  then show ?case by (rule quiet_trans[OF q])
qed (simp add: quiet_refl)

lemma new_ctl_ok: "length junk = sizeof_inner_state \<Longrightarrow> ctl_ok (new_MiniCPUMemController junk b)"
  by (simp add: ctl_ok_def new_MiniCPUMemController_def new_pool_ok NR_CHN_def)

section \<open>A transfer\<close>

text \<open>The controller at rest: nothing in flight, and every worker waits.\<close>

definition at_rest :: "'t worker \<Rightarrow> bool" where
  "at_rest w \<longleftrightarrow> \<not> ownershipMutex w \<and> \<not> start w \<and> \<not> exit w \<and> thread_pc w = W_Waiting"

definition ctl_idle :: "'b mem_ctrl \<Rightarrow> bool" where
  "ctl_idle c \<longleftrightarrow> length (reg c) = sizeof_inner_state \<and> eventQueue c = [] \<and> \<not> stop c \<and> pool_caller (ctl_pool c) = Idle
     \<and> length (pool (ctl_pool c)) = NR_CHN \<and> length (frames c) = NR_CHN \<and> (\<forall>w \<in> set (pool (ctl_pool c)). at_rest w)"

definition start_schedule :: "ctl_turn list" where
  "start_schedule = [Dispatch, Pool Caller, Pool Caller, Pool Caller, Pool (Thread 0), Handler 0]"

definition finish_schedule :: "ctl_turn list" where
  "finish_schedule = [Handler 0, Handler 0, Handler 0, Handler 0, Pool (Return 0), Pool (Thread 0), Pool (Thread 0), Pool (Thread 0), Pool (Thread 0)]"

definition resting :: "nat \<Rightarrow> 't option \<Rightarrow> 't worker" where
  "resting k tk = \<lparr>ownershipMutex = False, owner = k, start = False, exit = False, task = tk, thread_pc = W_Waiting\<rparr>"

definition busy :: "'t \<Rightarrow> 't worker" where
  "busy t = \<lparr>ownershipMutex = True, owner = 0, start = True, exit = False, task = Some t, thread_pc = W_Task t\<rparr>"

lemmas pool_defs = pool_step_def caller_step_def tryAcquire_def runTask_def notify_def worker_step_def thread_step_def
  set_worker_def running_def

lemma run_ticks: "ctl_run E (replicate n Tick) c = Some (Inr (c\<lparr>global_tick := global_tick c + of_nat n\<rparr>))"
  by (induction n arbitrary: c) (simp_all add: ctl_step_def algebra_simps)

lemma run_start:
  assumes "ctl_pool c = \<lparr>pool = resting k tk # ws, pool_caller = Idle\<rparr>" and "eventQueue c = [e]" and "\<not> stop c"
    and "ev_type e = ASYNC_READ" and "frames c = f # fs"
  shows "ctl_run E start_schedule c = Some (Inr (c\<lparr>eventQueue := [], ctl_pool := \<lparr>pool = busy e # ws, pool_caller = Idle\<rparr>,
      frames := \<lparr>h_pc = H_Delay, tick_start = global_tick c, h_data = 0\<rparr> # fs\<rparr>))"
  using assms
  by (simp add: start_schedule_def ctl_step_def ctl_pool_step_def pool_defs resting_def busy_def handler_step_def new_frame_def
      handler_next_def)

lemma run_finish:
  assumes "ctl_pool c = \<lparr>pool = busy e # ws, pool_caller = Idle\<rparr>" and "ev_type e = ASYNC_READ"
    and "frames c = \<lparr>h_pc = H_Delay, tick_start = t, h_data = 0\<rparr> # fs" and "global_tick c - t = NR_CYCLE"
    and "io_load (env_io E) (ctl_bus c) (srcAddr e) 8 = Inr (fb, Some bs, b1)" and "length bs = 8"
    and "io_store (env_io E) b1 (dstAddr e) bs = Inr (fb', b2)"
    and "env_plain E" and "env_own E (srcAddr e) = None" and "env_own E (dstAddr e) = None"
  shows "ctl_run E finish_schedule c = Some (Inr (c\<lparr>ctl_pool := \<lparr>pool = resting 0 (Some e) # ws, pool_caller = Idle\<rparr>,
      frames := new_frame # fs, ctl_bus := b2,
      reg := put64 rd_pending_at (rd_pending c AND NOT (push_bit (chnID e) 1)) (reg c)\<rparr>))"
proof -
  have "bytes_of 8 (word_of_bytes bs :: u64) = bs" using bytes_of_word_of_bytes[of bs, where 'a = 64] assms(6) by simp
  then show ?thesis
    using assms
    by (simp add: finish_schedule_def ctl_step_def ctl_pool_step_def pool_defs resting_def busy_def handler_step_def new_frame_def
        handler_next_def bus_load_def bus_store_def del: push_bit_of_1)
qed

lemma run_waits:
  assumes "ctl_pool c = \<lparr>pool = busy e # ws, pool_caller = Idle\<rparr>" and "ev_type e = ASYNC_READ"
    and "frames c = \<lparr>h_pc = H_Delay, tick_start = t, h_data = 0\<rparr> # fs" and "global_tick c - t < NR_CYCLE"
  shows "ctl_run E finish_schedule c = None"
  using assms by (simp add: finish_schedule_def ctl_step_def busy_def running_def handler_step_def handler_next_def)

lemma filter_upt_eq: "i < n \<Longrightarrow> filter (\<lambda>k. k = i) [0..<n] = [i]"
  by (induction n) (auto simp: less_Suc_eq)

lemma chosen_one:
  assumes "i < NR_CHN" shows "chosen (push_bit i 1) = [i]"
proof -
  have "bit (push_bit i 1 :: u64) k \<longleftrightarrow> k = i" if "k < NR_CHN" for k
    using that assms by (auto simp: bit_simps bit_1_iff NR_CHN_def simp del: push_bit_of_1)
  then have "chosen (push_bit i 1) = filter (\<lambda>k. k = i) [0..<NR_CHN]"
    unfolding chosen_def by (intro filter_cong) auto
  then show ?thesis using filter_upt_eq[OF assms] by simp
qed

lemma idle_ok: "ctl_idle c \<Longrightarrow> ctl_ok c \<and> in_flight c = {#}"
proof -
  assume i: "ctl_idle c"
  have "worker_ok w \<and> worker_tasks w = {#}" if "w \<in> set (pool (ctl_pool c))" for w
    using i that by (auto simp: ctl_idle_def at_rest_def worker_ok_def worker_tasks_def)
  moreover from this have "sum_list (map worker_tasks (pool (ctl_pool c))) = {#}"
    by (metis (no_types, lifting) map_eq_conv sum_list_0)
  moreover have "pool (ctl_pool c) \<noteq> []" using i by (auto simp: ctl_idle_def NR_CHN_def)
  ultimately show ?thesis using i by (simp add: ctl_idle_def ctl_ok_def pool_ok_def in_flight_def tasks_of_def caller_tasks_def)
qed

section \<open>Properties\<close>

text \<open>
  C26. A transfer works when it is alone, on a platform whose mutexes are plain flags: on a controller at rest a store that sets the one bit
  of a read channel is followed by a schedule of its threads, without a store of the guest. The event thread hands the event to
  the first worker, the handler begins, the clock ticks \<open>NR_CYCLE\<close> times, and the handler and the worker come to
  their end. Then the eight bytes at the source address of the channel are at its destination on the bus, no read is pending, every other
  register is as it was, and the controller is at rest again. With fewer ticks the handler still waits, and the rest of the schedule cannot
  run. Neither address is one of the controller itself.
\<close>

theorem memctrl_read_transfer:
  assumes "ctl_idle c" and "i < NR_CHN" and "env_plain E"
    and "env_own E (field64 (rd_chn_descs_at i) (reg c)) = None" and "env_own E (field64 (rd_chn_descs_at i + 8) (reg c)) = None"
    and "io_load (env_io E) (ctl_bus c) (field64 (rd_chn_descs_at i) (reg c)) 8 = Inr (fb, Some bs, b1)" and "length bs = 8"
    and "io_store (env_io E) b1 (field64 (rd_chn_descs_at i + 8) (reg c)) bs = Inr (fb', b2)"
  shows "(\<exists>c'. ctl_run E (Guest_store 0x10 (bytes_of 8 (push_bit i 1 :: u64)) #
           [Dispatch, Pool Caller, Pool Caller, Pool Caller, Pool (Thread 0), Handler 0] @ replicate (unat NR_CYCLE) Tick @
           [Handler 0, Handler 0, Handler 0, Handler 0, Pool (Return 0)] @ replicate 4 (Pool (Thread 0))) c = Some (Inr c')
         \<and> ctl_bus c' = b2 \<and> reg c' = put64 rd_pending_at 0 (reg c) \<and> ctl_idle c')
     \<and> (\<forall>n < unat NR_CYCLE. ctl_run E (Guest_store 0x10 (bytes_of 8 (push_bit i 1 :: u64)) #
           [Dispatch, Pool Caller, Pool Caller, Pool Caller, Pool (Thread 0), Handler 0] @ replicate n Tick @
           [Handler 0, Handler 0, Handler 0, Handler 0, Pool (Return 0)] @ replicate 4 (Pool (Thread 0))) c = None)"
proof -
  let ?v = "push_bit i 1 :: u64"
  define rg where "rg = put64 rd_pending_at ?v (reg c)"
  have l: "rd_pending_at + 8 \<le> length (reg c)" using assms(1) by (simp add: ctl_idle_def rd_pending_at_def sizeof_inner_state_def)
  let ?e = "rd_event rg i"
  have e: "srcAddr ?e = field64 (rd_chn_descs_at i) (reg c)" "dstAddr ?e = field64 (rd_chn_descs_at i + 8) (reg c)"
    "ev_type ?e = ASYNC_READ" "chnID ?e = i"
    by (simp_all add: rd_event_def rg_def field_put_other[OF l] rd_chn_descs_at_def rd_pending_at_def
        field_put_other[OF l[unfolded rd_pending_at_def]] del: push_bit_of_1)
  let ?c1 = "c\<lparr>reg := rg, eventQueue := [?e]\<rparr>"
  have s0: "ctl_step E (Guest_store 0x10 (bytes_of 8 ?v)) c = Some (Inr ?c1)"
    using store_rd_pending[of c ?v] idle_ok[OF assms(1)] chosen_one[OF assms(2)] assms(1)
    by (auto simp: ctl_step_def ctl_idle_def rg_def simp del: push_bit_of_1)
  obtain w ws where ws: "pool (ctl_pool c) = w # ws" using assms(1) by (cases "pool (ctl_pool c)") (auto simp: ctl_idle_def NR_CHN_def)
  have w: "w = resting (owner w) (task w)" using assms(1) ws by (cases w) (simp add: ctl_idle_def at_rest_def resting_def)
  have p: "ctl_pool c = \<lparr>pool = resting (owner w) (task w) # ws, pool_caller = Idle\<rparr>"
    using assms(1) ws w by (cases "ctl_pool c") (simp add: ctl_idle_def)
  obtain f fs where f: "frames c = f # fs" using assms(1) by (cases "frames c") (auto simp: ctl_idle_def NR_CHN_def)
  let ?c2 = "?c1\<lparr>eventQueue := [], ctl_pool := \<lparr>pool = busy ?e # ws, pool_caller = Idle\<rparr>,
      frames := \<lparr>h_pc = H_Delay, tick_start = global_tick c, h_data = 0\<rparr> # fs\<rparr>"
  have s1: "ctl_run E start_schedule ?c1 = Some (Inr ?c2)"
    using run_start[of ?c1 "owner w" "task w" ws ?e f fs E] p f assms(1) e(3) by (simp add: ctl_idle_def)
  let ?tk = "\<lambda>n. ?c2\<lparr>global_tick := global_tick c + of_nat n\<rparr>"
  have s2: "ctl_run E (replicate n Tick) ?c2 = Some (Inr (?tk n))" for n by (simp add: run_ticks)
  let ?c3 = "?c2\<lparr>global_tick := global_tick c + NR_CYCLE\<rparr>"
  let ?c4 = "?c3\<lparr>ctl_pool := \<lparr>pool = resting 0 (Some ?e) # ws, pool_caller = Idle\<rparr>, frames := new_frame # fs, ctl_bus := b2,
      reg := put64 rd_pending_at (rd_pending ?c3 AND NOT (push_bit i 1)) rg\<rparr>"
  have s3: "ctl_run E finish_schedule ?c3 = Some (Inr ?c4)"
    using run_finish[of ?c3 ?e ws "global_tick c" fs E fb bs b1 fb' b2] assms(3-8) e by (simp del: push_bit_of_1)
  have fin: "finish_schedule = [Handler 0, Handler 0, Handler 0, Handler 0, Pool (Return 0)] @ replicate 4 (Pool (Thread 0))"
    by (simp add: finish_schedule_def numeral_eq_Suc)
  let ?ls = "\<lambda>n. start_schedule @ replicate n Tick @ finish_schedule"
  have "ctl_run E (?ls (unat NR_CYCLE)) ?c1 = Some (Inr ?c4)"
    by (intro ctl_run_seq[OF s1] ctl_run_seq[OF s2]) (use s3 in simp)
  then have run: "ctl_run E (Guest_store 0x10 (bytes_of 8 ?v) # ?ls (unat NR_CYCLE)) c = Some (Inr ?c4)" using s0 by simp
  have early: "ctl_run E (Guest_store 0x10 (bytes_of 8 ?v) # ?ls n) c = None" if "n < unat NR_CYCLE" for n
  proof -
    have "(of_nat n :: u64) < NR_CYCLE" using that by (simp add: word_less_nat_alt unat_of_nat NR_CYCLE_def)
    then have "ctl_run E finish_schedule (?tk n) = None"
      using e(3) by (intro run_waits) auto
    then have "ctl_run E (?ls n) ?c1 = None" by (intro ctl_run_seq[OF s1] ctl_run_seq[OF s2])
    then show ?thesis using s0 by simp
  qed
  have lr: "rd_pending_at + 8 \<le> length rg" "field64 rd_pending_at rg = ?v" using l by (simp_all add: rg_def)
  have "reg ?c4 = put64 rd_pending_at 0 (reg c)"
  proof -
    have "reg ?c4 = put64 rd_pending_at 0 rg" using lr by (simp del: push_bit_of_1)
    also have "\<dots> = put64 rd_pending_at 0 (reg c)" using l by (simp add: rg_def put64_def)
    finally show ?thesis .
  qed
  moreover have "ctl_idle ?c4"
    using assms(1) p f ws lr(1) l by (auto simp: ctl_idle_def at_rest_def resting_def rg_def)
  ultimately show ?thesis using run early unfolding start_schedule_def fin by (intro conjI exI[of _ ?c4]) simp_all
qed

text \<open>On a memory of 32 bytes, whose first eight are copied to the last eight.\<close>

definition mem_vt :: "u8 list slave_io" where
  "mem_vt = \<lparr>io_load = (\<lambda>m a n. bnd (mem_read m (unat a) (unat n)) (\<lambda>bs. Inr (FB_SUCCESS, Some bs, m))),
             io_store = (\<lambda>m a bs. bnd (mem_write m (unat a) bs) (\<lambda>m. Inr (FB_SUCCESS, m)))\<rparr>"

definition idle_ctrl :: "'b \<Rightarrow> u8 list \<Rightarrow> 'b mem_ctrl" where
  "idle_ctrl b rg = \<lparr>reg = rg, eventQueue = [], stop = False, ctl_pool = \<lparr>pool = replicate NR_CHN (resting 0 None), pool_caller = Idle\<rparr>,
     frames = replicate NR_CHN new_frame, ctl_bus = b, global_tick = 0\<rparr>"

lemma idle_ctrl_idle: "length rg = sizeof_inner_state \<Longrightarrow> ctl_idle (idle_ctrl b rg)"
  by (simp add: ctl_idle_def idle_ctrl_def at_rest_def resting_def)

abbreviation mem_env :: "u8 list ctl_env" where "mem_env \<equiv> full_sys_env mem_vt"

lemma mem_env_simps [simp]: "env_io mem_env = mem_vt" "env_plain mem_env"
  "a < ctl_base \<Longrightarrow> env_own mem_env a = None"
  by (simp_all add: full_sys_env_def not_le)

theorem memctrl_read_transfer_witness:
  "\<exists>ls c'. ctl_run mem_env (Guest_store 0x10 (bytes_of 8 (push_bit 3 1 :: u64)) # ls)
       (idle_ctrl ([1, 2, 3, 4, 5, 6, 7, 8] @ replicate 24 0) (put64 (rd_chn_descs_at 3 + 8) 24 (replicate sizeof_inner_state 0))) = Some (Inr c')
     \<and> ctl_bus c' = [1, 2, 3, 4, 5, 6, 7, 8] @ replicate 16 0 @ [1, 2, 3, 4, 5, 6, 7, 8]"
proof -
  let ?rg = "put64 (rd_chn_descs_at 3 + 8) 24 (replicate sizeof_inner_state 0)"
  let ?m = "[1, 2, 3, 4, 5, 6, 7, 8] @ replicate 24 0 :: u8 list"
  let ?x = "[1, 2, 3, 4, 5, 6, 7, 8] :: u8 list"
  have idle: "ctl_idle (idle_ctrl ?m ?rg)" by (rule idle_ctrl_idle) (simp add: rd_chn_descs_at_def sizeof_inner_state_def)
  have reg: "reg (idle_ctrl ?m ?rg) = ?rg" "ctl_bus (idle_ctrl ?m ?rg) = ?m" by (simp_all only: idle_ctrl_def mem_ctrl.simps)
  have a: "field64 (rd_chn_descs_at 3) ?rg = 0" "field64 (rd_chn_descs_at 3 + 8) ?rg = 24" by code_simp+
  have own: "env_own mem_env 0 = None" "env_own mem_env 24 = None" by (simp_all add: ctl_base_def)
  have ld: "io_load mem_vt ?m 0 8 = Inr (FB_SUCCESS, Some ?x, ?m)" by code_simp
  have st: "io_store mem_vt ?m 24 ?x = Inr (FB_SUCCESS, ?x @ replicate 16 0 @ ?x)" by code_simp
  show ?thesis
    using memctrl_read_transfer [where i = 3 and E = mem_env, OF idle, unfolded reg a mem_env_simps(1), OF _ mem_env_simps(2) own ld _ st] by (auto simp: NR_CHN_def)
qed

text \<open>
  C27. Only one read channel starts at a time: a store to the read pending register of a controller with nothing in flight
  queues the transfer of the lowest channel whose bit it sets, with the addresses in the registers of that channel, and nothing else. The bit of any
  other channel it sets is pending from then on in every run in which the guest stores nothing more: its transfer never happens, and
  a program that polls the bit waits for ever. The transfer that starts does not write to the controller itself.
\<close>

theorem memctrl_second_read_never_starts:
  fixes v :: u64
  assumes "ctl_run E ls (new_MiniCPUMemController junk b) = Some (Inr c)" and "length junk = sizeof_inner_state"
    and "eventQueue c = []" and "tasks_of (ctl_pool c) = {#}"
    and "i < NR_CHN" and "bit v i" and "\<forall>k < i. \<not> bit v k" and "env_own E (field64 (rd_chn_descs_at i + 8) (reg c)) = None"
  shows "\<exists>c1. ctl_step E (Guest_store 0x10 (bytes_of 8 v)) c = Some (Inr c1)
     \<and> c1 = c\<lparr>reg := put64 rd_pending_at v (reg c), eventQueue := [\<lparr>ev_type = ASYNC_READ, chnID = i,
          srcAddr = field64 (rd_chn_descs_at i) (reg c), dstAddr = field64 (rd_chn_descs_at i + 8) (reg c)\<rparr>]\<rparr>
     \<and> (\<forall>ls' c' j. j \<noteq> i \<and> bit v j \<and> ctl_run E ls' c1 = Some (Inr c') \<and> (\<forall>a bs. Guest_store a bs \<notin> set ls') \<longrightarrow>
          bit (rd_pending c') j \<and> (\<forall>e \<in># in_flight c'. chnID e \<noteq> j))"
proof -
  have ok: "ctl_ok c" by (rule ctl_run_ok[OF new_ctl_ok[OF assms(2)] assms(1)])
  define rg where "rg = put64 rd_pending_at v (reg c)"
  have l: "rd_pending_at + 8 \<le> length (reg c)" using ok by (simp add: ctl_ok_def rd_pending_at_def sizeof_inner_state_def)
  have e: "rd_event rg i = \<lparr>ev_type = ASYNC_READ, chnID = i, srcAddr = field64 (rd_chn_descs_at i) (reg c),
      dstAddr = field64 (rd_chn_descs_at i + 8) (reg c)\<rparr>"
    by (simp add: rd_event_def rg_def field_put_other[OF l] rd_chn_descs_at_def rd_pending_at_def field_put_other[OF l[unfolded rd_pending_at_def]])
  have "[0..<NR_CHN] = [0..<i] @ i # [Suc i..<NR_CHN]"
    using assms(5) by (metis upt_add_eq_append le0 less_imp_add_positive upt_conv_Cons add.commute add_0 less_imp_le le_add_diff_inverse)
  then have "take 1 (chosen v) = [i]" using assms(6,7) by (simp add: chosen_def)
  let ?c1 = "c\<lparr>reg := rg, eventQueue := [rd_event rg i]\<rparr>"
  have s: "ctl_step E (Guest_store 0x10 (bytes_of 8 v)) c = Some (Inr ?c1)"
    using store_rd_pending[OF ok, of v] assms(3) \<open>take 1 (chosen v) = [i]\<close> by (simp add: ctl_step_def rg_def)
  have ok1: "ctl_ok ?c1" using ok l by (simp add: ctl_ok_def rg_def)
  have f: "in_flight ?c1 = {#rd_event rg i#}" using assms(4) by (simp add: in_flight_def)
  have out: "outside E ?c1" using assms(8) unfolding outside_def f by (simp add: e)
  have "bit (rd_pending c') j \<and> (\<forall>e \<in># in_flight c'. chnID e \<noteq> j)"
    if j: "j \<noteq> i" "bit v j" and run: "ctl_run E ls' ?c1 = Some (Inr c')" and g: "\<forall>a bs. Guest_store a bs \<notin> set ls'" for ls' c' j
  proof -
    have q: "quiet ?c1 c'" by (rule ctl_run_quiet[OF ok1 run g out])
    have n: "\<forall>e \<in># in_flight ?c1. chnID e \<noteq> j" using j(1) unfolding f by (simp add: e)
    have "bit (rd_pending ?c1) j" using l j(2) by (simp add: rg_def)
    then have "bit (rd_pending c') j" using q n unfolding quiet_def by blast
    moreover have "in_flight c' \<subseteq># in_flight ?c1" using q by (simp add: quiet_def)
    ultimately show ?thesis using n by (meson mset_subset_eqD)
  qed
  then show ?thesis using s unfolding e[symmetric] rg_def[symmetric] by blast
qed

text \<open>Channels 0 and 1: the event that is queued is the one of channel 0.\<close>

theorem memctrl_second_read_never_starts_witness:
  "\<exists>c'. ctl_run mem_env [Guest_store 0x10 (bytes_of 8 (3 :: u64)), Dispatch, Pool Caller] (new_MiniCPUMemController (replicate sizeof_inner_state 0) []) =
       Some (Inr c') \<and> bit (rd_pending c') 1"
proof -
  let ?c = "new_MiniCPUMemController (replicate sizeof_inner_state 0) ([] :: u8 list)"
  let ?l = "Guest_store 0x10 (bytes_of 8 (3 :: u64))"
  have "case ctl_run mem_env [?l, Dispatch, Pool Caller] ?c of Some (Inr c') \<Rightarrow> True | _ \<Rightarrow> False" by code_simp
  then obtain c' where c': "ctl_run mem_env [?l, Dispatch, Pool Caller] ?c = Some (Inr c')" by (auto split: option.splits sum.splits)
  have start: "ctl_run mem_env [] ?c = Some (Inr ?c)" by simp
  have e: "eventQueue ?c = []" "tasks_of (ctl_pool ?c) = {#}"
    by (simp_all add: new_MiniCPUMemController_def new_pool_tasks)
  have b: "0 < NR_CHN" "bit (3 :: u64) 0" "\<forall>k < 0. \<not> bit (3 :: u64) k" "bit (3 :: u64) 1" by (simp_all add: NR_CHN_def)
  have "field64 (rd_chn_descs_at 0 + 8) (reg ?c) = 0" by code_simp
  then have own: "env_own mem_env (field64 (rd_chn_descs_at 0 + 8) (reg ?c)) = None" by (simp add: ctl_base_def)
  obtain c1 where c1: "ctl_step mem_env ?l ?c = Some (Inr c1)"
    "\<forall>ls' c' j. j \<noteq> 0 \<and> bit (3 :: u64) j \<and> ctl_run mem_env ls' c1 = Some (Inr c') \<and> (\<forall>a bs. Guest_store a bs \<notin> set ls') \<longrightarrow>
          bit (rd_pending c') j \<and> (\<forall>e \<in># in_flight c'. chnID e \<noteq> j)"
    using memctrl_second_read_never_starts [OF start length_replicate e b(1-3) own] by blast
  have "ctl_run mem_env [Dispatch, Pool Caller] c1 = Some (Inr c')" using c' c1(1) by simp
  then have "bit (rd_pending c') 1" using c1(2)[rule_format, of 1 "[Dispatch, Pool Caller]" c'] b(4) by simp
  then show ?thesis using c' by blast
qed

text \<open>
  C28. A write transfer is never reported as done: no action of the controller clears a bit of the write pending register,
  since the handler of a write clears the bit of the read channel of that number. Whatever happened before, as long as no transfer under way
  has its destination among the addresses of the controller itself, the register keeps its value in every run in which the guest does not
  store.
\<close>

theorem memctrl_write_pending_for_ever:
  assumes "ctl_run E ls (new_MiniCPUMemController junk b) = Some (Inr c)" and "length junk = sizeof_inner_state"
    and "\<forall>e \<in># in_flight c. env_own E (dstAddr e) = None"
    and "ctl_run E ls' c = Some (Inr c')" and "\<forall>a bs. Guest_store a bs \<notin> set ls'"
  shows "wr_pending c' = wr_pending c"
  using ctl_run_quiet[OF ctl_run_ok[OF new_ctl_ok[OF assms(2)] assms(1)] assms(4,5)] assms(3) by (simp add: quiet_def outside_def)

text \<open>The write on channel 0 has run to its end; its bit is still set.\<close>

definition write_schedule :: "ctl_turn list" where
  "write_schedule = [Dispatch, Pool Caller, Pool Caller, Pool Caller, Pool (Thread 0), Handler 0, Handler 0, Handler 0]
     @ replicate 88 Tick @ [Handler 0, Handler 0, Pool (Return 0)]"

lemma run_write:
  assumes "ctl_pool c = \<lparr>pool = new_worker # ws, pool_caller = Idle\<rparr>" and "eventQueue c = [e]" and "\<not> stop c"
    and "ev_type e = ASYNC_WRITE" and "frames c = f # fs"
    and "io_load (env_io E) (ctl_bus c) (srcAddr e) 8 = Inr (fb, Some bs, b1)" and "io_store (env_io E) b1 (dstAddr e) (bytes_of 8 (word_of_bytes bs :: u64)) = Inr (fb', b2)"
    and "env_plain E" and "env_own E (srcAddr e) = None" and "env_own E (dstAddr e) = None"
  shows "\<exists>c'. ctl_run E write_schedule c = Some (Inr c')"
proof -
  let ?s1 = "[Dispatch, Pool Caller, Pool Caller, Pool Caller, Pool (Thread 0), Handler 0, Handler 0, Handler 0]"
  let ?c1 = "c\<lparr>eventQueue := [], ctl_pool := \<lparr>pool = busy e # ws, pool_caller = Idle\<rparr>, ctl_bus := b2,
      frames := \<lparr>h_pc = H_Delay, tick_start = global_tick c, h_data = word_of_bytes bs\<rparr> # fs\<rparr>"
  have s1: "ctl_run E ?s1 c = Some (Inr ?c1)"
    using assms
    by (simp add: ctl_step_def ctl_pool_step_def pool_defs busy_def handler_step_def new_frame_def new_worker_def handler_next_def bus_load_def bus_store_def)
  let ?c2 = "?c1\<lparr>global_tick := global_tick c + NR_CYCLE\<rparr>"
  have s2: "ctl_run E (replicate 88 Tick) ?c1 = Some (Inr ?c2)" by (simp add: run_ticks NR_CYCLE_def)
  have s3: "\<exists>c'. ctl_run E [Handler 0, Handler 0, Pool (Return 0)] ?c2 = Some (Inr c')"
    using assms(4) by (simp add: ctl_step_def ctl_pool_step_def pool_defs busy_def handler_step_def handler_next_def)
  then obtain c' where s3: "ctl_run E [Handler 0, Handler 0, Pool (Return 0)] ?c2 = Some (Inr c')" ..
  show ?thesis
    unfolding write_schedule_def by (intro exI[of _ c'] ctl_run_seq[OF s1] ctl_run_seq[OF s2] s3)
qed

lemma channels_Cons: "replicate NR_CHN x = x # replicate 15 x"
  by (simp add: NR_CHN_def numeral_eq_Suc)

theorem memctrl_write_pending_for_ever_witness:
  "\<exists>c c'. ctl_run mem_env [Guest_store 0x18 (bytes_of 8 (1 :: u64))] (new_MiniCPUMemController (replicate sizeof_inner_state 0) (replicate 8 5)) = Some (Inr c)
     \<and> ctl_run mem_env write_schedule c = Some (Inr c') \<and> wr_pending c' = 1"
proof -
  let ?c = "new_MiniCPUMemController (replicate sizeof_inner_state 0) (replicate 8 5 :: u8 list)"
  let ?l = "Guest_store 0x18 (bytes_of 8 (1 :: u64))"
  define rg where "rg = put64 wr_pending_at 1 (replicate sizeof_inner_state 0)"
  let ?e = "wr_event rg 0"
  let ?c1 = "?c\<lparr>reg := rg, eventQueue := [?e]\<rparr>"
  have "chosen 1 = [0]" using chosen_one[of 0] by (simp add: NR_CHN_def)
  then have "ctl_store ?c 0x18 (bytes_of 8 (1 :: u64)) = Inr (FB_SUCCESS, ?c1)"
    using store_wr_pending[OF new_ctl_ok[of "replicate sizeof_inner_state 0" "replicate 8 5 :: u8 list"], of 1]
    by (simp add: new_MiniCPUMemController_def rg_def)
  then have c1: "ctl_run mem_env [?l] ?c = Some (Inr ?c1)" by (simp add: ctl_step_def)
  have a: "field64 0x200 rg = 0" "field64 0x208 rg = 0" unfolding rg_def by code_simp+
  have ld: "io_load mem_vt (replicate 8 5) 0 8 = Inr (FB_SUCCESS, Some (replicate 8 5), replicate 8 5)" by code_simp
  have st: "io_store mem_vt (replicate 8 5) 0 (bytes_of 8 (word_of_bytes (replicate 8 5) :: u64)) = Inr (FB_SUCCESS, replicate 8 5)" by code_simp
  have "\<exists>c'. ctl_run mem_env write_schedule ?c1 = Some (Inr c')"
    by (rule run_write[where e = ?e and ws = "replicate 15 new_worker" and f = new_frame and fs = "replicate 15 new_frame"
          and bs = "replicate 8 5" and ?b1.0 = "replicate 8 5" and ?b2.0 = "replicate 8 5" and fb = FB_SUCCESS and fb' = FB_SUCCESS])
      (use ld st a in \<open>simp_all add: new_MiniCPUMemController_def new_ThreadPool_def channels_Cons wr_event_def wr_chn_descs_at_def ctl_base_def\<close>)
  then obtain c' where c': "ctl_run mem_env write_schedule ?c1 = Some (Inr c')" ..
  have "in_flight ?c1 = {#?e#}" by (simp add: in_flight_def new_MiniCPUMemController_def new_pool_tasks)
  then have own: "\<forall>e \<in># in_flight ?c1. env_own mem_env (dstAddr e) = None"
    using a by (simp add: wr_event_def wr_chn_descs_at_def ctl_base_def)
  have "wr_pending c' = wr_pending ?c1"
    by (rule memctrl_write_pending_for_ever [OF c1 _ own c']) (auto simp: write_schedule_def)
  also have "\<dots> = 1" by (simp add: rg_def wr_pending_at_def sizeof_inner_state_def)
  finally show ?thesis using c1 c' by blast
qed

end
