(* ===== verification/Waveform.thy ===== *)
theory Waveform
  imports Prelude
begin

text \<open>
  Signals of the digital world: \<open>WireSignal\<close> of \<open>include/sdk/interface/digital_if.h\<close>, and \<open>UartEncoder\<close> of
  \<open>modules/rtl_adapter/uart_encoder\<close>, which sends bytes over one wire. A function that takes a mutex and gives it back is
  one atomic step; the mutex that \<open>tick\<close> can leave locked is a field of the state.
\<close>

section \<open>Wires\<close>

type_synonym bit_val_t = u8

definition BIT_UNDEF :: bit_val_t where "BIT_UNDEF = 2"
definition BIT_POS :: bit_val_t where "BIT_POS = 1"
definition BIT_NEG :: bit_val_t where "BIT_NEG = 0"

text \<open>\<open>bitVals\<close> is the memory the pointer leads to: an array of its own, or, for a signal of Verilator, its integers.\<close>

record wire_signal =
  bitVals :: "u8 list"
  busWidth :: nat
  isVerilatorSig :: bool

definition new_WireSignal :: "nat \<Rightarrow> u64 \<Rightarrow> wire_signal" where
  "new_WireSignal bus_width val = \<lparr>bitVals = bytes_of (bus_width div 8 + 1) val, busWidth = bus_width, isVerilatorSig = False\<rparr>"

definition bit_mask :: "nat \<Rightarrow> u8" where
  "bit_mask bit_index = push_bit bit_index 1"

text \<open>
  The integer that a Verilator signal of this width is read as, \<open>sz\<close> bytes at \<open>off\<close>: 8, 16, 32 or 64 bits, or an array
  of 32-bit integers. The value is kept in the low bits of 64.
\<close>

definition verilator_word :: "nat \<Rightarrow> nat \<Rightarrow> nat \<times> nat \<times> nat" where
  "verilator_word width bit_index =
     (if width \<le> 8 then (0, 1, bit_index)
      else if width \<le> 16 then (0, 2, bit_index)
      else if width \<le> 32 then (0, 4, bit_index)
      else if width \<le> 64 then (0, 8, bit_index)
      else (4 * (bit_index div 32), 4, bit_index mod 32))"

definition setBit :: "nat \<Rightarrow> bit_val_t \<Rightarrow> wire_signal \<Rightarrow> (bool \<times> wire_signal) res" where
  "setBit bit_index bit_val s =
     (if busWidth s \<le> bit_index then Inr (False, s)
      else if isVerilatorSig s then
        let (off, sz, k) = verilator_word (busWidth s) bit_index in
        bnd (mem_read (bitVals s) off sz) (\<lambda>bs.
          let x = word_of_bytes bs :: u64; x' = (if bit_val \<noteq> 0 then x OR push_bit k 1 else x AND NOT (push_bit k 1)) in
          bnd (mem_write (bitVals s) off (bytes_of sz x')) (\<lambda>m. Inr (True, s\<lparr>bitVals := m\<rparr>)))
      else
        bnd (arr_get (bitVals s) (bit_index div 8)) (\<lambda>x.
          let x' = (if bit_val = BIT_POS then x OR bit_mask (bit_index mod 8) else x AND NOT (bit_mask (bit_index mod 8))) in
          Inr (True, s\<lparr>bitVals := (bitVals s)[bit_index div 8 := x']\<rparr>)))"

definition getBit :: "nat \<Rightarrow> wire_signal \<Rightarrow> bit_val_t res" where
  "getBit bit_index s =
     (if busWidth s \<le> bit_index then Inr (- 1)
      else if isVerilatorSig s then
        let (off, sz, k) = verilator_word (busWidth s) bit_index in
        bnd (mem_read (bitVals s) off sz) (\<lambda>bs.
          Inr (if (word_of_bytes bs :: u64) AND push_bit k 1 \<noteq> 0 then BIT_POS else BIT_NEG))
      else
        bnd (arr_get (bitVals s) (bit_index div 8)) (\<lambda>x.
          let masked_val = x AND bit_mask (bit_index mod 8) in Inr (if masked_val \<noteq> 0 then BIT_POS else BIT_NEG)))"

section \<open>The encoder\<close>

definition STATE_IDLE :: u8 where "STATE_IDLE = 0"
definition STATE_START_BIT :: u8 where "STATE_START_BIT = 1"
definition STATE_DATA_BITS :: u8 where "STATE_DATA_BITS = 2"
definition STATE_STOP_BIT :: u8 where "STATE_STOP_BIT = 3"

lemmas STATE_defs = STATE_IDLE_def STATE_START_BIT_def STATE_DATA_BITS_def STATE_STOP_BIT_def

text \<open>\<open>currentState\<close> has no initialiser: \<open>None\<close> until it is assigned. \<open>ueMutex\<close> tells whether the mutex is held.\<close>

record uart_encoder =
  txData :: "u8 list"
  txDataBytes :: u64
  cycleCounter :: u64
  bitCounter :: u64
  txBitCounter :: u64
  cyclesPerBit :: u64
  cyclesToDelay :: u64
  payloadBits :: u64
  ueMutex :: bool
  currentLogicVal :: bit_val_t
  wireSignal :: wire_signal
  currentState :: "u8 option"
  nextState :: u8

text \<open>The constructor divides by the baud rate; \<open>bytes_delay\<close> is stored and never read.\<close>

definition new_UartEncoder :: "u64 \<Rightarrow> u8 list \<Rightarrow> u64 \<Rightarrow> u64 \<Rightarrow> u64 \<Rightarrow> u64 \<Rightarrow> uart_encoder res" where
  "new_UartEncoder clk_freq_hz data data_len_bytes baurd_rate payload_bits cycles_delay =
     (if baurd_rate = 0 then Inl Undefined
      else bnd (setBit 0 BIT_POS (new_WireSignal 1 0)) (\<lambda>(_, ws).
        Inr \<lparr>txData = data, txDataBytes = data_len_bytes, cycleCounter = 0, bitCounter = 0, txBitCounter = 0,
             cyclesPerBit = clk_freq_hz div baurd_rate, cyclesToDelay = cycles_delay, payloadBits = payload_bits,
             ueMutex = False, currentLogicVal = BIT_POS, wireSignal = ws, currentState = None, nextState = STATE_IDLE\<rparr>))"

definition get_tx_data_bit :: "u64 \<Rightarrow> u8 list \<Rightarrow> u8 res" where
  "get_tx_data_bit bit_index data =
     bnd (arr_get data (unat (drop_bit 3 bit_index))) (\<lambda>x. Inr (drop_bit (unat bit_index mod 8) x AND 1))"

definition get_bit :: "uart_encoder \<Rightarrow> u8 \<Rightarrow> u8 res" where
  "get_bit e state =
     (if state = STATE_IDLE then Inr BIT_POS
      else if state = STATE_START_BIT then Inr BIT_NEG
      else if state = STATE_DATA_BITS then get_tx_data_bit (txBitCounter e) (txData e)
      else if state = STATE_STOP_BIT then Inr BIT_POS
      else Inr 0)"

definition on_update :: "uart_encoder \<Rightarrow> uart_encoder res" where
  "on_update e =
     (let st = nextState e in
      bnd (get_bit e st) (\<lambda>v.
      bnd (setBit 0 v (wireSignal e)) (\<lambda>(_, ws).
        let e = e\<lparr>currentState := Some st, currentLogicVal := v, wireSignal := ws\<rparr> in
        Inr (if st = STATE_IDLE then e\<lparr>nextState := STATE_START_BIT\<rparr>
             else if st = STATE_START_BIT then e\<lparr>nextState := STATE_DATA_BITS\<rparr>
             else if st = STATE_DATA_BITS then
               let e = e\<lparr>bitCounter := bitCounter e + 1, txBitCounter := txBitCounter e + 1\<rparr> in
               if bitCounter e = payloadBits e then e\<lparr>bitCounter := 0, nextState := STATE_STOP_BIT\<rparr> else e
             else if st = STATE_STOP_BIT then e\<lparr>nextState := STATE_IDLE\<rparr>
             else e))))"

text \<open>The turn of a bit; there is nothing to do when all is sent and the line is idle.\<close>

definition baud_step :: "uart_encoder \<Rightarrow> uart_encoder res" where
  "baud_step e =
     (if txBitCounter e < 8 * txDataBytes e then on_update e
      else (case currentState e of None \<Rightarrow> Inl Undefined | Some st \<Rightarrow> if st \<noteq> STATE_IDLE then on_update e else Inr e))"

text \<open>\<open>None\<close> when the mutex is not free: the call does not return. A delay returns with the mutex held.\<close>

definition encoder_tick :: "uart_encoder \<Rightarrow> uart_encoder res option" where
  "encoder_tick e =
     (if ueMutex e then None
      else if 0 < cyclesToDelay e then Some (Inr (e\<lparr>ueMutex := True, cyclesToDelay := cyclesToDelay e - 1\<rparr>))
      else if cyclesPerBit e = 0 then Some (Inl Undefined)
      else Some (bnd
        (if cycleCounter e mod cyclesPerBit e = 0 then baud_step e else Inr e)
        (\<lambda>e. Inr (e\<lparr>cycleCounter := cycleCounter e + 1\<rparr>))))"

definition resetData :: "u8 list \<Rightarrow> u64 \<Rightarrow> uart_encoder \<Rightarrow> uart_encoder option" where
  "resetData data data_len_bytes e =
     (if ueMutex e then None
      else Some (e\<lparr>txBitCounter := 0, txDataBytes := data_len_bytes, txData := data, nextState := STATE_IDLE\<rparr>))"

definition encoder_finished :: "uart_encoder \<Rightarrow> bool res" where
  "encoder_finished e =
     (if txBitCounter e < 8 * txDataBytes e then Inr False
      else case currentState e of None \<Rightarrow> Inl Undefined | Some st \<Rightarrow> Inr (st = STATE_IDLE))"

definition getSignal :: "u32 \<Rightarrow> uart_encoder \<Rightarrow> wire_signal res" where
  "getSignal channel e = guard (channel = 0) (Inr (wireSignal e))"

definition getBitValRef :: "u32 \<Rightarrow> uart_encoder \<Rightarrow> bit_val_t res" where
  "getBitValRef channel e = guard (channel = 0) (Inr (currentLogicVal e))"

text \<open>The levels of the wire after each of \<open>n\<close> ticks.\<close>

fun levels :: "nat \<Rightarrow> uart_encoder \<Rightarrow> (bit_val_t list \<times> uart_encoder) res option" where
  "levels 0 e = Some (Inr ([], e))"
| "levels (Suc n) e =
     (case encoder_tick e of
        None \<Rightarrow> None
      | Some (Inl c) \<Rightarrow> Some (Inl c)
      | Some (Inr e') \<Rightarrow>
          (case bnd (getSignal 0 e') (getBit 0) of
             Inl c \<Rightarrow> Some (Inl c)
           | Inr v \<Rightarrow> map_option (\<lambda>r. bnd r (\<lambda>(vs, e''). Inr (v # vs, e''))) (levels n e')))"

section \<open>What goes over the wire\<close>

text \<open>A byte: a bit of idle line, the start bit, the eight bits from the lowest on, the stop bit.\<close>

definition frame_bits :: "u8 \<Rightarrow> bit_val_t list" where
  "frame_bits b = [1, 0] @ map (\<lambda>i. if bit b i then 1 else 0) [0..<8] @ [1]"

definition wave :: "u8 list \<Rightarrow> bit_val_t list" where
  "wave data = concat (map frame_bits data) @ [1]"

section \<open>Bits of a wire\<close>

definition wire_ok :: "wire_signal \<Rightarrow> bool" where
  "wire_ok s \<longleftrightarrow> busWidth s = 1 \<and> \<not> isVerilatorSig s \<and> length (bitVals s) = 1"

lemma bit_0_and: "bit x 0 \<Longrightarrow> x AND 1 \<noteq> 0" "\<not> bit x 0 \<Longrightarrow> x AND 1 = 0" for x :: u8
  by (simp_all add: and_one_eq mod_2_eq_odd bit_0)

lemma wire_set:
  assumes "wire_ok s" and "v = 0 \<or> v = 1"
  shows "\<exists>s'. setBit 0 v s = Inr (True, s') \<and> wire_ok s' \<and> getBit 0 s' = Inr v"
proof -
  obtain x where x: "bitVals s = [x]" using assms(1) by (auto simp: wire_ok_def length_Suc_conv)
  have s: "(x OR 1) AND 1 \<noteq> 0" "(x AND NOT 1) AND 1 = 0"
    by (rule bit_0_and, simp add: bit_simps) (rule bit_0_and, simp add: bit_simps)
  show ?thesis
    using assms x s by (auto simp: wire_ok_def setBit_def getBit_def bit_mask_def BIT_POS_def BIT_NEG_def)
qed

section \<open>Sending\<close>

text \<open>The levels after each of \<open>n\<close> turns of a bit.\<close>

fun baud_levels :: "nat \<Rightarrow> uart_encoder \<Rightarrow> (bit_val_t list \<times> uart_encoder) res" where
  "baud_levels 0 e = Inr ([], e)"
| "baud_levels (Suc n) e = bnd (baud_step e) (\<lambda>e'. bnd (getBit 0 (wireSignal e')) (\<lambda>v.
     bnd (baud_levels n e') (\<lambda>(vs, e''). Inr (v # vs, e''))))"

lemma baud_levels_append:
  "baud_levels a e = Inr (vs, e1) \<Longrightarrow> baud_levels b e1 = Inr (ws, e2) \<Longrightarrow> baud_levels (a + b) e = Inr (vs @ ws, e2)"
proof (induction a arbitrary: e vs)
  case (Suc a)
  then obtain e' v vs' where "baud_step e = Inr e'" "getBit 0 (wireSignal e') = Inr v" "baud_levels a e' = Inr (vs', e1)" "vs = v # vs'"
    by (auto simp: bnd_eq_Inr)
  then show ?case using Suc.IH Suc.prems(2) by simp
qed simp

text \<open>What stays the same while the encoder sends \<open>data\<close>.\<close>

definition set_up :: "u8 list \<Rightarrow> uart_encoder \<Rightarrow> bool" where
  "set_up data e \<longleftrightarrow> txData e = data \<and> txDataBytes e = of_nat (length data) \<and> payloadBits e = 8 \<and> wire_ok (wireSignal e)
     \<and> length data < 2 ^ 61"

definition with_counter :: "nat \<Rightarrow> uart_encoder \<Rightarrow> bool" where
  "with_counter k e \<longleftrightarrow> txBitCounter e = of_nat k"

definition same_clock :: "uart_encoder \<Rightarrow> uart_encoder \<Rightarrow> bool" where
  "same_clock e e' \<longleftrightarrow> cycleCounter e' = cycleCounter e \<and> cyclesPerBit e' = cyclesPerBit e \<and> cyclesToDelay e' = cyclesToDelay e
     \<and> ueMutex e' = ueMutex e"

lemma more_to_send:
  assumes "set_up data e" and "with_counter k e" and "k < 8 * length data"
  shows "baud_step e = on_update e"
proof -
  have "unat (of_nat k :: u64) = k" "unat (8 * of_nat (length data) :: u64) = 8 * length data"
    using assms(1,3) by (simp_all add: set_up_def unat_of_nat_small unat_word_ariths)
  then have "txBitCounter e < 8 * txDataBytes e"
    using assms by (simp add: set_up_def with_counter_def word_less_nat_alt)
  then show ?thesis by (simp add: baud_step_def)
qed

lemma update_level:
  assumes "set_up data e" and "get_bit e (nextState e) = Inr v" and "v = 0 \<or> v = 1"
  shows "\<exists>ws. on_update e = Inr (let st = nextState e; e = e\<lparr>currentState := Some st, currentLogicVal := v, wireSignal := ws\<rparr> in
       if st = STATE_IDLE then e\<lparr>nextState := STATE_START_BIT\<rparr>
       else if st = STATE_START_BIT then e\<lparr>nextState := STATE_DATA_BITS\<rparr>
       else if st = STATE_DATA_BITS then
         let e = e\<lparr>bitCounter := bitCounter e + 1, txBitCounter := txBitCounter e + 1\<rparr> in
         if bitCounter e = payloadBits e then e\<lparr>bitCounter := 0, nextState := STATE_STOP_BIT\<rparr> else e
       else if st = STATE_STOP_BIT then e\<lparr>nextState := STATE_IDLE\<rparr>
       else e) \<and> wire_ok ws \<and> getBit 0 ws = Inr v"
proof -
  obtain ws where "setBit 0 v (wireSignal e) = Inr (True, ws)" "wire_ok ws" "getBit 0 ws = Inr v"
    using wire_set[of "wireSignal e" v] assms(1,3) by (auto simp: set_up_def)
  then show ?thesis using assms(2) by (intro exI[of _ ws]) (simp add: on_update_def Let_def)
qed

definition phase :: "u8 list \<Rightarrow> u8 \<Rightarrow> nat \<Rightarrow> nat \<Rightarrow> uart_encoder \<Rightarrow> bool" where
  "phase data st bc k e \<longleftrightarrow> set_up data e \<and> nextState e = st \<and> bitCounter e = of_nat bc \<and> with_counter k e"

lemma turn_idle:
  assumes "phase data STATE_IDLE 0 k e" and "baud_step e = on_update e"
  shows "\<exists>e'. baud_levels (Suc 0) e = Inr ([1], e') \<and> phase data STATE_START_BIT 0 k e' \<and> currentState e' = Some STATE_IDLE \<and> same_clock e e'"
proof -
  have "get_bit e (nextState e) = Inr 1" using assms(1) by (simp add: phase_def get_bit_def BIT_POS_def)
  from update_level[OF _ this] assms show ?thesis
    by (auto simp: phase_def set_up_def with_counter_def same_clock_def)
qed

lemma turn_start:
  assumes "phase data STATE_START_BIT 0 k e" and "baud_step e = on_update e"
  shows "\<exists>e'. baud_levels (Suc 0) e = Inr ([0], e') \<and> phase data STATE_DATA_BITS 0 k e' \<and> same_clock e e'"
proof -
  have "get_bit e (nextState e) = Inr 0" using assms(1) by (simp add: phase_def get_bit_def BIT_NEG_def STATE_defs)
  from update_level[OF _ this] assms show ?thesis
    by (auto simp: phase_def set_up_def with_counter_def same_clock_def STATE_defs)
qed

lemma turn_stop:
  assumes "phase data STATE_STOP_BIT 0 k e" and "baud_step e = on_update e"
  shows "\<exists>e'. baud_levels (Suc 0) e = Inr ([1], e') \<and> phase data STATE_IDLE 0 k e' \<and> currentState e' = Some STATE_STOP_BIT \<and> same_clock e e'"
proof -
  have "get_bit e (nextState e) = Inr 1" using assms(1) by (simp add: phase_def get_bit_def BIT_POS_def STATE_defs)
  from update_level[OF _ this] assms show ?thesis
    by (auto simp: phase_def set_up_def with_counter_def same_clock_def STATE_defs)
qed

lemma data_bit:
  assumes "phase data STATE_DATA_BITS j k e" and "k < 8 * length data"
  shows "get_bit e (nextState e) = Inr (if bit (data ! (k div 8)) (k mod 8) then 1 else 0)"
proof -
  have u: "unat (of_nat k :: u64) = k" using assms by (intro unat_of_nat_small) (simp add: phase_def set_up_def)
  then have d: "unat (drop_bit 3 (of_nat k :: u64)) = k div 8" by (simp add: unat_drop_bit_eq drop_bit_eq_div unat_div)
  have l: "k div 8 < length data" using assms(2) by auto
  have b: "drop_bit m x AND 1 = (if bit x m then 1 else 0)" for x :: u8 and m
    by (simp add: and_one_eq mod_2_eq_odd bit_iff_odd_drop_bit)
  show ?thesis
    using assms(1) u d l by (simp add: phase_def set_up_def with_counter_def get_bit_def get_tx_data_bit_def STATE_defs b)
qed

lemma turn_data:
  assumes "phase data STATE_DATA_BITS j k e" and "j < 8" and "k < 8 * length data"
  shows "\<exists>e'. baud_levels (Suc 0) e = Inr ([if bit (data ! (k div 8)) (k mod 8) then 1 else 0], e')
    \<and> (if j = 7 then phase data STATE_STOP_BIT 0 (Suc k) e' \<and> currentState e' = Some STATE_DATA_BITS
       else phase data STATE_DATA_BITS (Suc j) (Suc k) e') \<and> same_clock e e'"
proof -
  let ?v = "if bit (data ! (k div 8)) (k mod 8) then 1 else 0 :: u8"
  have s: "set_up data e" "with_counter k e" "nextState e = STATE_DATA_BITS" "bitCounter e = of_nat j"
    using assms(1) by (simp_all add: phase_def)
  have "(of_nat j + 1 :: u64) = 8 \<longleftrightarrow> j = 7"
  proof -
    have "(of_nat j + 1 :: u64) = of_nat (Suc j)" by simp
    then have "(of_nat j + 1 :: u64) = 8 \<longleftrightarrow> unat (of_nat (Suc j) :: u64) = unat (8 :: u64)"
      by (simp only: word_unat_eq_iff)
    also have "unat (of_nat (Suc j) :: u64) = Suc j" using assms(2) by (intro unat_of_nat_small) simp
    finally show ?thesis by simp
  qed
  note j = this
  obtain ws where ws: "wire_ok ws" "getBit 0 ws = Inr ?v"
    "on_update e = Inr (let e = e\<lparr>currentState := Some STATE_DATA_BITS, currentLogicVal := ?v, wireSignal := ws,
         bitCounter := bitCounter e + 1, txBitCounter := txBitCounter e + 1\<rparr> in
         if bitCounter e = payloadBits e then e\<lparr>bitCounter := 0, nextState := STATE_STOP_BIT\<rparr> else e)"
  proof -
    have v: "?v = 0 \<or> ?v = 1" by simp
    obtain ws where ws: "wire_ok ws" "getBit 0 ws = Inr ?v" "on_update e = Inr (let st = STATE_DATA_BITS; e = e\<lparr>currentState := Some st, currentLogicVal := ?v, wireSignal := ws\<rparr> in
       if st = STATE_IDLE then e\<lparr>nextState := STATE_START_BIT\<rparr>
       else if st = STATE_START_BIT then e\<lparr>nextState := STATE_DATA_BITS\<rparr>
       else if st = STATE_DATA_BITS then
         let e = e\<lparr>bitCounter := bitCounter e + 1, txBitCounter := txBitCounter e + 1\<rparr> in
         if bitCounter e = payloadBits e then e\<lparr>bitCounter := 0, nextState := STATE_STOP_BIT\<rparr> else e
       else if st = STATE_STOP_BIT then e\<lparr>nextState := STATE_IDLE\<rparr>
       else e)"
      using update_level[OF s(1) data_bit[OF assms(1,3)] v] unfolding s(3) by blast
    have n: "STATE_DATA_BITS \<noteq> STATE_IDLE" "STATE_DATA_BITS \<noteq> STATE_START_BIT" by (simp_all add: STATE_defs)
    show ?thesis using ws n by (intro that[of ws]) (simp_all add: Let_def cong: if_cong)
  qed
  then show ?thesis
    using more_to_send[OF s(1,2) assms(3)] s j assms(2)
    by (auto simp: Let_def phase_def set_up_def with_counter_def same_clock_def STATE_defs)
qed

lemma same_clock_trans: "same_clock a b \<Longrightarrow> same_clock b c \<Longrightarrow> same_clock a c"
  by (simp add: same_clock_def)

text \<open>The bits of a byte, from the \<open>j\<close>-th on.\<close>

lemma turns_data:
  "j < 8 \<Longrightarrow> i < length data \<Longrightarrow> phase data STATE_DATA_BITS j (8 * i + j) e \<Longrightarrow>
   \<exists>e'. baud_levels (8 - j) e = Inr (map (\<lambda>m. if bit (data ! i) m then 1 else 0) [j..<8], e')
     \<and> phase data STATE_STOP_BIT 0 (8 * i + 8) e' \<and> currentState e' = Some STATE_DATA_BITS \<and> same_clock e e'"
proof (induction "8 - j" arbitrary: j e)
  case (Suc n)
  have k: "8 * i + j < 8 * length data" "(8 * i + j) div 8 = i" "(8 * i + j) mod 8 = j" using Suc.prems by auto
  obtain e1 where 1: "baud_levels (Suc 0) e = Inr ([if bit (data ! i) j then 1 else 0], e1)" "same_clock e e1"
    "if j = 7 then phase data STATE_STOP_BIT 0 (Suc (8 * i + j)) e1 \<and> currentState e1 = Some STATE_DATA_BITS
     else phase data STATE_DATA_BITS (Suc j) (Suc (8 * i + j)) e1"
    using turn_data[OF Suc.prems(3,1) k(1)] k(2,3) by auto
  show ?case
  proof (cases "j = 7")
    case True
    then show ?thesis using 1 by (intro exI[of _ e1]) (simp add: add.commute)
  next
    case False
    then have j: "Suc j < 8" "n = 8 - Suc j" "phase data STATE_DATA_BITS (Suc j) (8 * i + Suc j) e1" using Suc.prems(1) Suc.hyps(2) 1(3) by auto
    obtain e2 where 2: "baud_levels (8 - Suc j) e1 = Inr (map (\<lambda>m. if bit (data ! i) m then 1 else 0) [Suc j..<8], e2)"
      "phase data STATE_STOP_BIT 0 (8 * i + 8) e2" "currentState e2 = Some STATE_DATA_BITS" "same_clock e1 e2"
      using Suc.hyps(1)[OF j(2,1) Suc.prems(2) j(3)] by blast
    have "Suc 0 + (8 - Suc j) = 8 - j" "[j..<8] = j # [Suc j..<8]" using Suc.prems(1) by (simp_all add: upt_conv_Cons)
    then show ?thesis using baud_levels_append[OF 1(1) 2(1)] 2(2,3) same_clock_trans[OF 1(2) 2(4)] by auto
  qed
qed simp

lemma turns_byte:
  assumes "phase data STATE_IDLE 0 (8 * i) e" and "i < length data"
  shows "\<exists>e'. baud_levels 11 e = Inr (frame_bits (data ! i), e') \<and> phase data STATE_IDLE 0 (8 * Suc i) e'
    \<and> currentState e' = Some STATE_STOP_BIT \<and> same_clock e e'"
proof -
  have lt: "8 * i < 8 * length data" using assms(2) by simp
  have m: "baud_step x = on_update x" if "phase data st bc (8 * i) x" for x st bc
    using that more_to_send lt by (auto simp: phase_def)
  obtain e1 where 1: "baud_levels (Suc 0) e = Inr ([1], e1)" "phase data STATE_START_BIT 0 (8 * i) e1" "same_clock e e1"
    using turn_idle[OF assms(1) m[OF assms(1)]] by blast
  obtain e2 where 2: "baud_levels (Suc 0) e1 = Inr ([0], e2)" "phase data STATE_DATA_BITS 0 (8 * i) e2" "same_clock e1 e2"
    using turn_start[OF 1(2) m[OF 1(2)]] by blast
  obtain e3 where 3: "baud_levels 8 e2 = Inr (map (\<lambda>m. if bit (data ! i) m then 1 else 0) [0..<8], e3)"
    "phase data STATE_STOP_BIT 0 (8 * i + 8) e3" "currentState e3 = Some STATE_DATA_BITS" "same_clock e2 e3"
    using turns_data[of 0 i data e2] assms(2) 2(2) by auto
  have "baud_step e3 = on_update e3"
    using 3(3) by (simp add: baud_step_def STATE_defs)
  then obtain e4 where 4: "baud_levels (Suc 0) e3 = Inr ([1], e4)" "phase data STATE_IDLE 0 (8 * i + 8) e4"
    "currentState e4 = Some STATE_STOP_BIT" "same_clock e3 e4" using turn_stop[OF 3(2)] by blast
  have "baud_levels (Suc 0 + (Suc 0 + (8 + Suc 0))) e = Inr ([1] @ [0] @ map (\<lambda>m. if bit (data ! i) m then 1 else 0) [0..<8] @ [1], e4)"
    by (intro baud_levels_append[OF 1(1)] baud_levels_append[OF 2(1)] baud_levels_append[OF 3(1)] 4(1))
  moreover have "same_clock e e4" using 1(3) 2(3) 3(4) 4(4) same_clock_trans by blast
  ultimately show ?thesis using 4(2,3) by (intro exI[of _ e4]) (simp add: frame_bits_def add.commute)
qed

lemma turns_all:
  "n \<le> length data \<Longrightarrow> phase data STATE_IDLE 0 (8 * (length data - n)) e \<Longrightarrow> (n = 0 \<Longrightarrow> currentState e = Some STATE_STOP_BIT) \<Longrightarrow>
   \<exists>e'. baud_levels (11 * n + 1) e = Inr (concat (map frame_bits (drop (length data - n) data)) @ [1], e')
     \<and> phase data STATE_START_BIT 0 (8 * length data) e' \<and> currentState e' = Some STATE_IDLE \<and> same_clock e e'"
proof (induction n arbitrary: e)
  case 0
  then have "baud_step e = on_update e" by (simp add: baud_step_def STATE_defs)
  then show ?case using turn_idle[OF 0(2)] by auto
next
  case (Suc n)
  let ?i = "length data - Suc n"
  have i: "?i < length data" "Suc ?i = length data - n" using Suc.prems(1) by auto
  obtain e1 where 1: "baud_levels 11 e = Inr (frame_bits (data ! ?i), e1)" "phase data STATE_IDLE 0 (8 * Suc ?i) e1"
    "currentState e1 = Some STATE_STOP_BIT" "same_clock e e1" using turns_byte[OF Suc.prems(2) i(1)] by blast
  obtain e2 where 2: "baud_levels (11 * n + 1) e1 = Inr (concat (map frame_bits (drop (length data - n) data)) @ [1], e2)"
    "phase data STATE_START_BIT 0 (8 * length data) e2" "currentState e2 = Some STATE_IDLE" "same_clock e1 e2"
    using Suc.IH[of e1] Suc.prems(1) 1(2,3) i(2) by auto
  have "11 + (11 * n + 1) = 11 * Suc n + 1" by simp
  moreover have "drop ?i data = data ! ?i # drop (length data - n) data" using i by (metis Cons_nth_drop_Suc)
  ultimately show ?case using baud_levels_append[OF 1(1) 2(1)] 2(2,3) same_clock_trans[OF 1(4) 2(4)] by auto
qed

section \<open>Ticks\<close>

lemma levels_append:
  "levels a e = Some (Inr (vs, e1)) \<Longrightarrow> levels b e1 = Some (Inr (ws, e2)) \<Longrightarrow> levels (a + b) e = Some (Inr (vs @ ws, e2))"
proof (induction a arbitrary: e vs)
  case (Suc a)
  then obtain e' v vs' where "encoder_tick e = Some (Inr e')" "bnd (getSignal 0 e') (getBit 0) = Inr v"
    "levels a e' = Some (Inr (vs', e1))" "vs = v # vs'"
    by (auto simp: bnd_eq_Inr split: option.splits sum.splits)
  then show ?case using Suc.IH Suc.prems(2) by simp
qed simp

lemma baud_step_clock: "baud_step (e\<lparr>cycleCounter := k\<rparr>) = bnd (baud_step e) (\<lambda>e'. Inr (e'\<lparr>cycleCounter := k\<rparr>))"
proof -
  have g: "get_bit (e\<lparr>cycleCounter := k\<rparr>) = get_bit e" by (intro ext) (simp add: get_bit_def)
  have "on_update (e\<lparr>cycleCounter := k\<rparr>) = bnd (on_update e) (\<lambda>e'. Inr (e'\<lparr>cycleCounter := k\<rparr>))"
    by (cases "get_bit e (nextState e)"; cases "setBit 0 (projr (get_bit e (nextState e))) (wireSignal e)")
      (auto simp: on_update_def g Let_def)
  then show ?thesis by (auto simp: baud_step_def split: option.splits)
qed

lemma on_update_same_clock: "on_update e = Inr e' \<Longrightarrow> same_clock e e'"
proof -
  assume u: "on_update e = Inr e'"
  then obtain v where v: "get_bit e (nextState e) = Inr v" by (cases "get_bit e (nextState e)") (auto simp: on_update_def)
  then obtain x where x: "setBit 0 v (wireSignal e) = Inr x" using u by (cases "setBit 0 v (wireSignal e)") (auto simp: on_update_def)
  show ?thesis
    using u x by (cases x) (auto simp: on_update_def v same_clock_def Let_def split: if_splits)
qed

lemma baud_step_same_clock: "baud_step e = Inr e' \<Longrightarrow> same_clock e e'"
  by (auto simp: baud_step_def split: if_splits option.splits intro: on_update_same_clock) (simp add: same_clock_def)

lemma baud_levels_clock:
  "baud_levels n (e\<lparr>cycleCounter := k\<rparr>) = bnd (baud_levels n e) (\<lambda>(vs, e'). Inr (vs, e'\<lparr>cycleCounter := k\<rparr>))"
proof (induction n arbitrary: e)
  case (Suc n)
  show ?case
  proof (cases "baud_step e")
    case (Inr e1)
    then show ?thesis
      by (cases "getBit 0 (wireSignal e1)"; cases "baud_levels n e1") (auto simp: baud_step_clock Suc)
  qed (simp add: baud_step_clock)
qed simp

lemma mod_counter:
  assumes "0 < C" and "j < unat C" and "m * unat C + j < 2 ^ 64"
  shows "(of_nat (m * unat C + j) :: u64) mod C = 0 \<longleftrightarrow> j = 0"
proof -
  have "unat (of_nat (m * unat C + j) :: u64) = m * unat C + j"
    using assms(3) by (intro unat_of_nat_small) simp
  then have "unat ((of_nat (m * unat C + j) :: u64) mod C) = j"
    using assms(2) by (simp add: unat_mod del: of_nat_add of_nat_mult)
  then show ?thesis by (metis unat_eq_zero)
qed

definition ticking :: "u64 \<Rightarrow> uart_encoder \<Rightarrow> bool" where
  "ticking C e \<longleftrightarrow> 0 < C \<and> cyclesPerBit e = C \<and> cyclesToDelay e = 0 \<and> \<not> ueMutex e"

lemma hold:
  "ticking C e \<Longrightarrow> cycleCounter e = of_nat (m * unat C + j) \<Longrightarrow> 0 < j \<Longrightarrow> j + r \<le> unat C \<Longrightarrow> Suc m * unat C < 2 ^ 64 \<Longrightarrow>
   getBit 0 (wireSignal e) = Inr v \<Longrightarrow> levels r e = Some (Inr (replicate r v, e\<lparr>cycleCounter := of_nat (m * unat C + j + r)\<rparr>))"
proof (induction r arbitrary: e j)
  case (Suc r)
  have "(of_nat (m * unat C + j) :: u64) mod C \<noteq> 0"
    using mod_counter[of C j m] Suc.prems by (simp add: ticking_def)
  then have t: "encoder_tick e = Some (Inr (e\<lparr>cycleCounter := of_nat (m * unat C + Suc j)\<rparr>))"
    using Suc.prems(1,2) by (auto simp: encoder_tick_def ticking_def add.commute)
  have "levels r (e\<lparr>cycleCounter := of_nat (m * unat C + Suc j)\<rparr>) =
      Some (Inr (replicate r v, e\<lparr>cycleCounter := of_nat (m * unat C + Suc j + r)\<rparr>))"
    using Suc.IH[of "e\<lparr>cycleCounter := of_nat (m * unat C + Suc j)\<rparr>" "Suc j"] Suc.prems by (simp add: ticking_def)
  then show ?case using t Suc.prems(6) by (simp add: getSignal_def)
qed simp

lemma bit_period:
  assumes tk: "ticking C e" and cc: "cycleCounter e = of_nat (m * unat C)" and lim: "Suc m * unat C < 2 ^ 64"
    and b: "baud_step e = Inr e1" and v: "getBit 0 (wireSignal e1) = Inr v"
  shows "levels (unat C) e = Some (Inr (replicate (unat C) v, e1\<lparr>cycleCounter := of_nat (Suc m * unat C)\<rparr>))"
proof -
  have c: "0 < unat C" using tk by (simp add: ticking_def unat_gt_0 word_neq_0_conv)
  have sc: "same_clock e e1" by (rule baud_step_same_clock[OF b])
  let ?e2 = "e1\<lparr>cycleCounter := of_nat (m * unat C + 1)\<rparr>"
  have "(of_nat (m * unat C) :: u64) mod C = 0"
    using mod_counter[of C 0 m] tk c lim by (simp add: ticking_def)
  then have t: "encoder_tick e = Some (Inr ?e2)"
    using tk cc b sc by (auto simp: encoder_tick_def ticking_def same_clock_def add.commute)
  have "ticking C ?e2" using tk sc by (simp add: ticking_def same_clock_def)
  then have "levels (unat C - 1) ?e2 = Some (Inr (replicate (unat C - 1) v, e1\<lparr>cycleCounter := of_nat (m * unat C + 1 + (unat C - 1))\<rparr>))"
    using hold[of C ?e2 m 1 "unat C - 1" v] c lim v by simp
  moreover have "m * unat C + 1 + (unat C - 1) = Suc m * unat C" using c by simp
  moreover have "levels (Suc (unat C - 1)) e = (case levels (unat C - 1) ?e2 of None \<Rightarrow> None
      | Some r \<Rightarrow> Some (bnd r (\<lambda>(vs, e''). Inr (v # vs, e''))))"
    using t v by (simp add: getSignal_def split: option.splits)
  ultimately show ?thesis using c by (cases "unat C") auto
qed

lemma periods:
  "ticking C e \<Longrightarrow> cycleCounter e = of_nat (m * unat C) \<Longrightarrow> (m + n) * unat C < 2 ^ 64 \<Longrightarrow> baud_levels n e = Inr (vs, e') \<Longrightarrow>
   levels (n * unat C) e = Some (Inr (concat (map (replicate (unat C)) vs), e'\<lparr>cycleCounter := of_nat ((m + n) * unat C)\<rparr>))"
proof (induction n arbitrary: e m vs e')
  case 0
  then show ?case by simp
next
  case (Suc n)
  then obtain e1 v vs' where b: "baud_step e = Inr e1" "getBit 0 (wireSignal e1) = Inr v" "baud_levels n e1 = Inr (vs', e')" "vs = v # vs'"
    by (auto simp: bnd_eq_Inr)
  have sc: "same_clock e e1" by (rule baud_step_same_clock[OF b(1)])
  have le: "Suc m * unat C \<le> (m + Suc n) * unat C" by (intro mult_right_mono) auto
  let ?e1 = "e1\<lparr>cycleCounter := of_nat (Suc m * unat C)\<rparr>"
  have 1: "levels (unat C) e = Some (Inr (replicate (unat C) v, ?e1))"
    by (rule bit_period[OF Suc.prems(1,2) _ b(1,2)]) (use Suc.prems(3) le in linarith)
  have "ticking C ?e1" using Suc.prems(1) sc by (simp add: ticking_def same_clock_def)
  moreover have "baud_levels n ?e1 = Inr (vs', e'\<lparr>cycleCounter := of_nat (Suc m * unat C)\<rparr>)" by (simp only: baud_levels_clock b(3)) simp
  ultimately have 2: "levels (n * unat C) ?e1 = Some (Inr (concat (map (replicate (unat C)) vs'), e'\<lparr>cycleCounter := of_nat ((Suc m + n) * unat C)\<rparr>))"
    using Suc.IH[of ?e1 "Suc m" vs' "e'\<lparr>cycleCounter := of_nat (Suc m * unat C)\<rparr>"] Suc.prems(3) by (simp add: algebra_simps)
  show ?case using levels_append[OF 1 2] b(4) by simp
qed

lemma new_encoder:
  assumes "new_UartEncoder clk data (of_nat (length data)) baud 8 0 = Inr e" and "0 < clk div baud" and "length data < 2 ^ 61"
  shows "ticking (clk div baud) e \<and> phase data STATE_IDLE 0 0 e \<and> cycleCounter e = 0 \<and> currentState e = None"
proof -
  have "wire_ok (new_WireSignal 1 0)" by (simp add: wire_ok_def new_WireSignal_def)
  then obtain ws where "setBit 0 1 (new_WireSignal 1 0) = Inr (True, ws)" "wire_ok ws" using wire_set[of _ 1] by blast
  then show ?thesis
    using assms by (auto simp: new_UartEncoder_def BIT_POS_def ticking_def phase_def set_up_def with_counter_def split: if_splits)
qed

section \<open>Wires of Verilator\<close>

definition bit_at :: "u8 list \<Rightarrow> nat \<Rightarrow> bool" where
  "bit_at m i = bit (m ! (i div 8)) (i mod 8)"

lemma bytes_eq_bits: "length m = length m' \<Longrightarrow> (\<And>i. i < 8 * length m \<Longrightarrow> bit_at m i = bit_at m' i) \<Longrightarrow> m = m'"
proof (rule nth_equalityI)
  fix k assume l: "length m = length m'" and b: "\<And>i. i < 8 * length m \<Longrightarrow> bit_at m i = bit_at m' i" and k: "k < length m"
  show "m ! k = m' ! k"
  proof (rule bit_word_eqI)
    fix j :: nat assume "j < LENGTH(8)"
    then have "(8 * k + j) div 8 = k" "(8 * k + j) mod 8 = j" "8 * k + j < 8 * length m" using k by auto
    then show "bit (m ! k) j = bit (m' ! k) j" using b[of "8 * k + j"] by (simp add: bit_at_def)
  qed
qed

lemma word_bit_at:
  assumes "mem_read m off sz = Inr bs" and "sz \<le> 8"
  shows "bit (word_of_bytes bs :: u64) i \<longleftrightarrow> i < 8 * sz \<and> bit_at m (8 * off + i)"
proof -
  have l: "length bs = sz" using mem_read_length[OF assms(1)] .
  have "bs ! (i div 8) = m ! (off + i div 8)" if "i < 8 * sz" using mem_read_nth[OF assms(1), of "i div 8"] that by auto
  moreover have "(8 * off + i) div 8 = off + i div 8" "(8 * off + i) mod 8 = i mod 8" by simp_all
  moreover have "i div 8 < sz \<longleftrightarrow> i < 8 * sz" by auto
  ultimately show ?thesis using l assms(2) by (auto simp: bit_word_of_bytes bit_at_def)
qed

lemma write_bit_at:
  assumes "mem_write m off (bytes_of sz x) = Inr m'" and "i < 8 * length m"
  shows "bit_at m' i = (if 8 * off \<le> i \<and> i < 8 * (off + sz) then bit (x :: u64) (i - 8 * off) else bit_at m i)"
proof -
  have i: "i div 8 < length m" using assms(2) by auto
  have n: "m' ! (i div 8) = (if off \<le> i div 8 \<and> i div 8 < off + sz then bytes_of sz x ! (i div 8 - off) else m ! (i div 8))"
    using mem_write_nth[OF assms(1) i] by simp
  have iff: "off \<le> i div 8 \<and> i div 8 < off + sz \<longleftrightarrow> 8 * off \<le> i \<and> i < 8 * (off + sz)" by auto
  show ?thesis
  proof (cases "off \<le> i div 8 \<and> i div 8 < off + sz")
    case True
    then have "8 * (i div 8 - off) + i mod 8 = i - 8 * off" by (simp add: algebra_simps)
    then show ?thesis using True n iff by (auto simp: bit_at_def bit_simps dest: bit_imp_le_length)
  next
    case False
    then show ?thesis by (simp only: bit_at_def n iff[symmetric] if_False)
  qed
qed

text \<open>Where the bit of a signal is in the memory of its integers, and how many bytes these have.\<close>

definition verilator_bytes :: "nat \<Rightarrow> nat" where
  "verilator_bytes width = (if width \<le> 64 then fst (snd (verilator_word width 0)) else 4 * ((width + 31) div 32))"

lemma verilator_place:
  assumes "bit_index < width" and "verilator_word width bit_index = (off, sz, k)"
  shows "8 * off + k = bit_index \<and> k < 8 * sz \<and> sz \<le> 8 \<and> off + sz \<le> verilator_bytes width"
proof -
  have "bit_index div 32 + 1 \<le> (width + 31) div 32" using div_le_mono[of "bit_index + 32" "width + 31" 32] assms(1) by simp
  then show ?thesis using assms by (auto simp: verilator_word_def verilator_bytes_def split: if_splits)
qed

text \<open>The two representations of a signal in the same memory.\<close>

lemma get_bit_at:
  assumes "i < busWidth s" and "(busWidth s + 7) div 8 \<le> length (bitVals s)" and "isVerilatorSig s \<Longrightarrow> verilator_bytes (busWidth s) \<le> length (bitVals s)"
  shows "getBit i s = Inr (if bit_at (bitVals s) i then BIT_POS else BIT_NEG)"
proof (cases "isVerilatorSig s")
  case False
  have l: "i div 8 < length (bitVals s)" using assms(1,2) div_le_mono[of "i + 8" "busWidth s + 7" 8] by simp
  have "x AND bit_mask k \<noteq> 0 \<longleftrightarrow> bit x k" if "k < 8" for x :: u8 and k
  proof
    assume "bit x k"
    then have "bit (x AND bit_mask k) k" using that by (auto simp: bit_mask_def bit_simps)
    then show "x AND bit_mask k \<noteq> 0" by (metis bit_0_eq bot_apply bot_bool_def)
  next
    assume "x AND bit_mask k \<noteq> 0"
    then obtain n where "bit (x AND bit_mask k) n" by (metis bit_eqI bit_0_eq bot_apply bot_bool_def)
    then show "bit x k" by (auto simp: bit_mask_def bit_simps bit_1_iff)
  qed
  then show ?thesis using False assms(1) l by (simp add: getBit_def bit_at_def Let_def)
next
  case True
  obtain off sz k where w: "verilator_word (busWidth s) i = (off, sz, k)" by (cases "verilator_word (busWidth s) i")
  note p = verilator_place[OF assms(1) w]
  obtain bs where bs: "mem_read (bitVals s) off sz = Inr bs" using p assms(3)[OF True] by (simp add: mem_read_def)
  have "(word_of_bytes bs :: u64) AND push_bit k 1 \<noteq> 0 \<longleftrightarrow> bit (word_of_bytes bs :: u64) k"
  proof
    assume "bit (word_of_bytes bs :: u64) k"
    then have "bit ((word_of_bytes bs :: u64) AND push_bit k 1) k" by (auto simp: bit_simps dest: bit_imp_le_length)
    then show "(word_of_bytes bs :: u64) AND push_bit k 1 \<noteq> 0" by (metis bit_0_eq bot_apply bot_bool_def)
  next
    assume "(word_of_bytes bs :: u64) AND push_bit k 1 \<noteq> 0"
    then obtain n where "bit ((word_of_bytes bs :: u64) AND push_bit k 1) n" by (metis bit_eqI bit_0_eq bot_apply bot_bool_def)
    then show "bit (word_of_bytes bs :: u64) k" by (auto simp: bit_simps bit_1_iff)
  qed
  then show ?thesis
    using True assms(1) w bs p word_bit_at[OF bs, of k] by (simp add: getBit_def Let_def del: push_bit_of_1)
qed

definition fits :: "wire_signal \<Rightarrow> bool" where
  "fits s \<longleftrightarrow> (busWidth s + 7) div 8 \<le> length (bitVals s) \<and> (isVerilatorSig s \<longrightarrow> verilator_bytes (busWidth s) \<le> length (bitVals s))"

lemma set_bit_at:
  assumes "i < busWidth s" and "fits s" and "v = BIT_NEG \<or> v = BIT_POS"
  shows "\<exists>m. setBit i v s = Inr (True, s\<lparr>bitVals := m\<rparr>) \<and> length m = length (bitVals s)
    \<and> (\<forall>j < 8 * length (bitVals s). bit_at m j = (if j = i then v = BIT_POS else bit_at (bitVals s) j))"
proof (cases "isVerilatorSig s")
  case False
  have l: "i div 8 < length (bitVals s)" using assms(1,2) div_le_mono[of "i + 8" "busWidth s + 7" 8] unfolding fits_def by simp linarith
  let ?x = "bitVals s ! (i div 8)"
  let ?x' = "if v = BIT_POS then ?x OR bit_mask (i mod 8) else ?x AND NOT (bit_mask (i mod 8))"
  have b: "bit ?x' k = (if k = i mod 8 then v = BIT_POS else bit ?x k)" if "k < 8" for k
    using that by (auto simp: bit_mask_def bit_simps bit_1_iff)
  have "bit_at ((bitVals s)[i div 8 := ?x']) j = (if j = i then v = BIT_POS else bit_at (bitVals s) j)" if "j < 8 * length (bitVals s)" for j
  proof (cases "j div 8 = i div 8")
    case True
    then have "j mod 8 = i mod 8 \<longleftrightarrow> j = i" by (metis div_mult_mod_eq)
    then show ?thesis using True l b[of "j mod 8"] by (auto simp: bit_at_def)
  next
    case False
    then show ?thesis by (auto simp: bit_at_def)
  qed
  then show ?thesis using False assms(1) l by (intro exI[of _ "(bitVals s)[i div 8 := ?x']"]) (simp add: setBit_def Let_def)
next
  case True
  obtain off sz k where w: "verilator_word (busWidth s) i = (off, sz, k)" by (cases "verilator_word (busWidth s) i")
  note p = verilator_place[OF assms(1) w]
  have in_: "off + sz \<le> length (bitVals s)" using p assms(2) True by (simp add: fits_def)
  obtain bs where bs: "mem_read (bitVals s) off sz = Inr bs" using in_ by (simp add: mem_read_def)
  let ?x = "word_of_bytes bs :: u64"
  let ?x' = "if v \<noteq> 0 then ?x OR push_bit k 1 else ?x AND NOT (push_bit k 1)"
  obtain m where m: "mem_write (bitVals s) off (bytes_of sz ?x') = Inr m" using in_ by (simp add: mem_write_def)
  have v: "v \<noteq> 0 \<longleftrightarrow> v = BIT_POS" using assms(3) by (auto simp: BIT_POS_def BIT_NEG_def)
  have k64: "k < 64" using p by linarith
  have b: "bit ?x' n = (if n = k then v = BIT_POS else bit ?x n)" for n
    using k64 v by (auto simp: bit_simps bit_1_iff simp del: push_bit_of_1 dest: bit_imp_le_length)
  have "bit_at m j = (if j = i then v = BIT_POS else bit_at (bitVals s) j)" if j: "j < 8 * length (bitVals s)" for j
  proof (cases "8 * off \<le> j \<and> j < 8 * (off + sz)")
    case True
    then have "j - 8 * off = k \<longleftrightarrow> j = i" "8 * off + (j - 8 * off) = j" "j - 8 * off < 8 * sz" using p by auto
    then show ?thesis using write_bit_at[OF m j] True b[of "j - 8 * off"] word_bit_at[OF bs, of "j - 8 * off"] p by auto
  next
    case False
    then show ?thesis using write_bit_at[OF m j] p by auto
  qed
  then show ?thesis
    using True assms(1) w bs m mem_write_length[OF m] by (intro exI[of _ m]) (simp add: setBit_def Let_def del: push_bit_of_1)
qed

section \<open>Properties\<close>

text \<open>
  A wire behaves the same whether its bits are an array of its own or the integers of a Verilator model: for a bit of
  the bus and a level 0 or 1, the array path and the integer path of \<open>setBit\<close> leave the same memory, whatever the width,
  and afterwards both paths of \<open>getBit\<close> read this level there and the old ones everywhere else.
\<close>

theorem wire_views_agree:
  assumes "i < busWidth s" and "fits (s\<lparr>isVerilatorSig := True\<rparr>)" and "v = BIT_NEG \<or> v = BIT_POS"
  shows "\<exists>m. setBit i v (s\<lparr>isVerilatorSig := False\<rparr>) = Inr (True, s\<lparr>isVerilatorSig := False, bitVals := m\<rparr>)
    \<and> setBit i v (s\<lparr>isVerilatorSig := True\<rparr>) = Inr (True, s\<lparr>isVerilatorSig := True, bitVals := m\<rparr>)
    \<and> (\<forall>j < busWidth s. \<forall>b. getBit j (s\<lparr>isVerilatorSig := b, bitVals := m\<rparr>) =
         (if j = i then Inr v else getBit j (s\<lparr>isVerilatorSig := False\<rparr>)))"
proof -
  let ?a = "s\<lparr>isVerilatorSig := False\<rparr>" and ?c = "s\<lparr>isVerilatorSig := True\<rparr>"
  have fa: "fits ?a" using assms(2) by (simp add: fits_def)
  obtain m where m: "setBit i v ?a = Inr (True, ?a\<lparr>bitVals := m\<rparr>)" "length m = length (bitVals s)"
    "\<forall>j < 8 * length (bitVals s). bit_at m j = (if j = i then v = BIT_POS else bit_at (bitVals s) j)"
    using set_bit_at[of i ?a v] assms(1,3) fa by auto
  obtain m' where m': "setBit i v ?c = Inr (True, ?c\<lparr>bitVals := m'\<rparr>)" "length m' = length (bitVals s)"
    "\<forall>j < 8 * length (bitVals s). bit_at m' j = (if j = i then v = BIT_POS else bit_at (bitVals s) j)"
    using set_bit_at[of i ?c v] assms by auto
  have "m = m'" using m(2,3) m'(2,3) by (intro bytes_eq_bits) auto
  moreover have "getBit j (s\<lparr>isVerilatorSig := b, bitVals := m\<rparr>) = (if j = i then Inr v else getBit j ?a)" if j: "j < busWidth s" for j b
  proof -
    have l: "(busWidth s + 7) div 8 \<le> length (bitVals s)" "verilator_bytes (busWidth s) \<le> length (bitVals s)"
      using assms(2) by (simp_all add: fits_def)
    have "j < 8 * length (bitVals s)" using j l(1) by linarith
    then have "bit_at m j = (if j = i then v = BIT_POS else bit_at (bitVals s) j)" using m(3) by blast
    then show ?thesis
      using get_bit_at[of j "s\<lparr>isVerilatorSig := b, bitVals := m\<rparr>"] get_bit_at[of j ?a] j l m(2) assms(3) by auto
  qed
  ultimately show ?thesis using m(1) m'(1) by auto
qed

text \<open>A wire of 12 bits in a 16-bit integer.\<close>

theorem wire_views_agree_witness:
  "\<exists>m. setBit 9 BIT_POS \<lparr>bitVals = [0xff, 0x01], busWidth = 12, isVerilatorSig = True\<rparr> =
     Inr (True, \<lparr>bitVals = m, busWidth = 12, isVerilatorSig = True\<rparr>) \<and> getBit 9 \<lparr>bitVals = m, busWidth = 12, isVerilatorSig = True\<rparr> = Inr 1"
proof -
  let ?s = "\<lparr>bitVals = [0xff, 0x01], busWidth = 12, isVerilatorSig = True\<rparr>"
  have f: "9 < busWidth ?s" "fits (?s\<lparr>isVerilatorSig := True\<rparr>)" "BIT_POS = BIT_NEG \<or> BIT_POS = BIT_POS"
    by (simp_all add: fits_def verilator_bytes_def verilator_word_def)
  obtain m where m: "setBit 9 BIT_POS (?s\<lparr>isVerilatorSig := True\<rparr>) = Inr (True, ?s\<lparr>isVerilatorSig := True, bitVals := m\<rparr>)"
    "\<forall>j < busWidth ?s. \<forall>b. getBit j (?s\<lparr>isVerilatorSig := b, bitVals := m\<rparr>) =
         (if j = 9 then Inr BIT_POS else getBit j (?s\<lparr>isVerilatorSig := False\<rparr>))"
    using wire_views_agree [OF f] by blast
  have "getBit 9 (?s\<lparr>isVerilatorSig := True, bitVals := m\<rparr>) = Inr BIT_POS" using m(2)[rule_format, of 9 True] by simp
  then show ?thesis using m(1) by (intro exI[of _ m]) (simp add: BIT_POS_def)
qed

text \<open>
  The encoder sends what it should: with at least one cycle for a bit, the levels of the wire after each tick are, for
  every byte in order, a bit of idle line, the start bit, the eight data bits from the lowest on and the stop bit, each
  level held for \<open>clk div baud\<close> ticks, and in the end the idle line; then the encoder is finished. The cycle counter must not
  wrap meanwhile.
\<close>

lemma encoder_sends:
  assumes "new_UartEncoder clk data (of_nat (length data)) baud 8 0 = Inr e" and "0 < clk div baud" and "data \<noteq> []"
    and "(11 * length data + 1) * unat (clk div baud) < 2 ^ 64"
  shows "\<exists>e'. levels ((11 * length data + 1) * unat (clk div baud)) e =
       Some (Inr (concat (map (replicate (unat (clk div baud))) (wave data)), e'))
     \<and> encoder_finished e' = Inr True"
proof -
  let ?C = "clk div baud"
  have "0 < unat ?C" using assms(2) by (simp add: unat_gt_0 word_neq_0_conv)
  then have "11 * length data + 1 \<le> (11 * length data + 1) * unat ?C" by (metis Suc_leI One_nat_def mult.right_neutral mult_le_mono2)
  then have "11 * length data + 1 < 2 ^ 64" using assms(4) by linarith
  then have len: "length data < 2 ^ 61" by simp
  have n: "ticking ?C e" "phase data STATE_IDLE 0 0 e" "cycleCounter e = of_nat (0 * unat ?C)"
    using new_encoder[OF assms(1,2) len] by auto
  obtain e' where e': "baud_levels (11 * length data + 1) e = Inr (wave data, e')"
    "phase data STATE_START_BIT 0 (8 * length data) e'" "currentState e' = Some STATE_IDLE"
    using turns_all[of "length data" data e] n(2) assms(3) by (auto simp: wave_def)
  have "levels ((11 * length data + 1) * unat ?C) e =
      Some (Inr (concat (map (replicate (unat ?C)) (wave data)), e'\<lparr>cycleCounter := of_nat ((0 + (11 * length data + 1)) * unat ?C)\<rparr>))"
    by (rule periods[OF n(1,3) _ e'(1)]) (use assms(4) in simp)
  moreover have "encoder_finished (e'\<lparr>cycleCounter := k\<rparr>) = Inr True" for k
    using e'(2,3) by (simp add: encoder_finished_def phase_def set_up_def with_counter_def)
  ultimately show ?thesis by blast
qed

text \<open>The byte \<open>0x41\<close>, two cycles for a bit.\<close>

lemma encoder_sends_example:
  "\<exists>e e'. new_UartEncoder 230400 [0x41] 1 115200 8 0 = Inr e
     \<and> levels 24 e = Some (Inr ([1, 1, 0, 0, 1, 1, 0, 0, 0, 0, 0, 0, 0, 0, 0, 0, 1, 1, 0, 0, 1, 1, 1, 1], e'))"
proof -
  have "case new_UartEncoder 230400 [0x41] 1 115200 8 0 of Inr e \<Rightarrow> True | Inl _ \<Rightarrow> False" by code_simp
  then obtain e where e: "new_UartEncoder 230400 [0x41] 1 115200 8 0 = Inr e" by (auto split: sum.splits)
  have c: "(230400 :: u64) div 115200 = 2" by simp
  have w: "concat (map (replicate 2) (wave [0x41])) = [1, 1, 0, 0, 1, 1, 0, 0, 0, 0, 0, 0, 0, 0, 0, 0, 1, 1, 0, 0, 1, 1, 1, 1]" by code_simp
  have "\<exists>e'. levels ((11 * length [0x41 :: u8] + 1) * unat ((230400 :: u64) div 115200)) e =
      Some (Inr (concat (map (replicate (unat ((230400 :: u64) div 115200))) (wave [0x41])), e')) \<and> encoder_finished e' = Inr True"
    by (rule encoder_sends) (simp_all add: e)
  then show ?thesis using e w by (auto simp: c)
qed

text \<open>
  An encoder with an initial delay stops after one tick: the next tick, and a reset, wait for a mutex that nobody gives back.
\<close>

lemma encoder_delay_deadlock:
  assumes "new_UartEncoder clk data n baud bits delay = Inr e" and "0 < delay"
  shows "\<exists>e'. encoder_tick e = Some (Inr e') \<and> encoder_tick e' = None \<and> resetData data' n' e' = None"
proof -
  have "cyclesToDelay e = delay" "\<not> ueMutex e" using assms(1) by (auto simp: new_UartEncoder_def bnd_eq_Inr split: if_splits)
  then show ?thesis using assms(2) by (simp add: encoder_tick_def resetData_def)
qed

end
