(* ===== verification/Peripherals.thy ===== *)
theory Peripherals
  imports DevIf Waveform
begin

text \<open>
  Small devices and tools of the SDK: \<open>DummyDev\<close>, the register window \<open>SRAMAdapter\<close>, the clock \<open>ClkDrive\<close> and the
  \<open>LogicAnalyzer\<close>.
\<close>

section \<open>\<open>DummyDev\<close>\<close>

text \<open>It accepts everything and stores nothing; a load leaves the buffer alone. Its log is not modelled.\<close>

definition dummy_load :: "unit load_fn" where
  "dummy_load s begin_addr len = Inr (FB_SUCCESS, None, s)"

definition dummy_store :: "unit store_fn" where
  "dummy_store s begin_addr bs = Inr (FB_SUCCESS, s)"

interpretation dummy: slave dummy_load dummy_store "\<lambda>_. True"
  by unfold_locales (simp_all add: dummy_load_def)

section \<open>\<open>SRAMAdapter\<close>\<close>

text \<open>
  Every device address in use leads to a byte of the host, by a pointer; \<open>host\<close> is the memory of the host. Two
  addresses may lead to the same byte.
\<close>

record sram =
  addrRegMap :: "u64 \<rightharpoonup> nat"
  host :: "nat \<Rightarrow> u8"

definition sram_new :: "(nat \<Rightarrow> u8) \<Rightarrow> sram" where
  "sram_new h = \<lparr>addrRegMap = Map.empty, host = h\<rparr>"

definition regAddr :: "nat \<Rightarrow> u64 \<Rightarrow> nat \<Rightarrow> sram \<Rightarrow> sram" where
  "regAddr ptr dev_addr len s =
     s\<lparr>addrRegMap := foldl (\<lambda>m i. m(dev_addr + of_nat i \<mapsto> ptr + i)) (addrRegMap s) [0..<len]\<rparr>"

text \<open>The first loop of an access: \<open>at\<close> throws when an address is not in use.\<close>

definition sram_check :: "sram \<Rightarrow> u64 \<Rightarrow> nat \<Rightarrow> bool" where
  "sram_check s begin_addr n = list_all (\<lambda>i. addrRegMap s (begin_addr + of_nat i) \<noteq> None) [0..<n]"

definition sram_ptr :: "sram \<Rightarrow> u64 \<Rightarrow> nat" where
  "sram_ptr s a = the (addrRegMap s a)"

definition sram_load :: "sram load_fn" where
  "sram_load s begin_addr len =
     (if sram_check s begin_addr (unat len)
      then Inr (FB_SUCCESS, Some (map (\<lambda>i. host s (sram_ptr s (begin_addr + of_nat i))) [0..<unat len]), s)
      else Inr (FB_OUT_OF_RANGE, None, s))"

definition sram_store :: "sram store_fn" where
  "sram_store s begin_addr bs =
     (if sram_check s begin_addr (length bs)
      then Inr (FB_SUCCESS, s\<lparr>host := foldl (\<lambda>h i. h(sram_ptr s (begin_addr + of_nat i) := bs ! i)) (host s) [0..<length bs]\<rparr>)
      else Inr (FB_OUT_OF_RANGE, s))"

text \<open>No two addresses lead to the same byte: then it is a memory.\<close>

definition sram_wf :: "sram \<Rightarrow> bool" where
  "sram_wf s \<longleftrightarrow> inj_on (addrRegMap s) (dom (addrRegMap s))"

lemma of_nat_u64_inj: "i < 2 ^ 64 \<Longrightarrow> j < 2 ^ 64 \<Longrightarrow> (of_nat i :: u64) = of_nat j \<longleftrightarrow> i = j"
proof -
  assume "i < 2 ^ 64" "j < 2 ^ 64"
  then have "unat (of_nat i :: u64) = i" "unat (of_nat j :: u64) = j" by (simp_all add: unat_of_nat_small)
  then show ?thesis by metis
qed

lemma find_snoc: "find P (xs @ ys) = (case find P xs of None \<Rightarrow> find P ys | Some x \<Rightarrow> Some x)"
  by (induction xs) auto

lemma write_bytes:
  assumes "\<And>i j. i < n \<Longrightarrow> j < n \<Longrightarrow> p i = p j \<Longrightarrow> i = j"
  shows "foldl (\<lambda>h i. h(p i := x i)) h [0..<n] q = (case find (\<lambda>i. p i = q) [0..<n] of Some i \<Rightarrow> x i | None \<Rightarrow> h q)"
  using assms
proof (induction n)
  case (Suc n)
  have IH: "foldl (\<lambda>h i. h(p i := x i)) h [0..<n] q = (case find (\<lambda>i. p i = q) [0..<n] of Some i \<Rightarrow> x i | None \<Rightarrow> h q)"
    by (rule Suc.IH) (use Suc.prems in auto)
  show ?case
  proof (cases "p n = q")
    case True
    have "p i \<noteq> q" if "i < n" for i using Suc.prems[of i n] that True by auto
    then have "find (\<lambda>i. p i = q) [0..<n] = None" by (auto simp: find_None_iff)
    then have "find (\<lambda>i. p i = q) [0..<Suc n] = Some n" using True by (simp add: find_snoc)
    then show ?thesis using True by simp
  next
    case False
    then have "find (\<lambda>i. p i = q) [0..<Suc n] = find (\<lambda>i. p i = q) [0..<n]"
      by (simp add: find_snoc split: option.split)
    then show ?thesis using False IH by (simp add: fun_upd_other del: fun_upd_apply)
  qed
qed simp

lemma sram_store_load:
  assumes wf: "sram_wf s" and st: "sram_store s a bs = Inr (FB_SUCCESS, s')" and len: "length bs < 2 ^ 64"
  shows "sram_load s' a (of_nat (length bs)) = Inr (FB_SUCCESS, Some bs, s')"
proof -
  let ?p = "\<lambda>i. sram_ptr s (a + of_nat i)"
  have chk: "sram_check s a (length bs)" using st by (simp add: sram_store_def FB_defs split: if_splits)
  then have s': "s' = s\<lparr>host := foldl (\<lambda>h i. h(?p i := bs ! i)) (host s) [0..<length bs]\<rparr>" using st by (simp add: sram_store_def)
  have inj: "i = j" if "i < length bs" "j < length bs" "?p i = ?p j" for i j
  proof -
    have "addrRegMap s (a + of_nat i) \<noteq> None" "addrRegMap s (a + of_nat j) \<noteq> None"
      using chk that by (auto simp: sram_check_def list_all_iff)
    then have "a + of_nat i = a + of_nat j"
      using wf that(3) by (intro inj_onD[OF wf[unfolded sram_wf_def]]) (auto simp: sram_ptr_def)
    then show ?thesis using of_nat_u64_inj[of i j] that len by simp
  qed
  have "host s' (?p k) = bs ! k" if k: "k < length bs" for k
  proof -
    have "find (\<lambda>i. ?p i = ?p k) [0..<length bs] = Some k"
      unfolding find_Some_iff
    proof (intro exI[of _ k] conjI allI impI)
      fix j assume "j < k"
      then show "?p ([0..<length bs] ! j) \<noteq> ?p k" using inj[of j k] k by auto
    qed (use k in simp_all)
    then show ?thesis using write_bytes[of "length bs" ?p "(!) bs" "host s" "?p k"] inj by (simp add: s')
  qed
  then have "map (\<lambda>i. host s' (?p i)) [0..<length bs] = bs" by (intro nth_equalityI) auto
  moreover have "sram_check s' = sram_check s" "sram_ptr s' = sram_ptr s" by (auto simp: s' sram_check_def sram_ptr_def fun_eq_iff)
  moreover have "unat (of_nat (length bs) :: u64) = length bs" using len by (intro unat_of_nat_small) simp
  ultimately show ?thesis using chk by (simp add: sram_load_def)
qed

interpretation sr: memory_slave sram_load sram_store sram_wf
proof unfold_locales
  fix s s' a bs assume "sram_wf s" "sram_store s a bs = Inr (FB_SUCCESS, s')" "length bs < 2 ^ 64"
  then show "sram_load s' a (of_nat (length bs)) = Inr (FB_SUCCESS, Some bs, s')" by (rule sram_store_load)
qed (auto simp: sram_load_def sram_store_def sram_wf_def split: if_splits)

text \<open>An access that leaves the window changes nothing.\<close>

lemma sram_all_or_nothing: "sram_store s a bs = Inr (fb, s') \<Longrightarrow> fb \<noteq> FB_SUCCESS \<Longrightarrow> s' = s"
  by (auto simp: sram_store_def split: if_splits)

section \<open>\<open>ClkDrive\<close>\<close>

text \<open>
  The objects are handles; \<open>tk\<close> is the \<open>tick\<close> of each. Of the loop of the thread the model has a turn: \<open>elapsed\<close> says
  whether the interval has passed on the clock of the host; without \<open>realtime\<close> every turn ticks.
\<close>

record 'o clk_drive =
  objs :: "'o list"
  nrTicks :: u64
  cycleIntervalNs :: u64
  realtime :: bool
  tickAtOnce :: bool
  terminateThread :: bool

definition new_ClkDrive :: "u64 \<Rightarrow> bool \<Rightarrow> bool \<Rightarrow> 'o clk_drive res" where
  "new_ClkDrive freq_hz real_time tick_at_once =
     (if freq_hz = 0 then Inl Undefined
      else Inr \<lparr>objs = [], nrTicks = 0, cycleIntervalNs = 1000000000 div freq_hz, realtime = real_time,
                tickAtOnce = tick_at_once, terminateThread = False\<rparr>)"

definition regTickObj :: "'o \<Rightarrow> 'o clk_drive \<Rightarrow> 'o clk_drive" where
  "regTickObj o1 c = c\<lparr>objs := objs c @ [o1]\<rparr>"

definition do_tick :: "('o \<Rightarrow> u64 \<Rightarrow> 'w \<Rightarrow> 'w res) \<Rightarrow> 'o clk_drive \<times> 'w \<Rightarrow> ('o clk_drive \<times> 'w) res" where
  "do_tick tk cw = (case cw of (c, w) \<Rightarrow>
     let c = c\<lparr>nrTicks := nrTicks c + 1\<rparr> in bnd (for_each (\<lambda>ob. tk ob (nrTicks c)) (objs c) w) (\<lambda>w. Inr (c, w)))"

definition clk_turn :: "('o \<Rightarrow> u64 \<Rightarrow> 'w \<Rightarrow> 'w res) \<Rightarrow> bool \<Rightarrow> 'o clk_drive \<times> 'w \<Rightarrow> ('o clk_drive \<times> 'w) res" where
  "clk_turn tk elapsed cw = (if realtime (fst cw) \<longrightarrow> elapsed then do_tick tk cw else Inr cw)"

text \<open>The thread, for the turns after whose last it sees \<open>terminateThread\<close>.\<close>

definition clk_run :: "('o \<Rightarrow> u64 \<Rightarrow> 'w \<Rightarrow> 'w res) \<Rightarrow> bool list \<Rightarrow> 'o clk_drive \<times> 'w \<Rightarrow> ('o clk_drive \<times> 'w) res" where
  "clk_run tk turns cw =
     bnd (if tickAtOnce (fst cw) then do_tick tk cw else Inr cw) (\<lambda>cw. for_each (clk_turn tk) turns cw)"

text \<open>Objects that record their ticks: each object is ticked once a tick, in the order of registration.\<close>

lemma do_tick_order:
  "do_tick (\<lambda>ob n w. Inr (w @ [(ob, n)])) (c, w) = Inr (c\<lparr>nrTicks := nrTicks c + 1\<rparr>, w @ map (\<lambda>ob. (ob, nrTicks c + 1)) (objs c))"
proof -
  have "for_each (\<lambda>ob w. Inr (w @ [(ob, n)])) xs w = Inr (w @ map (\<lambda>ob. (ob, n)) xs)" for n :: u64 and xs :: "'a list" and w
    by (induction xs arbitrary: w) simp_all
  then show ?thesis by (simp add: do_tick_def)
qed

section \<open>\<open>LogicAnalyzer\<close>\<close>

text \<open>
  A channel reads a level through a pointer or a bit of a wire; the two kinds of pointers are names in an environment of
  levels and wires, which the other objects of the simulation change. A null pointer is \<open>None\<close>.
\<close>

datatype sig_source = Sig_simple "nat option" | Sig_wire "nat option" nat

record Signal =
  desc_name :: string
  sig_id :: string
  source :: sig_source

type_synonym sig_env = "(nat \<Rightarrow> bit_val_t) \<times> (nat \<Rightarrow> wire_signal)"

definition loadBitVal :: "sig_env \<Rightarrow> Signal \<Rightarrow> bit_val_t res" where
  "loadBitVal env s =
     (case source s of
        Sig_simple p \<Rightarrow> (case p of None \<Rightarrow> Inl Undefined | Some r \<Rightarrow> Inr (fst env r))
      | Sig_wire p i \<Rightarrow> (case p of None \<Rightarrow> Inl Undefined | Some r \<Rightarrow> getBit i (snd env r)))"

definition TRIGGER_MODE_LOW :: u8 where "TRIGGER_MODE_LOW = 0"
definition TRIGGER_MODE_HIGH :: u8 where "TRIGGER_MODE_HIGH = 1"
definition TRIGGER_MODE_POSEDGE :: u8 where "TRIGGER_MODE_POSEDGE = 2"
definition TRIGGER_MODE_NEGEDGE :: u8 where "TRIGGER_MODE_NEGEDGE = 3"
definition TRIGGER_MODE_EDGE :: u8 where "TRIGGER_MODE_EDGE = 4"
definition TRIGGER_MODE_ANALOG :: u8 where "TRIGGER_MODE_ANALOG = 5"

lemmas TRIGGER_MODE_defs = TRIGGER_MODE_LOW_def TRIGGER_MODE_HIGH_def TRIGGER_MODE_POSEDGE_def TRIGGER_MODE_NEGEDGE_def
  TRIGGER_MODE_EDGE_def TRIGGER_MODE_ANALOG_def

definition isTriggered :: "bit_val_t \<Rightarrow> bit_val_t \<Rightarrow> u8 \<Rightarrow> bool" where
  "isTriggered last_val current_val trigger_mode =
     (if trigger_mode = TRIGGER_MODE_LOW then current_val = BIT_NEG
      else if trigger_mode = TRIGGER_MODE_HIGH then current_val = BIT_POS
      else if trigger_mode = TRIGGER_MODE_POSEDGE then last_val = BIT_NEG \<and> current_val = BIT_POS
      else if trigger_mode = TRIGGER_MODE_NEGEDGE then last_val = BIT_POS \<and> current_val = BIT_NEG
      else if trigger_mode = TRIGGER_MODE_ANALOG then True
      else False)"

record logic_analyzer =
  timeScaleNs :: u64
  cycleDurationNs :: u64
  currentMomentNs :: u64
  sampleCounter :: u64
  triggerMode :: u8
  triggered :: bool
  triggerSignal :: Signal
  lastTriggerSignalVal :: bit_val_t
  signals :: "Signal list"
  vcdStrStream :: string

fun decimal :: "nat \<Rightarrow> string" where
  "decimal n = (if n < 10 then [char_of (48 + n)] else decimal (n div 10) @ [char_of (48 + n mod 10)])"

declare decimal.simps [simp del]

definition newline :: string where "newline = [CHR 0x0A]"

text \<open>The comment of the file names the number of channels, which is 0 at this moment.\<close>

definition new_LogicAnalyzer :: "u64 \<Rightarrow> u8 \<Rightarrow> u64 \<Rightarrow> logic_analyzer res" where
  "new_LogicAnalyzer time_scale_ns trigger_mode freq_hz =
     (if freq_hz = 0 then Inl Undefined
      else Inr \<lparr>timeScaleNs = time_scale_ns, cycleDurationNs = 1000000000 div freq_hz, currentMomentNs = 0, sampleCounter = 0,
                triggerMode = trigger_mode, triggered = (trigger_mode = TRIGGER_MODE_ANALOG),
                triggerSignal = \<lparr>desc_name = [], sig_id = [], source = Sig_simple None\<rparr>, lastTriggerSignalVal = BIT_UNDEF, signals = [],
                vcdStrStream = ''$date  $end'' @ newline @ ''$version NextEmu LogicAnalyzer $end'' @ newline
                  @ ''$comment'' @ newline @ ''  Acquisition with 0 channels at '' @ decimal (unat freq_hz) @ '' Hz'' @ newline
                  @ ''$end'' @ newline @ ''$timescale '' @ decimal (unat time_scale_ns) @ '' ns $end'' @ newline\<rparr>)"

definition addChannel :: "string \<Rightarrow> string \<Rightarrow> nat \<Rightarrow> bool \<Rightarrow> logic_analyzer \<Rightarrow> logic_analyzer" where
  "addChannel channel_desc_name sig_uid signal is_trigger a =
     (let s = \<lparr>desc_name = channel_desc_name, sig_id = sig_uid, source = Sig_simple (Some signal)\<rparr>; a = a\<lparr>signals := signals a @ [s]\<rparr> in
      if is_trigger then a\<lparr>triggerSignal := s\<rparr> else a)"

definition addChannel_wire :: "string \<Rightarrow> string \<Rightarrow> (nat \<Rightarrow> wire_signal) \<Rightarrow> nat \<Rightarrow> nat \<Rightarrow> bool \<Rightarrow> logic_analyzer \<Rightarrow> logic_analyzer res" where
  "addChannel_wire channel_desc_name sig_uid wires wire_sig bit_index is_trigger a =
     guard (bit_index < busWidth (wires wire_sig))
       (let s = \<lparr>desc_name = channel_desc_name, sig_id = sig_uid, source = Sig_wire (Some wire_sig) bit_index\<rparr>; a = a\<lparr>signals := signals a @ [s]\<rparr> in
        Inr (if is_trigger then a\<lparr>triggerSignal := s\<rparr> else a))"

definition buildVcdHeader :: "logic_analyzer \<Rightarrow> logic_analyzer" where
  "buildVcdHeader a =
     a\<lparr>vcdStrStream := vcdStrStream a @ ''$scope module la $end''
         @ concat (map (\<lambda>s. ''$var wire 1 '' @ sig_id s @ '' '' @ desc_name s @ '' $end'' @ newline) (signals a))
         @ ''$upscope $end'' @ newline @ ''$enddefinitions $end'' @ newline\<rparr>"

definition dump_signal :: "sig_env \<Rightarrow> Signal \<Rightarrow> string \<Rightarrow> string res" where
  "dump_signal env s out = bnd (loadBitVal env s) (\<lambda>v. Inr (out @ decimal (unat v) @ sig_id s @ '' ''))"

definition analyzer_tick :: "sig_env \<Rightarrow> logic_analyzer \<Rightarrow> logic_analyzer res" where
  "analyzer_tick env a =
     bnd (if \<not> triggered a then
            bnd (loadBitVal env (triggerSignal a)) (\<lambda>v.
              Inr (a\<lparr>triggered := isTriggered (lastTriggerSignalVal a) v (triggerMode a), lastTriggerSignalVal := v\<rparr>))
          else
            bnd (for_each (dump_signal env) (signals a) (''#'' @ decimal (unat (sampleCounter a * cycleDurationNs a)) @ '' '')) (\<lambda>line.
              Inr (a\<lparr>vcdStrStream := vcdStrStream a @ line @ newline, sampleCounter := sampleCounter a + 1\<rparr>)))
       (\<lambda>a. Inr (a\<lparr>currentMomentNs := currentMomentNs a + cycleDurationNs a\<rparr>))"

text \<open>Without a channel as trigger the null pointer is followed before it is tested.\<close>

lemma analyzer_no_trigger: "new_LogicAnalyzer ts mode f = Inr a \<Longrightarrow> mode \<noteq> TRIGGER_MODE_ANALOG \<Longrightarrow> analyzer_tick env a = Inl Undefined"
  by (auto simp: new_LogicAnalyzer_def analyzer_tick_def loadBitVal_def split: if_splits)

text \<open>The levels of the trigger in the order of the ticks: the tick after which the analyzer is triggered, if any.\<close>

fun trigger_at :: "bit_val_t \<Rightarrow> bit_val_t list \<Rightarrow> u8 \<Rightarrow> nat option" where
  "trigger_at prev [] mode = None"
| "trigger_at prev (v # vs) mode = (if isTriggered prev v mode then Some 0 else map_option Suc (trigger_at v vs mode))"

lemma trigger_at_first:
  "trigger_at prev vs mode = Some k \<longleftrightarrow> k < length vs \<and> isTriggered ((prev # vs) ! k) (vs ! k) mode
     \<and> (\<forall>j < k. \<not> isTriggered ((prev # vs) ! j) (vs ! j) mode)"
proof (induction vs arbitrary: prev k)
  case (Cons v vs)
  show ?case
  proof (cases "isTriggered prev v mode")
    case True
    then show ?thesis by (cases k) auto
  next
    case False
    then show ?thesis using Cons[of v "k - 1"] by (cases k) (auto simp: less_Suc_eq_0_disj)
  qed
qed simp

lemma tick_triggered:
  assumes "triggered a" and "analyzer_tick env a = Inr a'"
  shows "triggered a' \<and> sampleCounter a' = sampleCounter a + 1"
  using assms by (auto simp: analyzer_tick_def bnd_eq_Inr)

lemma ticks_triggered: "triggered a \<Longrightarrow> for_each analyzer_tick envs a = Inr a' \<Longrightarrow> sampleCounter a' = sampleCounter a + of_nat (length envs)"
proof (induction envs arbitrary: a)
  case (Cons env envs)
  then obtain a1 where "analyzer_tick env a = Inr a1" "for_each analyzer_tick envs a1 = Inr a'" by (auto simp: bnd_eq_Inr)
  then show ?case using Cons.IH[of a1] tick_triggered[OF Cons.prems(1), of env a1] by simp
qed simp

lemma ticks_waiting:
  "\<not> triggered a \<Longrightarrow> source (triggerSignal a) = Sig_simple (Some r) \<Longrightarrow> for_each analyzer_tick envs a = Inr a' \<Longrightarrow>
   sampleCounter a' = (case trigger_at (lastTriggerSignalVal a) (map (\<lambda>env. fst env r) envs) (triggerMode a) of
     None \<Rightarrow> sampleCounter a | Some k \<Rightarrow> sampleCounter a + of_nat (length envs - Suc k))"
proof (induction envs arbitrary: a)
  case (Cons env envs)
  let ?t = "isTriggered (lastTriggerSignalVal a) (fst env r) (triggerMode a)"
  let ?a = "a\<lparr>triggered := ?t, lastTriggerSignalVal := fst env r, currentMomentNs := currentMomentNs a + cycleDurationNs a\<rparr>"
  have "analyzer_tick env a = Inr ?a" using Cons.prems(1,2) by (simp add: analyzer_tick_def loadBitVal_def)
  then have r: "for_each analyzer_tick envs ?a = Inr a'" using Cons.prems(3) by simp
  show ?case
  proof (cases ?t)
    case True
    then show ?thesis using ticks_triggered[OF _ r] by simp
  next
    case False
    then show ?thesis using Cons.IH[OF _ _ r] Cons.prems(2) by (auto split: option.splits)
  qed
qed simp

section \<open>Properties\<close>

text \<open>
  The logic analyzer samples from its trigger on: an analyzer with a trigger channel records one sample in each tick
  after the first in which the level of the trigger, with the one of the tick before, meets the condition of the mode, and
  none before. In the mode for both edges it never samples, because this mode has no case.
\<close>

theorem analyzer_samples_after_trigger:
  assumes "new_LogicAnalyzer ts mode freq = Inr a" and "mode \<noteq> TRIGGER_MODE_ANALOG"
    and "for_each analyzer_tick envs (addChannel name uid r True a) = Inr a'"
  shows "sampleCounter a' = (case trigger_at BIT_UNDEF (map (\<lambda>env. fst env r) envs) mode of
       None \<Rightarrow> 0 | Some k \<Rightarrow> of_nat (length envs - Suc k))
     \<and> (mode = TRIGGER_MODE_EDGE \<longrightarrow> sampleCounter a' = 0)"
proof -
  let ?a = "addChannel name uid r True a"
  have "\<not> triggered ?a" "source (triggerSignal ?a) = Sig_simple (Some r)" "lastTriggerSignalVal ?a = BIT_UNDEF"
    "triggerMode ?a = mode" "sampleCounter ?a = 0"
    using assms(1,2) by (auto simp: new_LogicAnalyzer_def addChannel_def Let_def split: if_splits)
  note w = ticks_waiting[OF this(1,2) assms(3), unfolded this(3-5)]
  have "trigger_at prev vs TRIGGER_MODE_EDGE = None" for prev vs
    by (induction vs arbitrary: prev) (auto simp: isTriggered_def TRIGGER_MODE_defs)
  then show ?thesis using w by (auto split: option.splits)
qed

text \<open>A rising edge at the third tick of five: two samples.\<close>

theorem analyzer_samples_after_trigger_witness:
  "\<exists>a a'. new_LogicAnalyzer 1 TRIGGER_MODE_POSEDGE 1000000 = Inr a
     \<and> for_each analyzer_tick (map (\<lambda>v. (\<lambda>_. v, \<lambda>_. new_WireSignal 1 0)) [1, 0, 1, 0, 1]) (addChannel ''rx'' ''r'' 0 True a) = Inr a'
     \<and> sampleCounter a' = 2"
proof -
  let ?envs = "map (\<lambda>v. (\<lambda>_. v, \<lambda>_. new_WireSignal 1 0)) [1, 0, 1, 0, 1] :: sig_env list"
  obtain a where a: "new_LogicAnalyzer 1 TRIGGER_MODE_POSEDGE 1000000 = Inr a" by (simp add: new_LogicAnalyzer_def)
  have "\<exists>a'. for_each analyzer_tick ?envs (addChannel ''rx'' ''r'' 0 True a) = Inr a'"
    using a by (auto simp: new_LogicAnalyzer_def addChannel_def analyzer_tick_def loadBitVal_def isTriggered_def TRIGGER_MODE_defs
        BIT_POS_def BIT_NEG_def BIT_UNDEF_def dump_signal_def Let_def)
  then obtain a' where a': "for_each analyzer_tick ?envs (addChannel ''rx'' ''r'' 0 True a) = Inr a'" ..
  have "trigger_at BIT_UNDEF (map (\<lambda>env. fst env 0) ?envs) TRIGGER_MODE_POSEDGE = Some 2"
    by (simp add: isTriggered_def TRIGGER_MODE_defs BIT_POS_def BIT_NEG_def BIT_UNDEF_def)
  then have "sampleCounter a' = 2"
    using analyzer_samples_after_trigger [OF a _ a'] by (simp add: TRIGGER_MODE_defs)
  then show ?thesis using a a' by blast
qed

end
