(* ===== verification/AxiLite.thy ===== *)
theory AxiLite
  imports DevIf
begin

text \<open>
  The AXI-Lite adapter, \<open>modules/rtl_adapter/axilite\<close>: a store to the bus is driven, transaction by transaction, on the
  pins of a Verilator model. The class of the model, \<open>VTop\<close>, is generated by Verilator: its pins and its evaluation are a
  parameter. The module of the repository, \<open>rtl/Top.v\<close>, is translated below and is one such model.
\<close>

record 'm vtop =
  eval :: "'m \<Rightarrow> 'm"
  set_ACLK :: "bool \<Rightarrow> 'm \<Rightarrow> 'm"
  set_AWADDR :: "u64 \<Rightarrow> 'm \<Rightarrow> 'm"
  set_AWVALID :: "bool \<Rightarrow> 'm \<Rightarrow> 'm"
  set_WDATA :: "u64 \<Rightarrow> 'm \<Rightarrow> 'm"
  set_WSTRB :: "u8 \<Rightarrow> 'm \<Rightarrow> 'm"
  set_WVALID :: "bool \<Rightarrow> 'm \<Rightarrow> 'm"
  set_BREADY :: "bool \<Rightarrow> 'm \<Rightarrow> 'm"
  AWREADY :: "'m \<Rightarrow> bool"
  WREADY :: "'m \<Rightarrow> bool"
  BVALID :: "'m \<Rightarrow> bool"
  BRESP :: "'m \<Rightarrow> u8"

definition AXI_WRITE_FB_SUCCESS :: u8 where "AXI_WRITE_FB_SUCCESS = 0"
definition AXI_WRITE_FB_SLAVE_ERR :: u8 where "AXI_WRITE_FB_SLAVE_ERR = 2"
definition AXI_WRITE_FB_DECODE_ERR :: u8 where "AXI_WRITE_FB_DECODE_ERR = 3"

definition axiClkCycle :: "'m vtop \<Rightarrow> 'm \<Rightarrow> 'm" where
  "axiClkCycle vt m = eval vt (set_ACLK vt True (eval vt (set_ACLK vt False m)))"

text \<open>\<open>while (!ready) axiClkCycle()\<close>; a slave that is never ready stops the emulator: \<open>None\<close>.\<close>

partial_function (option) wait_ready :: "'m vtop \<Rightarrow> ('m \<Rightarrow> bool) \<Rightarrow> 'm \<Rightarrow> 'm option" where
  "wait_ready vt ready m = (if ready m then Some m else wait_ready vt ready (axiClkCycle vt m))"

text \<open>
  A transaction. The functions for 4 and for 8 bytes have the same text but for the types: with 4 bytes the address and the
  value have 32 bits.
\<close>

definition axiliteStore8B :: "'m vtop \<Rightarrow> u64 \<Rightarrow> u8 \<Rightarrow> u64 \<Rightarrow> 'm \<Rightarrow> (u8 \<times> 'm) option" where
  "axiliteStore8B vt addr wstrb val m =
     (case wait_ready vt (AWREADY vt) (eval vt (set_AWVALID vt True (set_AWADDR vt addr m))) of
        None \<Rightarrow> None
      | Some m \<Rightarrow>
          let m = set_AWVALID vt False m in
          (case wait_ready vt (WREADY vt) (eval vt (set_WVALID vt True (set_WSTRB vt wstrb (set_WDATA vt val m)))) of
             None \<Rightarrow> None
           | Some m \<Rightarrow>
               let m = set_WVALID vt False m in
               (case wait_ready vt (BVALID vt) m of
                  None \<Rightarrow> None
                | Some m \<Rightarrow> Some (BRESP vt m, axiClkCycle vt (set_BREADY vt True m)))))"

definition axiliteStore4B :: "'m vtop \<Rightarrow> u32 \<Rightarrow> u8 \<Rightarrow> u32 \<Rightarrow> 'm \<Rightarrow> (u8 \<times> 'm) option" where
  "axiliteStore4B vt addr wstrb val m = axiliteStore8B vt (ucast addr) wstrb (ucast val) m"

definition axi_transfer :: "'m vtop \<Rightarrow> nat \<Rightarrow> u64 \<Rightarrow> u8 \<Rightarrow> u64 \<Rightarrow> 'm \<Rightarrow> (u8 \<times> 'm) option" where
  "axi_transfer vt BIT_WIDTH addr wstrb val m =
     (if BIT_WIDTH = 32 then axiliteStore4B vt (ucast addr) wstrb (ucast val) m else axiliteStore8B vt addr wstrb val m)"

definition axi_feedback :: "u8 \<Rightarrow> u32" where
  "axi_feedback resp =
     (if resp = AXI_WRITE_FB_SUCCESS then FB_SUCCESS
      else if resp = AXI_WRITE_FB_DECODE_ERR then FB_OUT_OF_RANGE else FB_UNKNOWN_ERR)"

text \<open>The loop over the whole words, with \<open>n\<close> to go; the strobe has a bit for each byte of a word.\<close>

fun store_words :: "'m vtop \<Rightarrow> nat \<Rightarrow> nat \<Rightarrow> u64 \<Rightarrow> u8 list \<Rightarrow> 'm \<Rightarrow> (u8 \<times> 'm) option" where
  "store_words vt BIT_WIDTH 0 addr bs m = Some (AXI_WRITE_FB_SUCCESS, m)"
| "store_words vt BIT_WIDTH (Suc n) addr bs m =
     (let byteSize = BIT_WIDTH div 8 in
      case axi_transfer vt BIT_WIDTH addr (if BIT_WIDTH = 32 then 0x0F else 0xFF) (word_of_bytes (take byteSize bs)) m of
        None \<Rightarrow> None
      | Some (resp, m) \<Rightarrow>
          if resp \<noteq> AXI_WRITE_FB_SUCCESS then Some (resp, m)
          else store_words vt BIT_WIDTH n (addr + of_nat byteSize) (drop byteSize bs) m)"

definition axi_store :: "'m vtop \<Rightarrow> nat \<Rightarrow> u64 \<Rightarrow> u8 list \<Rightarrow> 'm \<Rightarrow> (u32 \<times> 'm) option" where
  "axi_store vt BIT_WIDTH begin_addr bs m =
     (let byteSize = BIT_WIDTH div 8; n = length bs div byteSize in
      case store_words vt BIT_WIDTH n begin_addr bs m of
        None \<Rightarrow> None
      | Some (resp, m) \<Rightarrow>
          if resp \<noteq> AXI_WRITE_FB_SUCCESS then Some (axi_feedback resp, m)
          else
            let aligned_len = n * byteSize; len_left = length bs mod byteSize in
            (case axi_transfer vt BIT_WIDTH (begin_addr + of_nat aligned_len) (of_nat len_left) (word_of_bytes (drop aligned_len bs)) m of
               None \<Rightarrow> None
             | Some (resp, m) \<Rightarrow> Some (axi_feedback resp, m)))"

definition axi_load :: "'m \<Rightarrow> u64 \<Rightarrow> u64 \<Rightarrow> (u32 \<times> u8 list option \<times> 'm) res" where
  "axi_load m begin_addr len = Inr (FB_OUT_OF_RANGE, None, m)"

section \<open>Transactions\<close>

text \<open>
  A write transaction as the protocol has it, for an address, a strobe and a value: the address is shown until the slave accepts it,
  then the strobe and the value, and then the adapter waits for the response, which is success, and acknowledges it in one cycle. \<open>until\<close> is
  the state after the least number of cycles with which the slave is ready.
\<close>

definition until :: "'m vtop \<Rightarrow> ('m \<Rightarrow> bool) \<Rightarrow> 'm \<Rightarrow> 'm \<Rightarrow> bool" where
  "until vt ready m m' \<longleftrightarrow>
     (\<exists>k. m' = (axiClkCycle vt ^^ k) m \<and> ready m' \<and> (\<forall>i < k. \<not> ready ((axiClkCycle vt ^^ i) m)))"

definition transaction :: "'m vtop \<Rightarrow> u64 \<times> u8 \<times> u64 \<Rightarrow> 'm \<Rightarrow> 'm \<Rightarrow> bool" where
  "transaction vt t m m' \<longleftrightarrow> (case t of (addr, strb, val) \<Rightarrow> \<exists>m1 m2 m3.
     until vt (AWREADY vt) (eval vt (set_AWVALID vt True (set_AWADDR vt addr m))) m1
     \<and> until vt (WREADY vt) (eval vt (set_WVALID vt True (set_WSTRB vt strb (set_WDATA vt val (set_AWVALID vt False m1))))) m2
     \<and> until vt (BVALID vt) (set_WVALID vt False m2) m3 \<and> BRESP vt m3 = AXI_WRITE_FB_SUCCESS
     \<and> m' = axiClkCycle vt (set_BREADY vt True m3))"

fun transaction_seq :: "'m vtop \<Rightarrow> (u64 \<times> u8 \<times> u64) list \<Rightarrow> 'm \<Rightarrow> 'm \<Rightarrow> bool" where
  "transaction_seq vt [] m m' \<longleftrightarrow> m' = m"
| "transaction_seq vt (t # ts) m m' \<longleftrightarrow> (\<exists>m1. transaction vt t m m1 \<and> transaction_seq vt ts m1 m')"

text \<open>A slave that in the states of \<open>J\<close> completes every transaction, with success.\<close>

definition completes :: "'m vtop \<Rightarrow> ('m \<Rightarrow> bool) \<Rightarrow> bool" where
  "completes vt J \<longleftrightarrow> (\<forall>m t. J m \<longrightarrow> (\<exists>m'. transaction vt t m m' \<and> J m'))"

text \<open>
  The transactions of a store, for words of \<open>sz\<close> bytes: one for each whole word, and always one more for what is left, be it nothing. The
  pins of the address have as many bits as those of the data.
\<close>

definition addr_pins :: "nat \<Rightarrow> u64 \<Rightarrow> u64" where
  "addr_pins sz a = take_bit (8 * sz) a"

fun word_transactions :: "nat \<Rightarrow> nat \<Rightarrow> u64 \<Rightarrow> u8 list \<Rightarrow> (u64 \<times> u8 \<times> u64) list" where
  "word_transactions sz 0 addr bs = []"
| "word_transactions sz (Suc n) addr bs =
     (addr_pins sz addr, mask sz, word_of_bytes (take sz bs)) # word_transactions sz n (addr + of_nat sz) (drop sz bs)"

definition transactions :: "nat \<Rightarrow> u64 \<Rightarrow> u8 list \<Rightarrow> (u64 \<times> u8 \<times> u64) list" where
  "transactions sz addr bs =
     (let n = length bs div sz in
      word_transactions sz n addr bs
      @ [(addr_pins sz (addr + of_nat (n * sz)), of_nat (length bs mod sz), word_of_bytes (drop (n * sz) bs))])"

lemma until_wait: "until vt ready m m' \<Longrightarrow> wait_ready vt ready m = Some m'"
proof -
  have "wait_ready vt ready m = Some ((axiClkCycle vt ^^ k) m)"
    if "ready ((axiClkCycle vt ^^ k) m)" "\<forall>i < k. \<not> ready ((axiClkCycle vt ^^ i) m)" for k
    using that
  proof (induction k arbitrary: m)
    case 0 then show ?case by (simp add: wait_ready.simps)
  next
    case (Suc k)
    have "\<not> ready m" using Suc.prems(2) by force
    moreover have "wait_ready vt ready (axiClkCycle vt m) = Some ((axiClkCycle vt ^^ k) (axiClkCycle vt m))"
    proof (rule Suc.IH)
      show "ready ((axiClkCycle vt ^^ k) (axiClkCycle vt m))" using Suc.prems(1) by (simp add: funpow_swap1)
      show "\<forall>i < k. \<not> ready ((axiClkCycle vt ^^ i) (axiClkCycle vt m))"
        using Suc.prems(2) by (metis Suc_mono funpow_simps_right(2) comp_apply)
    qed
    ultimately show ?case by (simp add: wait_ready.simps[of vt ready m] funpow_swap1)
  qed
  then show "until vt ready m m' \<Longrightarrow> wait_ready vt ready m = Some m'" by (auto simp: until_def)
qed

lemma until_now: "ready m \<Longrightarrow> until vt ready m m"
  unfolding until_def by (intro exI[of _ 0]) simp

lemma until_next: "\<not> ready m \<Longrightarrow> ready (axiClkCycle vt m) \<Longrightarrow> until vt ready m (axiClkCycle vt m)"
  unfolding until_def by (intro exI[of _ 1]) simp

lemma store_transaction: "transaction vt (a, s, v) m m' \<Longrightarrow> axiliteStore8B vt a s v m = Some (AXI_WRITE_FB_SUCCESS, m')"
  by (auto simp: transaction_def axiliteStore8B_def Let_def dest!: until_wait)

lemma word_of_bytes_short: "length bs \<le> 4 \<Longrightarrow> take_bit 32 (word_of_bytes bs :: u64) = word_of_bytes bs"
  by (rule bit_word_eqI) (auto simp: bit_simps bit_word_of_bytes)

lemma transfer_transaction:
  assumes "sz = 4 \<and> length bs \<le> 4 \<or> sz = 8" and "transaction vt (addr_pins sz a, s, word_of_bytes bs) m m'"
  shows "axi_transfer vt (8 * sz) a s (word_of_bytes bs) m = Some (AXI_WRITE_FB_SUCCESS, m')"
proof -
  have "ucast (ucast a :: u32) = take_bit 32 a" "take_bit 64 a = a" for a :: u64
    by (rule bit_word_eqI; simp add: bit_simps)+
  then show ?thesis
    using assms store_transaction[OF assms(2)] by (auto simp: axi_transfer_def axiliteStore4B_def addr_pins_def word_of_bytes_short)
qed

lemma words_transactions:
  assumes "completes vt J" and "sz = 4 \<or> sz = 8"
  shows "J m \<Longrightarrow> \<exists>m'. store_words vt (8 * sz) n a bs m = Some (AXI_WRITE_FB_SUCCESS, m') \<and> transaction_seq vt (word_transactions sz n a bs) m m' \<and> J m'"
proof (induction n arbitrary: a bs m)
  case (Suc n)
  let ?t = "(addr_pins sz a, mask sz :: u8, word_of_bytes (take sz bs) :: u64)"
  obtain m1 where m1: "transaction vt ?t m m1" "J m1" using assms(1) Suc.prems unfolding completes_def by blast
  obtain m' where m': "store_words vt (8 * sz) n (a + of_nat sz) (drop sz bs) m1 = Some (AXI_WRITE_FB_SUCCESS, m')"
    "transaction_seq vt (word_transactions sz n (a + of_nat sz) (drop sz bs)) m1 m'" "J m'" using Suc.IH[OF m1(2)] by blast
  have s: "(if 8 * sz = 32 then 0x0F else 0xFF :: u8) = mask sz" using assms(2) by (auto simp: mask_eq_decr_exp)
  have "axi_transfer vt (8 * sz) a (mask sz) (word_of_bytes (take sz bs)) m = Some (AXI_WRITE_FB_SUCCESS, m1)"
    by (rule transfer_transaction[OF _ m1(1)]) (use assms(2) in auto)
  then have "store_words vt (8 * sz) (Suc n) a bs m = Some (AXI_WRITE_FB_SUCCESS, m')"
    unfolding store_words.simps Let_def s using m'(1) by simp
  then show ?case using m1(1) m'(2,3) by auto
qed simp

lemma transaction_seq_append: "transaction_seq vt (ts @ us) m m' \<longleftrightarrow> (\<exists>m1. transaction_seq vt ts m m1 \<and> transaction_seq vt us m1 m')"
  by (induction ts arbitrary: m) auto

text \<open>A wait that returns has seen the slave ready; one for a slave that never is does not return.\<close>

lemma wait_ready_ready: "wait_ready vt ready m = Some m' \<Longrightarrow> ready m'"
proof (induction rule: wait_ready.raw_induct[rotated 1, consumes 1, case_names step])
  case step then show ?case by (auto split: if_splits)
qed

lemma wait_for_ever: "\<forall>m. \<not> ready m \<Longrightarrow> wait_ready vt ready m = None"
  using wait_ready_ready[of vt ready m] by (cases "wait_ready vt ready m") auto

section \<open>The slave of the repository\<close>

text \<open>
  \<open>rtl/Top.v\<close> as Verilator evaluates it: the pins, the clock of the last evaluation, and the three registers. At a
  rising edge of the clock an address that is valid makes \<open>AWREADY\<close> high and \<open>WREADY\<close> low, data that are valid do the reverse, and the data win;
  \<open>BVALID\<close> follows \<open>WREADY\<close> when it changes. \<open>BRESP\<close> has no driver.
\<close>

record top_v =
  tv_ACLK :: bool
  tv_last_ACLK :: bool
  tv_AWVALID :: bool
  tv_AWADDR :: u32
  tv_WVALID :: bool
  tv_WSTRB :: u8
  tv_WDATA :: u32
  tv_BREADY :: bool
  awready_reg :: bool
  wready_reg :: bool
  bvalid_reg :: bool

definition top_posedge :: "top_v \<Rightarrow> top_v" where
  "top_posedge m =
     (let m = (if tv_AWVALID m then m\<lparr>awready_reg := True, wready_reg := False\<rparr> else m) in
      if tv_WVALID m then m\<lparr>awready_reg := False, wready_reg := True\<rparr> else m)"

definition top_eval :: "top_v \<Rightarrow> top_v" where
  "top_eval m =
     (let m' = (if tv_ACLK m \<and> \<not> tv_last_ACLK m then top_posedge m else m) in
      m'\<lparr>tv_last_ACLK := tv_ACLK m, bvalid_reg := (if wready_reg m' \<noteq> wready_reg m then wready_reg m' else bvalid_reg m)\<rparr>)"

definition top_vt :: "top_v vtop" where
  "top_vt = \<lparr>eval = top_eval, set_ACLK = (\<lambda>x m. m\<lparr>tv_ACLK := x\<rparr>), set_AWADDR = (\<lambda>x m. m\<lparr>tv_AWADDR := ucast x\<rparr>),
     set_AWVALID = (\<lambda>x m. m\<lparr>tv_AWVALID := x\<rparr>), set_WDATA = (\<lambda>x m. m\<lparr>tv_WDATA := ucast x\<rparr>),
     set_WSTRB = (\<lambda>x m. m\<lparr>tv_WSTRB := x\<rparr>), set_WVALID = (\<lambda>x m. m\<lparr>tv_WVALID := x\<rparr>), set_BREADY = (\<lambda>x m. m\<lparr>tv_BREADY := x\<rparr>),
     AWREADY = awready_reg, WREADY = wready_reg, BVALID = bvalid_reg, BRESP = (\<lambda>_. 0)\<rparr>"

definition top_new :: top_v where
  "top_new = \<lparr>tv_ACLK = False, tv_last_ACLK = False, tv_AWVALID = False, tv_AWADDR = 0, tv_WVALID = False, tv_WSTRB = 0,
     tv_WDATA = 0, tv_BREADY = False, awready_reg = False, wready_reg = False, bvalid_reg = False\<rparr>"

definition top_idle :: "top_v \<Rightarrow> bool" where
  "top_idle m \<longleftrightarrow> tv_last_ACLK m = tv_ACLK m \<and> \<not> tv_AWVALID m \<and> \<not> tv_WVALID m \<and> bvalid_reg m = wready_reg m"

lemmas top_defs = top_vt_def top_eval_def top_posedge_def axiClkCycle_def

lemma top_completes: "completes top_vt top_idle"
  unfolding completes_def
proof (intro allI impI)
  fix m :: top_v and t :: "u64 \<times> u8 \<times> u64"
  assume i: "top_idle m"
  obtain a s v where t: "t = (a, s, v)" by (cases t)
  let ?e1 = "eval top_vt (set_AWVALID top_vt True (set_AWADDR top_vt a m))"
  define m1 where "m1 = (if awready_reg m then ?e1 else axiClkCycle top_vt ?e1)"
  have e1: "awready_reg ?e1 = awready_reg m" "awready_reg (axiClkCycle top_vt ?e1)"
    using i by (simp_all add: top_defs top_idle_def Let_def)
  have u1: "until top_vt (AWREADY top_vt) ?e1 m1"
    using e1 until_now[of "AWREADY top_vt" ?e1 top_vt] until_next[of "AWREADY top_vt" ?e1 top_vt] by (simp add: m1_def top_vt_def)
  have v1: "tv_last_ACLK m1 = tv_ACLK m1" "\<not> tv_WVALID m1" "bvalid_reg m1 = wready_reg m1"
    using i by (simp_all add: m1_def top_defs top_idle_def Let_def)
  let ?e2 = "eval top_vt (set_WVALID top_vt True (set_WSTRB top_vt s (set_WDATA top_vt v (set_AWVALID top_vt False m1))))"
  define m2 where "m2 = (if wready_reg m1 then ?e2 else axiClkCycle top_vt ?e2)"
  have e2: "wready_reg ?e2 = wready_reg m1" "wready_reg (axiClkCycle top_vt ?e2)"
    using v1 by (simp_all add: top_defs Let_def)
  have u2: "until top_vt (WREADY top_vt) ?e2 m2"
    using e2 until_now[of "WREADY top_vt" ?e2 top_vt] until_next[of "WREADY top_vt" ?e2 top_vt] by (simp add: m2_def top_vt_def)
  have v2: "tv_last_ACLK m2 = tv_ACLK m2" "\<not> tv_AWVALID m2" "wready_reg m2" "bvalid_reg m2"
    using v1 by (simp_all add: m2_def top_defs Let_def)
  let ?m3 = "set_WVALID top_vt False m2"
  have u3: "until top_vt (BVALID top_vt) ?m3 ?m3" by (rule until_now) (simp add: top_vt_def v2)
  let ?m = "axiClkCycle top_vt (set_BREADY top_vt True ?m3)"
  have "top_idle ?m" using v2 by (simp add: top_defs top_idle_def Let_def)
  moreover have "BRESP top_vt ?m3 = AXI_WRITE_FB_SUCCESS" by (simp add: top_vt_def AXI_WRITE_FB_SUCCESS_def)
  ultimately show "\<exists>m'. transaction top_vt t m m' \<and> top_idle m'" using u1 u2 u3 unfolding transaction_def t by auto
qed

section \<open>Properties\<close>

text \<open>
  C39. A store through the adapter, of 32 or of 64 bits, to a slave that completes every transaction with success in finitely many cycles,
  as the one of the repository does, returns with success and drives exactly
  these transactions: each whole word of the buffer in order with all its bytes enabled, then one more at the address behind
  them whose strobe is the number of bytes that are left. So a store of whole words is followed by a transaction that
  enables no byte, and the last bytes are not all enabled: of two the first is dropped, of three the third.
\<close>

theorem axi_store_transactions:
  assumes "completes vt J" and "J m" and "sz = 4 \<or> sz = 8"
  shows "(\<exists>m'. axi_store vt (8 * sz) addr bs m = Some (FB_SUCCESS, m') \<and> transaction_seq vt (transactions sz addr bs) m m' \<and> J m')
    \<and> (let strb = fst (snd (last (transactions sz addr bs))) in
        (length bs mod sz = 0 \<longrightarrow> strb = 0) \<and> (length bs mod sz = 2 \<longrightarrow> \<not> bit strb 0) \<and> (length bs mod sz = 3 \<longrightarrow> \<not> bit strb 2))"
proof
  let ?n = "length bs div sz"
  let ?rest = "drop (?n * sz) bs" and ?a = "addr + of_nat (?n * sz)" and ?s = "of_nat (length bs mod sz) :: u8"
  obtain m1 where m1: "store_words vt (8 * sz) ?n addr bs m = Some (AXI_WRITE_FB_SUCCESS, m1)"
    "transaction_seq vt (word_transactions sz ?n addr bs) m m1" "J m1"
    using words_transactions[OF assms(1,3,2)] by blast
  obtain m' where m': "transaction vt (addr_pins sz ?a, ?s, word_of_bytes ?rest) m1 m'" "J m'"
    using assms(1) m1(3) unfolding completes_def by blast
  have "length ?rest < sz" using assms(3) by (auto simp: minus_div_mult_eq_mod)
  then have "axi_transfer vt (8 * sz) ?a ?s (word_of_bytes ?rest) m1 = Some (AXI_WRITE_FB_SUCCESS, m')"
    by (intro transfer_transaction[OF _ m'(1)]) (use assms(3) in auto)
  moreover have "8 * sz div 8 = sz" by simp
  ultimately have "axi_store vt (8 * sz) addr bs m = Some (FB_SUCCESS, m')"
    using m1(1) unfolding axi_store_def Let_def by (simp add: axi_feedback_def)
  moreover have "transaction_seq vt (transactions sz addr bs) m m'"
    using m1(2) m'(1) by (auto simp: transactions_def Let_def transaction_seq_append)
  ultimately show "\<exists>m'. axi_store vt (8 * sz) addr bs m = Some (FB_SUCCESS, m') \<and> transaction_seq vt (transactions sz addr bs) m m' \<and> J m'"
    using m'(2) by blast
  show "let strb = fst (snd (last (transactions sz addr bs))) in
        (length bs mod sz = 0 \<longrightarrow> strb = 0) \<and> (length bs mod sz = 2 \<longrightarrow> \<not> bit strb 0) \<and> (length bs mod sz = 3 \<longrightarrow> \<not> bit strb 2)"
    by (auto simp: transactions_def Let_def)
qed

text \<open>Seven bytes to the slave of the repository: of the last three the third is not enabled.\<close>

theorem axi_store_transactions_witness:
  "\<exists>m. axi_store top_vt 32 0x1000 [1, 2, 3, 4, 5, 6, 7] top_new = Some (FB_SUCCESS, m)
     \<and> transaction_seq top_vt [(0x1000, 0x0F, 0x04030201), (0x1004, 3, 0x070605)] top_new m"
proof -
  have i: "top_idle top_new" by (simp add: top_idle_def top_new_def)
  have t: "transactions 4 0x1000 [1, 2, 3, 4, 5, 6, 7] = [(0x1000, 0x0F, 0x04030201), (0x1004, 3, 0x070605)]" by code_simp
  from axi_store_transactions [where sz = 4 and addr = "0x1000" and bs = "[1, 2, 3, 4, 5, 6, 7]", OF top_completes i] show ?thesis unfolding t by auto
qed

end
