(* ===== verification/MiniMmu.thy ===== *)
theory MiniMmu
  imports MiniCpu
begin

text \<open>
  The parts of \<open>modules/platform/rvcore_minicpu\<close> whose text is that of the simple core and that touch no register context:
  the memory management unit of \<open>rv64_sv39.cpp\<close>, the atomics of \<open>rv64_amo.cpp\<close> and the control registers of
  \<open>rv64_privilege.cpp\<close>. They are the simple core's functions on the members that all contexts share. The locale says what
  makes a function of the view of a context one of the shared members; its interpretations show that the contexts share
  one translation.
\<close>

section \<open>Functions of the shared members\<close>

definition on_base :: "('b rv64core \<Rightarrow> ('a \<times> 'b rv64core) res) \<Rightarrow> 'b minicore \<Rightarrow> ('a \<times> 'b minicore) res" where
  "on_base f c = bnd (f (mc_base c)) (\<lambda>(a, s). Inr (a, c\<lparr>mc_base := s\<rparr>))"

definition on_base2 :: "('b rv64core \<Rightarrow> ('a \<times> 'd \<times> 'b rv64core) res) \<Rightarrow> 'b minicore \<Rightarrow> ('a \<times> 'd \<times> 'b minicore) res" where
  "on_base2 f c = bnd (f (mc_base c)) (\<lambda>(a, d, s). Inr (a, d, c\<lparr>mc_base := s\<rparr>))"

definition on_shared :: "('b rv64core \<Rightarrow> 'a \<times> 'b rv64core) \<Rightarrow> 'b minicore \<Rightarrow> 'a \<times> 'b minicore" where
  "on_shared f c = (case f (mc_base c) of (a, s) \<Rightarrow> (a, c\<lparr>mc_base := s\<rparr>))"

section \<open>The memory management unit\<close>

definition mc_getTLBIndexToSwapOut :: "'b minicore \<Rightarrow> u16 \<times> 'b minicore" where
  "mc_getTLBIndexToSwapOut = on_shared getTLBIndexToSwapOut"

definition mc_writeTLB :: "u64 \<Rightarrow> u64 \<Rightarrow> u64 \<Rightarrow> 'b minicore \<Rightarrow> (SV39_TLB_Entry_t \<times> 'b minicore) res" where
  "mc_writeTLB leaf_pte page_size vaddr = on_base (writeTLB leaf_pte page_size vaddr)"

definition mc_getTLBEntry :: "'b slave_atomic_io \<Rightarrow> u64 \<Rightarrow> 'b minicore \<Rightarrow> (SV39_TLB_Entry_t option \<times> 'b minicore) res" where
  "mc_getTLBEntry vt vaddr = on_base (getTLBEntry vt vaddr)"

definition mc_SV39_FlushTLB_sfence_vma :: "u64 \<Rightarrow> u64 \<Rightarrow> 'b minicore \<Rightarrow> 'b minicore" where
  "mc_SV39_FlushTLB_sfence_vma vaddr asid c = c\<lparr>mc_base := SV39_FlushTLB_sfence_vma vaddr asid (mc_base c)\<rparr>"

definition mc_VAddr_ReadBuffer :: "'b slave_atomic_io \<Rightarrow> u64 \<Rightarrow> u64 \<Rightarrow> 'b minicore
    \<Rightarrow> (VAddr_RW_Feedback \<times> u8 list option \<times> 'b minicore) res" where
  "mc_VAddr_ReadBuffer vt begin_addr len = on_base2 (VAddr_ReadBuffer_MMU_API vt begin_addr len)"

definition mc_VAddr_InstFetch :: "'b slave_atomic_io \<Rightarrow> u64 \<Rightarrow> u8 list \<Rightarrow> 'b minicore
    \<Rightarrow> (VAddr_RW_Feedback \<times> u8 list \<times> 'b minicore) res" where
  "mc_VAddr_InstFetch vt begin_addr buffer = on_base2 (VAddr_InstFetch_MMU_API vt begin_addr buffer)"

definition mc_VAddr_WriteBuffer :: "'b slave_atomic_io \<Rightarrow> u64 \<Rightarrow> u8 list \<Rightarrow> 'b minicore
    \<Rightarrow> (VAddr_RW_Feedback \<times> 'b minicore) res" where
  "mc_VAddr_WriteBuffer vt begin_addr buffer = on_base (VAddr_WriteBuffer_MMU_API vt begin_addr buffer)"

definition mc_mmu_load :: "'b slave_atomic_io \<Rightarrow> 'b minicore load_fn" where
  "mc_mmu_load vt c begin_addr len = on_base2 (\<lambda>s. mmu_load vt s begin_addr len) c"

definition mc_mmu_store :: "'b slave_atomic_io \<Rightarrow> 'b minicore store_fn" where
  "mc_mmu_store vt c begin_addr buffer = on_base (\<lambda>s. mmu_store vt s begin_addr buffer) c"

section \<open>Atomics\<close>

definition mc_pa_amo_op :: "'b slave_atomic_io \<Rightarrow> u64 \<Rightarrow> u64 \<Rightarrow> AMO_Funct_enum \<Rightarrow> u64 \<Rightarrow> 'b minicore
    \<Rightarrow> (bool \<times> u64 option \<times> 'b minicore) res" where
  "mc_pa_amo_op vt pa len op src = on_base2 (pa_amo_op vt pa len op src)"

definition mc_vaddrAtomicMemOperation :: "'b slave_atomic_io \<Rightarrow> u64 \<Rightarrow> u64 \<Rightarrow> AMO_Funct_enum \<Rightarrow> u64 \<Rightarrow> 'b minicore
    \<Rightarrow> (RV64_ExecFeedbackCode_e \<times> u64 option \<times> 'b minicore) res" where
  "mc_vaddrAtomicMemOperation vt start_addr len op src = on_base2 (vaddrAtomicMemOperation vt start_addr len op src)"

definition mc_vaddrLoadReserved :: "'b slave_atomic_io \<Rightarrow> u64 \<Rightarrow> u64 \<Rightarrow> 'b minicore
    \<Rightarrow> (RV64_ExecFeedbackCode_e \<times> u8 list option \<times> 'b minicore) res" where
  "mc_vaddrLoadReserved vt begin_addr len = on_base2 (vaddrLoadReserved vt begin_addr len)"

definition mc_vaddrStoreConditional :: "'b slave_atomic_io \<Rightarrow> u64 \<Rightarrow> u8 list \<Rightarrow> 'b minicore
    \<Rightarrow> (RV64_ExecFeedbackCode_e \<times> bool option \<times> 'b minicore) res" where
  "mc_vaddrStoreConditional vt begin_addr buffer = on_base2 (vaddrStoreConditional vt begin_addr buffer)"

section \<open>Control registers and privileged instructions\<close>

definition mc_csrRead :: "'b minicore \<Rightarrow> u32 \<Rightarrow> u64 option" where
  "mc_csrRead c csr_index = csrRead (mc_base c) csr_index"

definition mc_csrWrite :: "u32 \<Rightarrow> u64 \<Rightarrow> 'b minicore \<Rightarrow> (bool \<times> 'b minicore) res" where
  "mc_csrWrite csr_index csr_data = on_base (\<lambda>s. csrWrite s csr_index csr_data)"

definition mc_csrSetbit :: "u32 \<Rightarrow> u64 \<Rightarrow> 'b minicore \<Rightarrow> (bool \<times> 'b minicore) res" where
  "mc_csrSetbit csr_index csr_mask = on_base (\<lambda>s. csrSetbit s csr_index csr_mask)"

definition mc_csrClearbit :: "u32 \<Rightarrow> u64 \<Rightarrow> 'b minicore \<Rightarrow> (bool \<times> 'b minicore) res" where
  "mc_csrClearbit csr_index csr_mask = on_base (\<lambda>s. csrClearbit s csr_index csr_mask)"

definition mc_csr_op_permission_check :: "'b minicore \<Rightarrow> u16 \<Rightarrow> bool \<Rightarrow> bool" where
  "mc_csr_op_permission_check c csr_index write = csr_op_permission_check (mc_base c) csr_index write"

text \<open>Both raise a trap, and a trap is an assertion here.\<close>

definition mc_ecall :: "'b minicore \<Rightarrow> 'b minicore res" where
  "mc_ecall c = mc_raiseTrap"

definition mc_ebreak :: "'b minicore \<Rightarrow> 'b minicore res" where
  "mc_ebreak c = mc_raiseTrap"

definition mc_mret :: "'b minicore \<Rightarrow> bool \<times> 'b minicore" where
  "mc_mret = on_shared mret"

definition mc_sret :: "'b minicore \<Rightarrow> bool \<times> 'b minicore" where
  "mc_sret = on_shared sret"

definition mc_sfence_vma :: "u64 \<Rightarrow> u64 \<Rightarrow> 'b minicore \<Rightarrow> bool \<times> 'b minicore" where
  "mc_sfence_vma vaddr asid = on_shared (sfence_vma vaddr asid)"

section \<open>The contexts share them\<close>

text \<open>The core with the general registers and the program counter of a context.\<close>

definition in_ctx :: "(reg \<Rightarrow> u64) \<Rightarrow> u64 \<Rightarrow> 'b rv64core \<Rightarrow> 'b rv64core" where
  "in_ctx g p s = s\<lparr>GPR := g, currentProgramCounter := p\<rparr>"

named_theorems in_ctx "functions that do not depend on the context"

lemma in_ctx_sel [simp]:
  "subBus (in_ctx g p s) = subBus s" "tlb (in_ctx g p s) = tlb s" "lastSwappedIndex (in_ctx g p s) = lastSwappedIndex s"
  "satp (in_ctx g p s) = satp s" "status (in_ctx g p s) = status s" "currentPrivMode (in_ctx g p s) = currentPrivMode s"
  "rvHartID (in_ctx g p s) = rvHartID s"
  by (simp_all add: in_ctx_def)

lemma in_ctx_upd [simp]:
  "(in_ctx g p s)\<lparr>subBus := b\<rparr> = in_ctx g p (s\<lparr>subBus := b\<rparr>)" "(in_ctx g p s)\<lparr>tlb := t\<rparr> = in_ctx g p (s\<lparr>tlb := t\<rparr>)"
  "(in_ctx g p s)\<lparr>lastSwappedIndex := i\<rparr> = in_ctx g p (s\<lparr>lastSwappedIndex := i\<rparr>)"
  by (simp_all add: in_ctx_def)

lemma bnd_cong: "m = m' \<Longrightarrow> (\<And>x. m' = Inr x \<Longrightarrow> f x = g x) \<Longrightarrow> bnd m f = bnd m' g"
  by (cases m') auto

lemma doLoad_in_ctx [in_ctx]: "doLoad vt a n (in_ctx g p s) = bnd (doLoad vt a n s) (\<lambda>(fb, b, s'). Inr (fb, b, in_ctx g p s'))"
  by (cases "io_load vt (subBus s) a n") (auto simp: doLoad_def split: prod.splits)

lemma doStore_in_ctx [in_ctx]: "doStore vt a bs (in_ctx g p s) = bnd (doStore vt a bs s) (\<lambda>(fb, s'). Inr (fb, in_ctx g p s'))"
  by (cases "io_store vt (subBus s) a bs") (auto simp: doStore_def split: prod.splits)

lemma load_pte_in_ctx [in_ctx]: "load_pte vt a (in_ctx g p s) = bnd (load_pte vt a s) (\<lambda>(x, s'). Inr (x, in_ctx g p s'))"
  by (auto simp: load_pte_def in_ctx bnd_assoc guard_def intro!: bnd_cong split: option.split)

lemma writeTLB_in_ctx [in_ctx]: "writeTLB l n v (in_ctx g p s) = bnd (writeTLB l n v s) (\<lambda>(e, s'). Inr (e, in_ctx g p s'))"
  by (auto simp: writeTLB_def getTLBIndexToSwapOut_def Let_def bnd_assoc guard_def intro!: bnd_cong)

lemma walk_l0_in_ctx [in_ctx]: "walk_l0 vt t v (in_ctx g p s) = bnd (walk_l0 vt t v s) (\<lambda>(e, s'). Inr (e, in_ctx g p s'))"
  by (auto simp: walk_l0_def in_ctx bnd_assoc intro!: bnd_cong)

lemma walk_l1_in_ctx [in_ctx]: "walk_l1 vt t v (in_ctx g p s) = bnd (walk_l1 vt t v s) (\<lambda>(e, s'). Inr (e, in_ctx g p s'))"
  by (auto simp: walk_l1_def in_ctx bnd_assoc intro!: bnd_cong)

lemma walk_l2_in_ctx [in_ctx]: "walk_l2 vt t v (in_ctx g p s) = bnd (walk_l2 vt t v s) (\<lambda>(e, s'). Inr (e, in_ctx g p s'))"
  by (auto simp: walk_l2_def in_ctx bnd_assoc intro!: bnd_cong)

lemma getTLBEntry_in_ctx [in_ctx]: "getTLBEntry vt v (in_ctx g p s) = bnd (getTLBEntry vt v s) (\<lambda>(e, s'). Inr (e, in_ctx g p s'))"
  by (auto simp: getTLBEntry_def in_ctx bnd_assoc guard_def intro!: bnd_cong split: option.split)

lemma modes_in_ctx [simp]: "bare (in_ctx g p s) = bare s" "effective_priv (in_ctx g p s) = effective_priv s"
  by (simp_all add: bare_def effective_priv_def)

lemma read_in_ctx [in_ctx]:
  "VAddr_ReadBuffer_MMU_API vt a n (in_ctx g p s) = bnd (VAddr_ReadBuffer_MMU_API vt a n s) (\<lambda>(fb, b, s'). Inr (fb, b, in_ctx g p s'))"
  by (auto simp: VAddr_ReadBuffer_MMU_API_def in_ctx bnd_assoc intro!: bnd_cong split: option.split)

lemma write_in_ctx [in_ctx]:
  "VAddr_WriteBuffer_MMU_API vt a bs (in_ctx g p s) = bnd (VAddr_WriteBuffer_MMU_API vt a bs s) (\<lambda>(fb, s'). Inr (fb, in_ctx g p s'))"
  by (auto simp: VAddr_WriteBuffer_MMU_API_def in_ctx bnd_assoc intro!: bnd_cong split: option.split)

lemma fetch_part_in_ctx [in_ctx]:
  "fetch_part vt a buf (in_ctx g p s) = bnd (fetch_part vt a buf s) (\<lambda>(fb, b, s'). Inr (fb, b, in_ctx g p s'))"
  by (auto simp: fetch_part_def in_ctx bnd_assoc guard_def Let_def intro!: bnd_cong split: option.split)

lemma fetch_in_ctx [in_ctx]:
  "VAddr_InstFetch_MMU_API vt a buf (in_ctx g p s) = bnd (VAddr_InstFetch_MMU_API vt a buf s) (\<lambda>(fb, b, s'). Inr (fb, b, in_ctx g p s'))"
proof (cases "fetch_part vt a (take 2 buf) s")
  case (Inl e)
  then show ?thesis by (simp add: VAddr_InstFetch_MMU_API_def in_ctx guard_def)
next
  case (Inr r)
  obtain fb lo s1 where "r = (fb, lo, s1)" by (cases r)
  with Inr show ?thesis
    by (cases "fetch_part vt (a + 2) (drop 2 buf) s1") (auto simp: VAddr_InstFetch_MMU_API_def in_ctx guard_def)
qed

lemma mmu_load_in_ctx [in_ctx]: "mmu_load vt (in_ctx g p s) a n = bnd (mmu_load vt s a n) (\<lambda>(fb, b, s'). Inr (fb, b, in_ctx g p s'))"
  by (auto simp: mmu_load_def in_ctx bnd_assoc intro!: bnd_cong)

lemma mmu_store_in_ctx [in_ctx]: "mmu_store vt (in_ctx g p s) a bs = bnd (mmu_store vt s a bs) (\<lambda>(fb, s'). Inr (fb, in_ctx g p s'))"
  by (auto simp: mmu_store_def in_ctx bnd_assoc intro!: bnd_cong)

text \<open>The view of a context is the shared members in that context, and what is written back is the shared members.\<close>

lemma view_in_ctx: "view c = Inr s \<Longrightarrow> s = in_ctx (GPR s) (currentProgramCounter s) (mc_base c)"
  by (auto simp: view_def in_ctx_def bnd_eq_Inr)

lemma put_view_in_ctx:
  assumes "view c = Inr s"
  shows "put_view (in_ctx (GPR s) (currentProgramCounter s) b) c =
     c\<lparr>mc_base := b\<lparr>GPR := GPR (mc_base c), currentProgramCounter := currentProgramCounter (mc_base c)\<rparr>\<rparr>"
proof -
  have "unat (mc_currentCtx c) < length (mc_ctx c)" by (rule view_inD[OF assms])
  then have "(mc_ctx c)[unat (mc_currentCtx c) := (mc_ctx c ! unat (mc_currentCtx c))\<lparr>cx_GPR := GPR s, cx_currentProgramCounter := currentProgramCounter s\<rparr>] = mc_ctx c"
    using assms by (auto simp: view_def bnd_eq_Inr arr_get_eq_Inr list_update_id)
  then show ?thesis by (simp add: put_view_def in_ctx_def Let_def)
qed

text \<open>A load and a store that are not of a register of the core are those of the unit on the shared members.\<close>

lemma base_kept: "mmu_only s b \<Longrightarrow> b\<lparr>GPR := GPR s, currentProgramCounter := currentProgramCounter s\<rparr> = b" for s :: "'b rv64core"
proof -
  assume "mmu_only s b"
  then have "GPR b = GPR s" "currentProgramCounter b = currentProgramCounter s" by (simp_all add: mmu_only_core)
  then show ?thesis by (cases b) auto
qed

lemma memRead_shared:
  assumes v: "view c = Inr s" and a: "a mod n = 0" "a \<noteq> CTX_ID_REG_MMIO" "a \<noteq> PUTC_MMIO"
  shows "mc_memRead vt a n c = bnd (mc_mmu_load vt c a n) (\<lambda>(va_err, b, c').
    if va_err = FB_SUCCESS then Inr (True, b, c')
    else guard (access_feedback va_err exec_load_acc_fault exec_load_misalign exec_load_pgfault \<noteq> exec_ok) mc_raiseTrap)"
proof (cases "mmu_load vt (mc_base c) a n")
  case (Inl e)
  then have "mmu_load vt s a n = Inl e" by (subst view_in_ctx[OF v]) (simp add: in_ctx)
  with Inl show ?thesis using a by (simp add: mc_memRead_def mc_mmu_load_def on_base2_def v)
next
  case (Inr r)
  then obtain fb b s1 where r: "mmu_load vt (mc_base c) a n = Inr (fb, b, s1)" by (cases r) auto
  then have l: "mmu_load vt s a n = Inr (fb, b, in_ctx (GPR s) (currentProgramCounter s) s1)"
    by (subst view_in_ctx[OF v]) (simp add: in_ctx)
  have "put_view (in_ctx (GPR s) (currentProgramCounter s) s1) c = c\<lparr>mc_base := s1\<rparr>"
    using put_view_in_ctx[OF v, of s1] base_kept[OF mmu_load_frame[OF r]] by simp
  then show ?thesis using a l r by (simp add: mc_memRead_def mc_mmu_load_def on_base2_def v)
qed

lemma memWrite_shared:
  assumes v: "view c = Inr s" and a: "a mod of_nat (length bs) = 0" "a \<noteq> CTX_ID_REG_MMIO" "a \<noteq> PUTC_MMIO"
  shows "mc_memWrite vt a bs c = bnd (mc_mmu_store vt c a bs) (\<lambda>(va_err, c').
    if va_err = FB_SUCCESS then Inr (True, c')
    else guard (access_feedback va_err exec_store_acc_fault exec_store_misalign exec_store_pgfault \<noteq> exec_ok) mc_raiseTrap)"
proof (cases "mmu_store vt (mc_base c) a bs")
  case (Inl e)
  then have "mmu_store vt s a bs = Inl e" by (subst view_in_ctx[OF v]) (simp add: in_ctx)
  with Inl show ?thesis using a by (simp add: mc_memWrite_def mc_mmu_store_def on_base_def v)
next
  case (Inr r)
  then obtain fb s1 where r: "mmu_store vt (mc_base c) a bs = Inr (fb, s1)" by (cases r) auto
  then have l: "mmu_store vt s a bs = Inr (fb, in_ctx (GPR s) (currentProgramCounter s) s1)"
    by (subst view_in_ctx[OF v]) (simp add: in_ctx)
  have "put_view (in_ctx (GPR s) (currentProgramCounter s) s1) c = c\<lparr>mc_base := s1\<rparr>"
    using put_view_in_ctx[OF v, of s1] base_kept[OF mmu_store_frame[OF r]] by simp
  then show ?thesis using a l r by (simp add: mc_memWrite_def mc_mmu_store_def on_base_def v)
qed

section \<open>Properties\<close>

text \<open>
  C8. The contexts share one memory and one translation: a load or a store of an address that is not a register of the core,
  made in another context of the core, returns the same bytes and leaves the bus, the lookaside buffer and every other
  shared member the same, whatever the registers of the two contexts hold.
\<close>

theorem minicpu_contexts_share_memory:
  assumes "mc_ok c" and "unat i < NR_CTX" and "a \<noteq> CTX_ID_REG_MMIO" and "a \<noteq> PUTC_MMIO"
  shows "(mc_memRead vt a n c = Inr (ok, b, c') \<longrightarrow>
       mc_memRead vt a n (c\<lparr>mc_currentCtx := i\<rparr>) = Inr (ok, b, c'\<lparr>mc_currentCtx := i\<rparr>))
     \<and> (mc_memWrite vt a bs c = Inr (ok, c') \<longrightarrow>
       mc_memWrite vt a bs (c\<lparr>mc_currentCtx := i\<rparr>) = Inr (ok, c'\<lparr>mc_currentCtx := i\<rparr>))"
proof (intro conjI impI)
  let ?c = "c\<lparr>mc_currentCtx := i\<rparr>"
  have "mc_ok ?c" using assms(1,2) by (simp add: mc_ok_def)
  then obtain s s' where v: "view c = Inr s" "view ?c = Inr s'" using assms(1) by (metis view_in)
  assume r: "mc_memRead vt a n c = Inr (ok, b, c')"
  then have a: "a mod n = 0" by (auto simp: mc_memRead_def mc_raiseTrap_def split: if_splits)
  show "mc_memRead vt a n ?c = Inr (ok, b, c'\<lparr>mc_currentCtx := i\<rparr>)"
    using r unfolding memRead_shared[OF v(1) a assms(3,4)] memRead_shared[OF v(2) a assms(3,4)]
    by (auto simp: mc_mmu_load_def on_base2_def bnd_eq_Inr mc_raiseTrap_def guard_eq_Inr split: if_splits)
next
  let ?c = "c\<lparr>mc_currentCtx := i\<rparr>"
  have "mc_ok ?c" using assms(1,2) by (simp add: mc_ok_def)
  then obtain s s' where v: "view c = Inr s" "view ?c = Inr s'" using assms(1) by (metis view_in)
  assume w: "mc_memWrite vt a bs c = Inr (ok, c')"
  then have a: "a mod of_nat (length bs) = 0" by (auto simp: mc_memWrite_def mc_raiseTrap_def split: if_splits)
  show "mc_memWrite vt a bs ?c = Inr (ok, c'\<lparr>mc_currentCtx := i\<rparr>)"
    using w unfolding memWrite_shared[OF v(1) a assms(3,4)] memWrite_shared[OF v(2) a assms(3,4)]
    by (auto simp: mc_mmu_store_def on_base_def bnd_eq_Inr mc_raiseTrap_def guard_eq_Inr split: if_splits)
qed

text \<open>A word read by context 2 and by context 1.\<close>

theorem minicpu_contexts_share_memory_witness:
  "\<exists>b c'. mc_memRead (rom_vt 0x00500093) 0x1000 4 (mini_core 2) = Inr (True, b, c')
     \<and> mc_memRead (rom_vt 0x00500093) 0x1000 4 (mini_core 1) = Inr (True, b, c'\<lparr>mc_currentCtx := 1\<rparr>)"
proof -
  have "case mc_memRead (rom_vt 0x00500093) 0x1000 4 (mini_core 2) of Inr (ok, _, _) \<Rightarrow> ok | Inl _ \<Rightarrow> False" by code_simp
  then obtain b c' where r: "mc_memRead (rom_vt 0x00500093) 0x1000 4 (mini_core 2) = Inr (True, b, c')"
    by (auto split: sum.split_asm)
  have "mc_ok (mini_core 2)" "unat (1 :: u64) < NR_CTX" "(0x1000 :: u64) \<noteq> CTX_ID_REG_MMIO" "(0x1000 :: u64) \<noteq> PUTC_MMIO"
    by (simp_all add: mc_ok_def mini_core_def NR_CTX_def CTX_ID_REG_MMIO_def PUTC_MMIO_def)
  from minicpu_contexts_share_memory [OF this] r show ?thesis by (auto simp: mini_core_def)
qed

end
