(* ===== verification/UartRx.thy ===== *)
theory UartRx
  imports Waveform Uartlite Peripherals
begin

text \<open>
  The two serial ports around a receiver in hardware: \<open>UartRTL\<close> of \<open>modules/device/uartlite_rtl\<close>, with the registers of
  \<open>Uartlite\<close>, and \<open>UartRTL\<close> of \<open>modules/device/uart_rtl\<close>, whose registers are pins of the receiver behind an \<open>SRAMAdapter\<close>. The
  class \<open>VUartRx\<close> is generated by Verilator and is a parameter. Its Verilog, \<open>uartlite_rtl/rtl/UartRx.v\<close>, is translated
  below into an instance, so that what the encoder sends can be followed into the queue of the port.
\<close>

section \<open>The generated class\<close>

record 'm vuart_rx =
  new_VUartRx :: 'm
  rx_eval :: "'m \<Rightarrow> 'm"
  set_IO_Rx_I :: "u8 \<Rightarrow> 'm \<Rightarrow> 'm"
  set_IO_Rst_I :: "u8 \<Rightarrow> 'm \<Rightarrow> 'm"
  set_IO_Clk_I :: "u8 \<Rightarrow> 'm \<Rightarrow> 'm"
  IO_Clk_I :: "'m \<Rightarrow> u8"
  IO_RxDone_O :: "'m \<Rightarrow> u8"
  IO_RxData_O :: "'m \<Rightarrow> u8"

section \<open>The port with the registers of \<open>Uartlite\<close>\<close>

text \<open>\<open>ur_regs\<close> are the members that are those of \<open>Uartlite\<close>; the input thread does nothing.\<close>

record 'm uart_rtl =
  ur_regs :: uartlite
  ur_rx :: 'm

definition new_UartRTL :: "'m vuart_rx \<Rightarrow> wire_signal \<Rightarrow> u64 \<Rightarrow> 'm uart_rtl res" where
  "new_UartRTL vt sigUartRx dev_size =
     bnd (getBit 0 sigUartRx) (\<lambda>v.
       let m = rx_eval vt (set_IO_Clk_I vt 1 (set_IO_Rst_I vt 0 (set_IO_Rx_I vt v (new_VUartRx vt))));
           m = rx_eval vt (set_IO_Clk_I vt 0 (set_IO_Rst_I vt 1 m)) in
       Inr \<lparr>ur_regs = uart_new dev_size, ur_rx = m\<rparr>)"

definition rtl_tick :: "'m vuart_rx \<Rightarrow> ('w \<Rightarrow> u32 \<Rightarrow> bool \<Rightarrow> 'w res) option \<Rightarrow> wire_signal \<Rightarrow> 'm uart_rtl \<Rightarrow> 'w
    \<Rightarrow> (u8 list \<times> 'm uart_rtl \<times> 'w) res" where
  "rtl_tick vt intc sigUartRx u w =
     bnd (case intc of Some setInt \<Rightarrow> setInt w 2 (hasIRQ (ur_regs u)) | None \<Rightarrow> Inr w) (\<lambda>w.
       let (out, ack) = uart_drain (u_tx (ur_regs u)) (u_waitACK (ur_regs u));
           regs = (ur_regs u)\<lparr>u_tx := [], u_waitACK := ack\<rparr>;
           m = set_IO_Clk_I vt (if IO_Clk_I vt (ur_rx u) = 0 then 1 else 0) (ur_rx u) in
       bnd (getBit 0 sigUartRx) (\<lambda>v.
         let m = rx_eval vt (set_IO_Rx_I vt v m);
             regs = (if IO_RxDone_O vt m \<noteq> 0 \<and> IO_Clk_I vt m \<noteq> 0 then regs\<lparr>u_rx := u_rx regs @ [IO_RxData_O vt m]\<rparr> else regs) in
         Inr (out, \<lparr>ur_regs = regs, ur_rx = m\<rparr>, w)))"

text \<open>
  The text of the accesses is that of \<open>Uartlite\<close>, but that a load outside the registers is an assertion here.
\<close>

definition rtl_load :: "'m uart_rtl load_fn" where
  "rtl_load u addr len =
     (if u_devSize (ur_regs u) = 0 then Inl Undefined
      else if addr mod u_devSize (ur_regs u) + len > 16 then Inl AssertFail
      else bnd (uart_load (ur_regs u) addr len) (\<lambda>(fb, b, regs). Inr (fb, b, u\<lparr>ur_regs := regs\<rparr>)))"

definition rtl_store :: "'m uart_rtl store_fn" where
  "rtl_store u addr buffer = bnd (uart_store (ur_regs u) addr buffer) (\<lambda>(fb, regs). Inr (fb, u\<lparr>ur_regs := regs\<rparr>))"

interpretation ur: slave rtl_load rtl_store "\<lambda>u. uart_wf (ur_regs u)"
proof unfold_locales
  fix s s' :: "'a uart_rtl" and a n fb b
  assume "uart_wf (ur_regs s)" "rtl_load s a n = Inr (fb, b, s')"
  then show "uart_wf (ur_regs s')" by (auto simp: rtl_load_def bnd_eq_Inr dest: ua.load_wf split: if_splits)
next
  fix s s' :: "'a uart_rtl" and a fb bs
  assume "uart_wf (ur_regs s)" "rtl_store s a bs = Inr (fb, s')"
  then show "uart_wf (ur_regs s')" by (auto simp: rtl_store_def bnd_eq_Inr dest: ua.store_wf)
next
  fix s s' :: "'a uart_rtl" and a n fb bs
  assume "uart_wf (ur_regs s)" "rtl_load s a n = Inr (fb, Some bs, s')"
  then show "length bs = unat n" by (auto simp: rtl_load_def bnd_eq_Inr dest: ua.load_length split: if_splits)
qed

section \<open>The port whose registers are pins\<close>

record 'm vuart_rx_pins = "'m vuart_rx" +
  IO_RxRecvDone_I :: "'m \<Rightarrow> u8"
  set_IO_RxRecvDone_I :: "u8 \<Rightarrow> 'm \<Rightarrow> 'm"
  set_IO_RxDone_O :: "u8 \<Rightarrow> 'm \<Rightarrow> 'm"
  set_IO_RxData_O :: "u8 \<Rightarrow> 'm \<Rightarrow> 'm"

text \<open>The window of the adapter: three bytes of the receiver. The pointers are numbered 0, 1 and 2.\<close>

definition pin_window :: "'m vuart_rx_pins \<Rightarrow> 'm \<Rightarrow> sram" where
  "pin_window vt m =
     regAddr 2 2 1 (regAddr 1 1 1 (regAddr 0 0 1 (sram_new
       (\<lambda>p. if p = 0 then IO_RxDone_O vt m else if p = 1 then IO_RxData_O vt m else IO_RxRecvDone_I vt m))))"

definition new_pin_port :: "'m vuart_rx_pins \<Rightarrow> wire_signal \<Rightarrow> 'm res" where
  "new_pin_port vt sigUartRx =
     bnd (getBit 0 sigUartRx) (\<lambda>v.
       let m = rx_eval vt (set_IO_Clk_I vt 1 (set_IO_RxRecvDone_I vt 0 (set_IO_Rst_I vt 0 (set_IO_Rx_I vt v (new_VUartRx vt))))) in
       Inr (rx_eval vt (set_IO_Clk_I vt 0 (set_IO_Rst_I vt 1 m))))"

definition pin_tick :: "'m vuart_rx_pins \<Rightarrow> wire_signal \<Rightarrow> 'm \<Rightarrow> 'm res" where
  "pin_tick vt sigUartRx m =
     (let m = set_IO_Clk_I vt (if IO_Clk_I vt m = 0 then 1 else 0) m in
      bnd (getBit 0 sigUartRx) (\<lambda>v. Inr (rx_eval vt (set_IO_Rx_I vt v m))))"

definition pin_load :: "'m vuart_rx_pins \<Rightarrow> 'm load_fn" where
  "pin_load vt m begin_addr len = bnd (sram_load (pin_window vt m) begin_addr len) (\<lambda>(fb, b, _). Inr (fb, b, m))"

text \<open>A store writes the bytes behind the pointers, those of outputs included; the receiver is evaluated in any case.\<close>

definition pin_store :: "'m vuart_rx_pins \<Rightarrow> 'm store_fn" where
  "pin_store vt m begin_addr buffer =
     bnd (sram_store (pin_window vt m) begin_addr buffer) (\<lambda>(fb, s).
       let h = host s;
           m = (if fb = FB_SUCCESS then set_IO_RxRecvDone_I vt (h 2) (set_IO_RxData_O vt (h 1) (set_IO_RxDone_O vt (h 0) m)) else m) in
       Inr (fb, rx_eval vt m))"

interpretation pin: slave "pin_load vt" "pin_store vt" "\<lambda>_. True" for vt
  by unfold_locales (auto simp: pin_load_def sram_load_def bnd_eq_Inr split: if_splits)

lemma pin_window_map: "addrRegMap (pin_window vt m) = [0 \<mapsto> 0, 1 \<mapsto> 1, 2 \<mapsto> 2]"
  by (simp add: pin_window_def regAddr_def sram_new_def numeral_2_eq_2)

text \<open>The registers that a guest reads: the flag of a received byte and the byte. Nothing else is a register.\<close>

lemma pin_load_done_data: "pin_load vt m 0 2 = Inr (FB_SUCCESS, Some [IO_RxDone_O vt m, IO_RxData_O vt m], m)"
proof -
  have "[0..<2] = [0, 1 :: nat]" by (simp add: upt_conv_Cons)
  then show ?thesis
    by (simp add: pin_load_def sram_load_def sram_check_def sram_ptr_def pin_window_map)
      (simp add: pin_window_def regAddr_def sram_new_def)
qed

lemma pin_out_of_range: "2 < a \<Longrightarrow> 0 < n \<Longrightarrow> pin_load vt m a n = Inr (FB_OUT_OF_RANGE, None, m)"
proof -
  assume "2 < a" "0 < n"
  then have "a \<noteq> 0" "a \<noteq> 1" "a \<noteq> 2" "0 < unat n" by (auto simp: unat_gt_0)
  then have "\<not> sram_check (pin_window vt m) a (unat n)"
    by (auto simp: sram_check_def list_all_iff pin_window_map intro!: bexI[of _ 0])
  then show ?thesis by (simp add: pin_load_def sram_load_def)
qed

section \<open>The receiver\<close>

text \<open>
  \<open>UartRx.v\<close>. \<open>per\<close> is \<open>Param_ClkPerBit\<close>; \<open>Param_PayloadBits\<close> is 8. The counters never exceed \<open>per\<close> and 8 (lemma \<open>counters_fit\<close>), for which
  their registers have the width, so they are natural numbers.
\<close>

datatype rx_fsm = RX_IDLE | RX_START | RX_DATA | RX_STOP

record rx_regs =
  fsm_state :: rx_fsm
  clk_counter :: nat
  bit_counter :: nat
  recv_bit_0 :: bool
  recv_bit_1 :: bool
  rx_done :: bool
  recv_data :: u8

definition rx_reset :: rx_regs where
  "rx_reset = \<lparr>fsm_state = RX_IDLE, clk_counter = 0, bit_counter = 0, recv_bit_0 = False, recv_bit_1 = False,
     rx_done = False, recv_data = 0\<rparr>"

definition set_bit_to :: "nat \<Rightarrow> bool \<Rightarrow> u8 \<Rightarrow> u8" where
  "set_bit_to k v x = (if v then x OR push_bit k 1 else x AND NOT (push_bit k 1))"

lemma bit_set_bit_to: "bit (set_bit_to k v x) j \<longleftrightarrow> (if j = k \<and> k < 8 then v else bit x j)"
  by (auto simp: set_bit_to_def bit_simps dest: bit_imp_le_length)

text \<open>A rising edge of the clock, with the level of the line: every register from the values before the edge.\<close>

definition rx_posedge :: "nat \<Rightarrow> bool \<Rightarrow> rx_regs \<Rightarrow> rx_regs" where
  "rx_posedge per line r =
     (let start_mid = (fsm_state r = RX_START \<and> clk_counter r = per div 2);
          data_mid = (fsm_state r = RX_DATA \<and> clk_counter r = per);
          stop_mid = (fsm_state r = RX_STOP \<and> clk_counter r = per);
          upto = (\<lambda>n. if clk_counter r < n then clk_counter r + 1 else 0) in
      \<lparr>fsm_state = (case fsm_state r of
           RX_IDLE \<Rightarrow> if \<not> recv_bit_1 r then RX_START else RX_IDLE
         | RX_START \<Rightarrow> if start_mid then (if \<not> recv_bit_1 r then RX_DATA else RX_IDLE) else RX_START
         | RX_DATA \<Rightarrow> if bit_counter r = 8 then RX_STOP else RX_DATA
         | RX_STOP \<Rightarrow> if stop_mid then RX_IDLE else RX_STOP),
       clk_counter = (case fsm_state r of
           RX_IDLE \<Rightarrow> 0 | RX_START \<Rightarrow> upto (per div 2) | RX_DATA \<Rightarrow> upto per | RX_STOP \<Rightarrow> upto per),
       bit_counter = (case fsm_state r of
           RX_IDLE \<Rightarrow> 0
         | RX_DATA \<Rightarrow> if data_mid then (if bit_counter r < 8 then bit_counter r + 1 else 0) else bit_counter r
         | _ \<Rightarrow> bit_counter r),
       recv_bit_0 = line, recv_bit_1 = recv_bit_0 r, rx_done = stop_mid,
       recv_data = (if data_mid then set_bit_to (bit_counter r mod 8) (recv_bit_1 r) (recv_data r) else recv_data r)\<rparr>)"

text \<open>The receiver after \<open>t\<close> edges, and the bytes it has reported by then.\<close>

fun rx_at :: "nat \<Rightarrow> (nat \<Rightarrow> bool) \<Rightarrow> nat \<Rightarrow> rx_regs" where
  "rx_at per line 0 = rx_reset"
| "rx_at per line (Suc t) = rx_posedge per (line t) (rx_at per line t)"

definition rx_bytes :: "nat \<Rightarrow> (nat \<Rightarrow> bool) \<Rightarrow> nat \<Rightarrow> u8 list" where
  "rx_bytes per line t = concat (map (\<lambda>i. if rx_done (rx_at per line (Suc i)) then [recv_data (rx_at per line (Suc i))] else []) [0..<t])"

lemma counters_fit: "clk_counter (rx_at per line t) \<le> per \<and> bit_counter (rx_at per line t) \<le> 8"
  by (induction t) (auto simp: rx_reset_def rx_posedge_def Let_def split: rx_fsm.split)

section \<open>One frame\<close>

lemma recv_bits: "recv_bit_0 (rx_at per line (Suc t)) = line t" "recv_bit_1 (rx_at per line (Suc (Suc t))) = line t"
  by (simp_all add: rx_posedge_def Let_def)

lemma recv_1: "2 \<le> t \<Longrightarrow> recv_bit_1 (rx_at per line t) = line (t - 2)"
  using recv_bits(2)[of per line "t - 2"] by (simp add: numeral_2_eq_2 Suc_diff_Suc del: rx_at.simps)

text \<open>The state of the machine at an edge, and the edges after which a byte is reported.\<close>

definition rx_in :: "nat \<Rightarrow> (nat \<Rightarrow> bool) \<Rightarrow> rx_fsm \<Rightarrow> nat \<Rightarrow> nat \<Rightarrow> nat \<Rightarrow> bool" where
  "rx_in per line st c j t \<longleftrightarrow>
     fsm_state (rx_at per line t) = st \<and> clk_counter (rx_at per line t) = c \<and> bit_counter (rx_at per line t) = j"

definition reports :: "nat \<Rightarrow> (nat \<Rightarrow> bool) \<Rightarrow> nat \<Rightarrow> bool" where
  "reports per line t \<longleftrightarrow> fsm_state (rx_at per line t) = RX_STOP \<and> clk_counter (rx_at per line t) = per"

lemma done_reports: "rx_done (rx_at per line (Suc t)) = reports per line t"
  by (simp add: rx_posedge_def reports_def Let_def)

lemma rx_bytes_Suc:
  "rx_bytes per line (Suc t) = rx_bytes per line t @ (if reports per line t then [recv_data (rx_at per line (Suc t))] else [])"
  by (simp add: rx_bytes_def done_reports del: rx_at.simps)

lemma rx_bytes_quiet: "a \<le> b \<Longrightarrow> (\<And>t. a \<le> t \<Longrightarrow> t < b \<Longrightarrow> \<not> reports per line t) \<Longrightarrow> rx_bytes per line b = rx_bytes per line a"
proof (induction b)
  case (Suc b)
  then show ?case by (cases "a = Suc b") (auto simp: rx_bytes_Suc)
qed simp

lemma idle_run:
  assumes "fsm_state (rx_at per line a) = RX_IDLE" and "2 \<le> a" and "\<And>t. a \<le> t + 2 \<Longrightarrow> t + 2 < a + n \<Longrightarrow> line t"
  shows "i \<le> n \<Longrightarrow> fsm_state (rx_at per line (a + i)) = RX_IDLE"
proof (induction i)
  case (Suc i)
  have "recv_bit_1 (rx_at per line (a + i))" using assms(2) assms(3)[of "a + i - 2"] Suc.prems by (simp add: recv_1)
  then show ?case using Suc by (simp add: rx_posedge_def Let_def)
qed (use assms(1) in simp)

lemma start_run: "rx_in per line RX_START 0 j t \<Longrightarrow> i \<le> per div 2 \<Longrightarrow> rx_in per line RX_START i j (t + i)"
proof (induction i)
  case (Suc i)
  then show ?case by (simp add: rx_in_def rx_posedge_def Let_def)
qed simp

lemma start_end:
  "rx_in per line RX_START (per div 2) j t \<Longrightarrow> \<not> recv_bit_1 (rx_at per line t) \<Longrightarrow> rx_in per line RX_DATA 0 j (Suc t)"
  "rx_in per line RX_START (per div 2) j t \<Longrightarrow> recv_bit_1 (rx_at per line t) \<Longrightarrow> rx_in per line RX_IDLE 0 j (Suc t)"
  by (simp_all add: rx_in_def rx_posedge_def Let_def)

lemma data_run:
  "rx_in per line RX_DATA 0 j t \<Longrightarrow> j < 8 \<Longrightarrow> i \<le> per \<Longrightarrow>
   rx_in per line RX_DATA i j (t + i) \<and> recv_data (rx_at per line (t + i)) = recv_data (rx_at per line t)"
proof (induction i)
  case (Suc i)
  then show ?case by (simp add: rx_in_def rx_posedge_def Let_def)
qed simp

lemma data_bit_step:
  assumes "rx_in per line RX_DATA 0 j t" and "j < 8" and "2 \<le> t"
  shows "rx_in per line RX_DATA 0 (Suc j) (t + (per + 1))
    \<and> recv_data (rx_at per line (t + (per + 1))) = set_bit_to j (line (t + per - 2)) (recv_data (rx_at per line t))"
  using data_run[OF assms(1,2), of per] assms(2) recv_1[of "t + per" per line] assms(3)
  by (simp add: rx_in_def rx_posedge_def Let_def)

lemma data_bits:
  assumes "rx_in per line RX_DATA 0 0 D" and "2 \<le> D"
  shows "k \<le> 8 \<Longrightarrow> rx_in per line RX_DATA 0 k (D + k * (per + 1))
    \<and> (\<forall>j < k. bit (recv_data (rx_at per line (D + k * (per + 1)))) j = line (D + j * (per + 1) + per - 2))"
proof (induction k)
  case (Suc k)
  then have "rx_in per line RX_DATA 0 k (D + k * (per + 1))" "k < 8" by simp_all
  note st = data_bit_step[OF this, THEN conjunct1] data_bit_step[OF this, THEN conjunct2]
  have t: "D + Suc k * (per + 1) = D + k * (per + 1) + (per + 1)" by simp
  show ?case
    unfolding t using st Suc assms(2) by (auto simp: bit_set_bit_to less_Suc_eq simp del: rx_at.simps add_Suc_right)
qed (use assms(1) in simp)

lemma stop_run:
  assumes "rx_in per line RX_DATA 0 8 t" and "0 < per"
  shows "1 \<le> i \<Longrightarrow> i \<le> per \<Longrightarrow> rx_in per line RX_STOP i 8 (t + i) \<and> recv_data (rx_at per line (t + i)) = recv_data (rx_at per line t)"
proof (induction i)
  case (Suc i)
  then show ?case using assms by (cases "i = 0") (simp_all add: rx_in_def rx_posedge_def Let_def)
qed simp

text \<open>The line during a frame whose start bit begins at \<open>e\<close>, the idle bit behind it included.\<close>

definition frame_line :: "nat \<Rightarrow> (nat \<Rightarrow> bool) \<Rightarrow> u8 \<Rightarrow> nat \<Rightarrow> bool" where
  "frame_line per line b e \<longleftrightarrow>
     (\<forall>t. e \<le> t + 2 \<and> t < e \<longrightarrow> line t) \<and> (\<forall>t. e \<le> t \<and> t < e + per \<longrightarrow> \<not> line t)
     \<and> (\<forall>k < 8. \<forall>t. e + (k + 1) * per \<le> t \<and> t < e + (k + 2) * per \<longrightarrow> line t = bit b k)
     \<and> (\<forall>t. e + 9 * per \<le> t \<and> t < e + 11 * per \<longrightarrow> line t)"

lemma not_reports: "rx_in per line st c j t \<Longrightarrow> st \<noteq> RX_STOP \<or> c < per \<Longrightarrow> \<not> reports per line t"
  by (auto simp: rx_in_def reports_def)

text \<open>The start bit is recognised, and its middle is where the counting of the data bits begins.\<close>

lemma frame_start:
  assumes "32 \<le> per" and "fsm_state (rx_at per line e) = RX_IDLE" and "2 \<le> e" and f: "frame_line per line b e"
  shows "rx_in per line RX_DATA 0 0 (e + 4 + per div 2) \<and> (\<forall>t. e \<le> t \<and> t < e + 4 + per div 2 \<longrightarrow> \<not> reports per line t)"
proof -
  have l: "line t" if "e \<le> t + 2" "t < e" for t using f that by (auto simp: frame_line_def)
  have z: "\<not> line t" if "e \<le> t" "t < e + per" for t using f that by (auto simp: frame_line_def)
  have idle: "fsm_state (rx_at per line (e + i)) = RX_IDLE" if "i \<le> 2" for i
    using idle_run[OF assms(2,3), of 2 i] l that by simp
  have "\<not> recv_bit_1 (rx_at per line (e + 2))" using recv_1[of "e + 2" per line] z[of e] assms(1) by simp
  then have st: "rx_in per line RX_START 0 0 (e + 3)" using idle[of 2] by (simp add: rx_in_def rx_posedge_def Let_def numeral_3_eq_3 numeral_2_eq_2)
  have "\<not> recv_bit_1 (rx_at per line (e + 3 + per div 2))"
    using recv_1[of "e + 3 + per div 2" per line] z[of "e + 1 + per div 2"] assms(1) by simp
  then have "rx_in per line RX_DATA 0 0 (Suc (e + 3 + per div 2))"
    using start_run[OF st, of "per div 2"] start_end by blast
  moreover have "Suc (e + 3 + per div 2) = e + 4 + per div 2" by simp
  moreover have "\<not> reports per line t" if "e \<le> t" "t < e + 4 + per div 2" for t
  proof (cases "t < e + 3")
    case True
    then show ?thesis using idle[of "t - e"] that by (simp add: reports_def)
  next
    case False
    then have "t = e + 3 + (t - (e + 3))" "t - (e + 3) \<le> per div 2" using that by auto
    then show ?thesis using start_run[OF st] not_reports by (metis rx_fsm.distinct(9))
  qed
  ultimately show ?thesis by metis
qed

text \<open>The eight samples are in the eight data bits, however the counter drifts: it is one edge late for each bit.\<close>

lemma frame_data:
  assumes "32 \<le> per" and "rx_in per line RX_DATA 0 0 D" and D: "D = e + 4 + per div 2" and f: "frame_line per line b e"
  shows "rx_in per line RX_DATA 0 8 (D + 8 * (per + 1)) \<and> recv_data (rx_at per line (D + 8 * (per + 1))) = b
     \<and> (\<forall>t. D \<le> t \<and> t < D + 8 * (per + 1) \<longrightarrow> \<not> reports per line t)"
proof (intro conjI allI impI)
  have D2: "2 \<le> D" using D by simp
  note ds = data_bits[OF assms(2) D2]
  show "rx_in per line RX_DATA 0 8 (D + 8 * (per + 1))" using ds[of 8] by simp
  have b: "line (D + j * (per + 1) + per - 2) = bit b j" if "j < 8" for j
  proof -
    have "D + j * (per + 1) + per - 2 = e + (j + 1) * per + (2 + per div 2 + j)" using D by (simp add: algebra_simps)
    moreover have "2 + per div 2 + j < per" using that assms(1) by linarith
    ultimately show ?thesis using f that by (simp add: frame_line_def)
  qed
  show "recv_data (rx_at per line (D + 8 * (per + 1))) = b"
  proof (rule bit_word_eqI)
    fix n assume "n < LENGTH(8)"
    then show "bit (recv_data (rx_at per line (D + 8 * (per + 1)))) n = bit b n" using ds[of 8] b[of n] by simp
  qed
  fix t assume t: "D \<le> t \<and> t < D + 8 * (per + 1)"
  define k i where "k = (t - D) div (per + 1)" and "i = (t - D) mod (per + 1)"
  have "t - D < 8 * (per + 1)" using t by linarith
  then have "k < 8" unfolding k_def by (rule less_mult_imp_div_less)
  moreover have "i \<le> per" using mod_less_divisor[of "per + 1" "t - D"] by (simp add: i_def)
  moreover have "t = D + k * (per + 1) + i"
    using t div_mult_mod_eq[of "t - D" "per + 1"] unfolding k_def i_def by linarith
  ultimately have "rx_in per line RX_DATA i k t" using data_run[OF ds[of k, THEN conjunct1], of i] by simp
  then show "\<not> reports per line t" by (rule not_reports) simp
qed

lemma frame_received:
  assumes "32 \<le> per" and "fsm_state (rx_at per line e) = RX_IDLE" and "2 \<le> e" and f: "frame_line per line b e"
  shows "fsm_state (rx_at per line (e + 11 * per)) = RX_IDLE \<and> rx_bytes per line (e + 11 * per) = rx_bytes per line e @ [b]"
proof -
  define D T where "D = e + 4 + per div 2" and "T = D + 8 * (per + 1)"
  note st = frame_start[OF assms]
  have D: "rx_in per line RX_DATA 0 0 D" using st by (simp add: D_def)
  note dt = frame_data[OF assms(1) D D_def f, folded T_def]
  have per: "0 < per" using assms(1) by simp
  note sp = stop_run[OF dt[THEN conjunct1] per]
  have q1: "\<not> reports per line t" if "e \<le> t" "t < T + per" for t
  proof -
    consider "t < D" | "D \<le> t" "t < T" | "t = T" | "T < t" using that by linarith
    then show ?thesis
    proof cases
      case 1 then show ?thesis using st that by (simp add: D_def)
    next
      case 2 then show ?thesis using dt by blast
    next
      case 3 then show ?thesis using dt not_reports by blast
    next
      case 4 then show ?thesis using sp[of "t - T"] that by (intro not_reports[of per line RX_STOP "t - T" 8]) auto
    qed
  qed
  have R: "rx_in per line RX_STOP per 8 (T + per)" "recv_data (rx_at per line (T + per)) = b"
    using sp[of per] assms(1) dt by auto
  have rep: "reports per line (T + per)" using R(1) by (simp add: rx_in_def reports_def)
  have a: "fsm_state (rx_at per line (Suc (T + per))) = RX_IDLE" "recv_data (rx_at per line (Suc (T + per))) = b"
    using R by (simp_all add: rx_in_def rx_posedge_def Let_def)
  have "rx_bytes per line (T + per) = rx_bytes per line e"
    by (rule rx_bytes_quiet) (use q1 in \<open>auto simp: T_def D_def\<close>)
  then have by1: "rx_bytes per line (Suc (T + per)) = rx_bytes per line e @ [b]" using rep a(2) by (simp add: rx_bytes_Suc del: rx_at.simps)
  have high: "line t" if "e + 9 * per \<le> t" "t < e + 11 * per" for t using f that by (auto simp: frame_line_def)
  have F: "Suc (T + per) = e + 9 * per + per div 2 + 13" by (simp add: T_def D_def)
  have idle: "fsm_state (rx_at per line (Suc (T + per) + i)) = RX_IDLE" if "i \<le> e + 11 * per - Suc (T + per)" for i
  proof (rule idle_run[OF a(1) _ _ that])
    show "2 \<le> Suc (T + per)" using F by simp
    fix t assume "Suc (T + per) \<le> t + 2" "t + 2 < Suc (T + per) + (e + 11 * per - Suc (T + per))"
    then show "line t" using F assms(1) by (intro high) linarith+
  qed
  have le: "Suc (T + per) \<le> e + 11 * per" using F assms(1) by linarith
  then have "fsm_state (rx_at per line (e + 11 * per)) = RX_IDLE"
    using idle[OF order.refl] unfolding le_add_diff_inverse[OF le] by simp
  moreover have "rx_bytes per line (e + 11 * per) = rx_bytes per line (Suc (T + per))"
  proof (rule rx_bytes_quiet[OF le])
    fix t assume "Suc (T + per) \<le> t" "t < e + 11 * per"
    then show "\<not> reports per line t" using idle[of "t - Suc (T + per)"] by (simp add: reports_def)
  qed
  ultimately show ?thesis using by1 by simp
qed

section \<open>The wave of the encoder\<close>

definition wave_line :: "nat \<Rightarrow> u8 list \<Rightarrow> nat \<Rightarrow> bool" where
  "wave_line per data t = (wave data ! (t div per) = 1)"

lemma length_frame_bits [simp]: "length (frame_bits b) = 11"
  by (simp add: frame_bits_def)

lemma wave_nth: "m < length data \<Longrightarrow> q < 11 \<Longrightarrow> wave data ! (11 * m + q) = frame_bits (data ! m) ! q"
proof (induction data arbitrary: m)
  case (Cons b data)
  have w: "wave (b # data) = frame_bits b @ wave data" by (simp add: wave_def)
  show ?case
  proof (cases m)
    case 0
    then show ?thesis using Cons.prems by (simp add: w nth_append)
  next
    case (Suc k)
    then have "11 * m + q = 11 + (11 * k + q)" by simp
    then show ?thesis using Cons Suc by (simp add: w nth_append)
  qed
qed simp

lemma wave_end: "wave data ! (11 * length data) = 1"
proof -
  have "length (concat (map frame_bits data)) = 11 * length data" by (induction data) simp_all
  then show ?thesis by (simp add: wave_def nth_append)
qed

lemma div_per: "q * per \<le> t \<Longrightarrow> t < (q + 1) * per \<Longrightarrow> t div per = q" for per :: nat
  by (metis Suc_eq_plus1 div_nat_eqI mult.commute)

text \<open>The level in the \<open>q\<close>-th bit time of the \<open>m\<close>-th byte, and behind the last.\<close>

lemma wave_line_bit:
  assumes "m < length data" and "q < 11" and "(11 * m + q) * per \<le> t" and "t < (11 * m + q + 1) * per"
  shows "wave_line per data t = (frame_bits (data ! m) ! q = 1)"
  using wave_nth[OF assms(1,2)] div_per[OF assms(3,4)] by (simp add: wave_line_def)

lemma frame_bit_levels:
  "frame_bits b ! 0 = 1" "frame_bits b ! 1 = 0" "k < 8 \<Longrightarrow> frame_bits b ! (k + 2) = (if bit b k then 1 else 0)" "frame_bits b ! 10 = 1"
proof -
  show "k < 8 \<Longrightarrow> frame_bits b ! (k + 2) = (if bit b k then 1 else 0)"
    by (simp add: frame_bits_def nth_append)
qed (simp_all add: frame_bits_def nth_append)

lemma wave_idle: "m \<le> length data \<Longrightarrow> 11 * m * per \<le> t \<Longrightarrow> t < (11 * m + 1) * per \<Longrightarrow> wave_line per data t"
proof (cases "m = length data")
  case True
  assume "11 * m * per \<le> t" "t < (11 * m + 1) * per"
  then have "t div per = 11 * length data" using div_per[of "11 * m" per t] True by simp
  then show ?thesis by (simp add: wave_line_def wave_end)
next
  case False
  assume "m \<le> length data" "11 * m * per \<le> t" "t < (11 * m + 1) * per"
  then show ?thesis using False wave_line_bit[of m data 0 per t] frame_bit_levels(1) by simp
qed

lemma wave_frame:
  assumes m: "m < length data" and per: "32 \<le> per"
  shows "frame_line per (wave_line per data) (data ! m) ((11 * m + 1) * per)"
  unfolding frame_line_def
proof (intro conjI allI impI)
  fix t assume t: "(11 * m + 1) * per \<le> t + 2 \<and> t < (11 * m + 1) * per"
  then have "11 * m * per \<le> t" using per by (simp add: algebra_simps)
  then show "wave_line per data t" using wave_idle[of m data per t] m t by simp
next
  fix t assume "(11 * m + 1) * per \<le> t \<and> t < (11 * m + 1) * per + per"
  then have "(11 * m + 1) * per \<le> t" "t < (11 * m + 1 + 1) * per" by (simp_all add: algebra_simps)
  then show "\<not> wave_line per data t" using wave_line_bit[OF m, of 1 per t] frame_bit_levels(2) by simp
next
  fix k t :: nat
  assume k: "k < 8" and "(11 * m + 1) * per + (k + 1) * per \<le> t \<and> t < (11 * m + 1) * per + (k + 2) * per"
  then have "(11 * m + (k + 2)) * per \<le> t" "t < (11 * m + (k + 2) + 1) * per" by (simp_all add: algebra_simps)
  then show "wave_line per data t = bit (data ! m) k"
    using wave_line_bit[OF m, of "k + 2" per t] frame_bit_levels(3)[OF k, of "data ! m"] k by simp
next
  fix t assume t: "(11 * m + 1) * per + 9 * per \<le> t \<and> t < (11 * m + 1) * per + 11 * per"
  show "wave_line per data t"
  proof (cases "t < (11 * m + 11) * per")
    case True
    then have "(11 * m + 10) * per \<le> t" "t < (11 * m + 10 + 1) * per" using t by (simp_all add: algebra_simps)
    then show ?thesis using wave_line_bit[OF m, of 10 per t] frame_bit_levels(4) by simp
  next
    case False
    then have "11 * Suc m * per \<le> t" "t < (11 * Suc m + 1) * per" using t by (simp_all add: algebra_simps)
    then show ?thesis using wave_idle[of "Suc m" data per t] m by simp
  qed
qed

text \<open>
  The reset leaves the synchroniser low, so the receiver takes the idle line for a start bit at first; half a bit later
  it sees the line high and goes back.
\<close>

lemma first_idle:
  assumes per: "32 \<le> per" and l: "\<And>t. t < per \<Longrightarrow> line t"
  shows "fsm_state (rx_at per line per) = RX_IDLE \<and> rx_bytes per line per = []"
proof -
  let ?a = "Suc (1 + per div 2)"
  have st: "rx_in per line RX_START 0 0 1" by (simp add: rx_in_def rx_posedge_def rx_reset_def Let_def)
  have "recv_bit_1 (rx_at per line (1 + per div 2))" using recv_1[of "1 + per div 2" per line] l per by simp
  then have a: "fsm_state (rx_at per line ?a) = RX_IDLE"
    using start_end(2)[OF start_run[OF st order.refl]] by (simp add: rx_in_def)
  have idle: "fsm_state (rx_at per line (?a + i)) = RX_IDLE" if "i \<le> per - ?a" for i
    by (rule idle_run[OF a _ _ that]) (use per l in auto)
  have le: "?a \<le> per" using per by linarith
  have q: "\<not> reports per line t" if "t < per" for t
  proof -
    consider "t = 0" | "1 \<le> t" "t < ?a" | "?a \<le> t" using that by linarith
    then show ?thesis
    proof cases
      case 1 then show ?thesis by (simp add: reports_def rx_reset_def)
    next
      case 2
      then have "rx_in per line RX_START (t - 1) 0 (1 + (t - 1))" by (intro start_run[OF st]) linarith
      then show ?thesis using 2 by (intro not_reports[of per line RX_START "t - 1" 0]) simp_all
    next
      case 3
      then have "t - ?a \<le> per - ?a" using that by linarith
      from idle[OF this] show ?thesis unfolding le_add_diff_inverse[OF 3] by (simp add: reports_def)
    qed
  qed
  have "rx_bytes per line per = rx_bytes per line 0" by (rule rx_bytes_quiet) (use q in simp_all)
  then show ?thesis using idle[OF order.refl] unfolding le_add_diff_inverse[OF le] by (simp add: rx_bytes_def)
qed

lemma wave_received:
  assumes per: "32 \<le> per"
  shows "m \<le> length data \<Longrightarrow> fsm_state (rx_at per (wave_line per data) ((11 * m + 1) * per)) = RX_IDLE
    \<and> rx_bytes per (wave_line per data) ((11 * m + 1) * per) = take m data"
proof (induction m)
  case 0
  show ?case using first_idle[OF per, of "wave_line per data"] wave_idle[of 0 data per] by simp
next
  case (Suc m)
  let ?e = "(11 * m + 1) * per"
  have m: "m < length data" using Suc.prems by simp
  have "2 \<le> ?e" using per by (simp add: algebra_simps)
  from frame_received[OF per _ this wave_frame[OF m per]] Suc.IH m
  have "fsm_state (rx_at per (wave_line per data) (?e + 11 * per)) = RX_IDLE"
    "rx_bytes per (wave_line per data) (?e + 11 * per) = take m data @ [data ! m]" by simp_all
  moreover have "?e + 11 * per = (11 * Suc m + 1) * per" by (simp add: algebra_simps)
  ultimately show ?case using m by (simp add: take_Suc_conv_app_nth)
qed

section \<open>The receiver as an instance of the class\<close>

text \<open>The pins, with the levels of clock and reset at the last evaluation, by which it finds the edges.\<close>

record rx_model =
  p_rx :: u8
  p_rst :: u8
  p_clk :: u8
  old_rst :: u8
  old_clk :: u8
  rx_state :: rx_regs

definition rx_model_eval :: "nat \<Rightarrow> rx_model \<Rightarrow> rx_model" where
  "rx_model_eval per m =
     (let edge = (old_clk m = 0 \<and> p_clk m \<noteq> 0) \<or> (old_rst m \<noteq> 0 \<and> p_rst m = 0);
          r = (if \<not> edge then rx_state m else if p_rst m = 0 then rx_reset else rx_posedge per (p_rx m \<noteq> 0) (rx_state m)) in
      m\<lparr>old_rst := p_rst m, old_clk := p_clk m, rx_state := r\<rparr>)"

definition verilog_rx :: "nat \<Rightarrow> rx_model vuart_rx" where
  "verilog_rx per =
     \<lparr>new_VUartRx = \<lparr>p_rx = 0, p_rst = 0, p_clk = 0, old_rst = 0, old_clk = 0, rx_state = rx_reset\<rparr>, rx_eval = rx_model_eval per,
      set_IO_Rx_I = (\<lambda>v m. m\<lparr>p_rx := v\<rparr>), set_IO_Rst_I = (\<lambda>v m. m\<lparr>p_rst := v\<rparr>), set_IO_Clk_I = (\<lambda>v m. m\<lparr>p_clk := v\<rparr>), IO_Clk_I = p_clk,
      IO_RxDone_O = (\<lambda>m. if rx_done (rx_state m) then 1 else 0), IO_RxData_O = (\<lambda>m. recv_data (rx_state m))\<rparr>"

section \<open>Encoder, wire and port\<close>

text \<open>A turn of the two clocks: the port is ticked twice for each tick of the encoder, since a tick is half a cycle of its clock.\<close>

definition link_turn :: "'m vuart_rx \<Rightarrow> uart_encoder \<times> 'm uart_rtl \<Rightarrow> (uart_encoder \<times> 'm uart_rtl) res option" where
  "link_turn vt eu =
     (case eu of (e, u) \<Rightarrow>
      map_option (\<lambda>r. bnd r (\<lambda>e. bnd (getSignal 0 e) (\<lambda>ws.
        bnd (rtl_tick vt None ws u ()) (\<lambda>(_, u, _). bnd (rtl_tick vt None ws u ()) (\<lambda>(_, u, _). Inr (e, u))))))
        (encoder_tick e))"

fun link_run :: "'m vuart_rx \<Rightarrow> nat \<Rightarrow> uart_encoder \<times> 'm uart_rtl \<Rightarrow> (uart_encoder \<times> 'm uart_rtl) res option" where
  "link_run vt 0 eu = Some (Inr eu)"
| "link_run vt (Suc n) eu =
     (case link_turn vt eu of None \<Rightarrow> None | Some (Inl c) \<Rightarrow> Some (Inl c) | Some (Inr eu) \<Rightarrow> link_run vt n eu)"

text \<open>The port after \<open>t\<close> cycles, in the second half of its clock cycle and with nothing to send.\<close>

definition port_at :: "nat \<Rightarrow> (nat \<Rightarrow> bool) \<Rightarrow> nat \<Rightarrow> rx_model uart_rtl \<Rightarrow> bool" where
  "port_at per line t u \<longleftrightarrow> p_rst (ur_rx u) \<noteq> 0 \<and> old_rst (ur_rx u) \<noteq> 0 \<and> p_clk (ur_rx u) = 0 \<and> old_clk (ur_rx u) = 0
     \<and> rx_state (ur_rx u) = rx_at per line t \<and> u_tx (ur_regs u) = [] \<and> u_rx (ur_regs u) = rx_bytes per line t"

lemma port_cycle:
  assumes p: "port_at per line t u" and g: "getBit 0 ws = Inr v" and v: "line t = (v \<noteq> 0)"
  shows "\<exists>u1 u2. rtl_tick (verilog_rx per) None ws u () = Inr ([], u1, ()) \<and> rtl_tick (verilog_rx per) None ws u1 () = Inr ([], u2, ())
     \<and> port_at per line (Suc t) u2"
proof -
  let ?r = "rx_at per line (Suc t)"
  let ?m1 = "(ur_rx u)\<lparr>p_rx := v, p_clk := 1, old_rst := p_rst (ur_rx u), old_clk := 1, rx_state := ?r\<rparr>"
  let ?regs = "(ur_regs u)\<lparr>u_tx := [], u_rx := rx_bytes per line (Suc t)\<rparr>"
  have 1: "rtl_tick (verilog_rx per) None ws u () = Inr ([], \<lparr>ur_regs = ?regs, ur_rx = ?m1\<rparr>, ())"
    using p g v by (simp add: port_at_def rtl_tick_def verilog_rx_def rx_model_eval_def Let_def rx_bytes_Suc done_reports[symmetric])
  let ?m2 = "?m1\<lparr>p_clk := 0, old_clk := 0\<rparr>"
  have 2: "rtl_tick (verilog_rx per) None ws \<lparr>ur_regs = ?regs, ur_rx = ?m1\<rparr> () = Inr ([], \<lparr>ur_regs = ?regs, ur_rx = ?m2\<rparr>, ())"
    using p g by (simp add: port_at_def rtl_tick_def verilog_rx_def rx_model_eval_def Let_def)
  have "port_at per line (Suc t) \<lparr>ur_regs = ?regs, ur_rx = ?m2\<rparr>" using p by (simp add: port_at_def)
  then show ?thesis using 1 2 by blast
qed

lemma link_levels:
  "port_at per line t u \<Longrightarrow> levels n e = Some (Inr (vs, e')) \<Longrightarrow> (\<And>i. i < n \<Longrightarrow> line (t + i) = (vs ! i \<noteq> 0)) \<Longrightarrow>
   \<exists>u'. link_run (verilog_rx per) n (e, u) = Some (Inr (e', u')) \<and> port_at per line (t + n) u'"
proof (induction n arbitrary: t u e vs)
  case (Suc n)
  obtain e1 v vs' where e1: "encoder_tick e = Some (Inr e1)" "bnd (getSignal 0 e1) (getBit 0) = Inr v"
    "levels n e1 = Some (Inr (vs', e'))" "vs = v # vs'"
    using Suc.prems(2) by (auto simp: bnd_eq_Inr split: option.splits sum.splits)
  then obtain ws where ws: "getSignal 0 e1 = Inr ws" "getBit 0 ws = Inr v" by (auto simp: bnd_eq_Inr)
  have "line t = (v \<noteq> 0)" using Suc.prems(3)[of 0] e1(4) by simp
  from port_cycle[OF Suc.prems(1) ws(2) this] obtain u1 u2 where u: "rtl_tick (verilog_rx per) None ws u () = Inr ([], u1, ())"
    "rtl_tick (verilog_rx per) None ws u1 () = Inr ([], u2, ())" "port_at per line (Suc t) u2" by blast
  then have "link_turn (verilog_rx per) (e, u) = Some (Inr (e1, u2))" using e1(1) ws(1) by (simp add: link_turn_def)
  moreover have "line (Suc t + i) = (vs' ! i \<noteq> 0)" if "i < n" for i using Suc.prems(3)[of "Suc i"] e1(4) that by simp
  then obtain u' where "link_run (verilog_rx per) n (e1, u2) = Some (Inr (e', u'))" "port_at per line (Suc t + n) u'"
    using Suc.IH[OF u(3) e1(3)] by blast
  ultimately show ?case by auto
qed simp

lemma nth_replicated: "t < length xs * per \<Longrightarrow> concat (map (replicate per) xs) ! t = xs ! (t div per)"
proof (induction xs arbitrary: t)
  case (Cons x xs)
  then have "0 < per" by (cases per) auto
  show ?case
  proof (cases "t < per")
    case True
    then show ?thesis by (simp add: nth_append)
  next
    case False
    then have "t div per = Suc ((t - per) div per)" using \<open>0 < per\<close> by (simp add: le_div_geq)
    then show ?thesis using False Cons by (simp add: nth_append)
  qed
qed simp

lemma wave_levels: "i < length (wave data) \<Longrightarrow> wave data ! i = 0 \<or> wave data ! i = 1"
proof -
  have "set (wave data) \<subseteq> {0, 1}" by (auto simp: wave_def frame_bits_def)
  then show "i < length (wave data) \<Longrightarrow> ?thesis" using nth_mem by fastforce
qed

lemma length_wave: "length (wave data) = 11 * length data + 1"
  by (induction data) (simp_all add: wave_def)

lemma new_port: "getBit 0 ws = Inr v \<Longrightarrow> \<exists>u. new_UartRTL (verilog_rx per) ws dev_size = Inr u \<and> port_at per line 0 u"
  by (simp add: new_UartRTL_def verilog_rx_def rx_model_eval_def port_at_def uart_new_def rx_bytes_def Let_def)

section \<open>Properties\<close>

text \<open>
  C37. What the encoder is given is what the serial port receives: with an encoder on the wire of a port around the receiver
  of the repository, at least 32 cycles for a bit, and two ticks of the port for one of the encoder, the bytes of
  \<open>data\<close>, in order and without loss or repetition, are in the receive queue of the port when the encoder has finished, so a guest reads them
  from the register. The receiver counts one cycle too many for each bit, and recovers.
\<close>

theorem uart_link_transmits:
  assumes "new_UartEncoder clk data (of_nat (length data)) baud 8 0 = Inr e" and "32 \<le> unat (clk div baud)" and "data \<noteq> []"
    and "(11 * length data + 1) * unat (clk div baud) < 2 ^ 64"
    and "getSignal 0 e = Inr ws" and "new_UartRTL (verilog_rx (unat (clk div baud))) ws dev_size = Inr u"
  shows "\<exists>e' u'. link_run (verilog_rx (unat (clk div baud))) ((11 * length data + 1) * unat (clk div baud)) (e, u) = Some (Inr (e', u'))
     \<and> encoder_finished e' = Inr True \<and> u_rx (ur_regs u') = data"
proof -
  let ?per = "unat (clk div baud)" and ?n = "(11 * length data + 1) * unat (clk div baud)"
  have "0 < clk div baud" using assms(2) by (metis unat_gt_0 word_neq_0_conv gr0I not_numeral_le_zero)
  then obtain e' where l: "levels ?n e = Some (Inr (concat (map (replicate ?per) (wave data)), e'))" "encoder_finished e' = Inr True"
    using encoder_sends[OF assms(1) _ assms(3,4)] by blast
  have "port_at ?per (wave_line ?per data) 0 u"
  proof (cases "getBit 0 ws")
    case (Inl c)
    then show ?thesis using assms(6) by (simp add: new_UartRTL_def)
  next
    case (Inr v)
    then show ?thesis using new_port[of ws v ?per dev_size] assms(6) by auto
  qed
  moreover have "wave_line ?per data (0 + i) = (concat (map (replicate ?per) (wave data)) ! i \<noteq> 0)" if "i < ?n" for i
  proof -
    have "i < length (wave data) * ?per" using that by (simp add: length_wave)
    moreover from this have "i div ?per < length (wave data)" by (rule less_mult_imp_div_less)
    ultimately show ?thesis using wave_levels[of "i div ?per" data] nth_replicated[of i "wave data" ?per] by (auto simp: wave_line_def)
  qed
  ultimately obtain u' where "link_run (verilog_rx ?per) ?n (e, u) = Some (Inr (e', u'))" "port_at ?per (wave_line ?per data) (0 + ?n) u'"
    using link_levels[OF _ l(1)] by blast
  then show ?thesis using l(2) wave_received[OF assms(2), of "length data" data] by (auto simp: port_at_def)
qed

text \<open>Three bytes at the clock and the rate that the receiver is built for.\<close>

theorem uart_link_transmits_witness:
  "\<exists>e ws u e' u'. new_UartEncoder 1000000 [0xaa, 0xcc, 0x01] 3 9600 8 0 = Inr e \<and> getSignal 0 e = Inr ws
     \<and> new_UartRTL (verilog_rx 104) ws 0x100000 = Inr u
     \<and> link_run (verilog_rx 104) 3536 (e, u) = Some (Inr (e', u')) \<and> u_rx (ur_regs u') = [0xaa, 0xcc, 0x01]"
proof -
  let ?data = "[0xaa, 0xcc, 0x01] :: u8 list"
  have "case new_UartEncoder 1000000 ?data 3 9600 8 0 of Inr e \<Rightarrow> getBit 0 (wireSignal e) = Inr 1 | Inl _ \<Rightarrow> False" by code_simp
  then obtain e where e: "new_UartEncoder 1000000 ?data 3 9600 8 0 = Inr e" "getBit 0 (wireSignal e) = Inr 1" by (auto split: sum.splits)
  have p: "unat ((1000000 :: u64) div 9600) = 104" by simp
  have g: "getSignal 0 e = Inr (wireSignal e)" by (simp add: getSignal_def)
  obtain u where u: "new_UartRTL (verilog_rx 104) (wireSignal e) 0x100000 = Inr u" using new_port[OF e(2)] by blast
  have "\<exists>e' u'. link_run (verilog_rx (unat ((1000000 :: u64) div 9600))) ((11 * length ?data + 1) * unat ((1000000 :: u64) div 9600)) (e, u) = Some (Inr (e', u'))
     \<and> encoder_finished e' = Inr True \<and> u_rx (ur_regs u') = ?data"
    by (rule uart_link_transmits [where ws = "wireSignal e" and dev_size = "0x100000"]) (simp_all add: e g u p del: unat_div)
  then show ?thesis using e(1) g u unfolding p by auto
qed

end
