(* ===== verification/MiniSys.thy ===== *)
theory MiniSys
  imports Machine MiniCpu MemCtrl MemDev
begin

text \<open>
  The machine with both cores that \<open>main\<close> starts, \<open>example/minicpu_full_sys.cpp\<close>: the devices, their addresses and the state
  in which the debug server takes over. The loop behind it is never reached, since \<open>Debug_GDBStub\<close> does not return.
\<close>

section \<open>The devices behind the bus\<close>

text \<open>The registers of the controller are those of \<open>MemCtrl\<close>; its own access to the bus is not needed for the wiring.\<close>

record mini_devs =
  md_shared :: devs
  md_mem :: mem_dev
  md_ctl :: "unit mem_ctrl"

datatype mini_dev = Shared_dev dev | MiniMem_dev | MiniCtl_dev

definition mini_vt :: "(u64 \<Rightarrow> u8 list) \<Rightarrow> mini_dev \<Rightarrow> mini_devs slave_io" where
  "mini_vt behind k = (case k of
     Shared_dev j \<Rightarrow>
       \<lparr>io_load = (\<lambda>d a n. bnd (io_load (dev_vt behind j) (md_shared d) a n) (\<lambda>(fb, b, s). Inr (fb, b, d\<lparr>md_shared := s\<rparr>))),
        io_store = (\<lambda>d a bs. bnd (io_store (dev_vt behind j) (md_shared d) a bs) (\<lambda>(fb, s). Inr (fb, d\<lparr>md_shared := s\<rparr>)))\<rparr>
   | MiniMem_dev \<Rightarrow>
       \<lparr>io_load = (\<lambda>d a n. bnd (mem_load (md_mem d) a n) (\<lambda>(fb, b, m). Inr (fb, b, d\<lparr>md_mem := m\<rparr>))),
        io_store = (\<lambda>d a bs. bnd (mem_store (md_mem d) a bs) (\<lambda>(fb, m). Inr (fb, d\<lparr>md_mem := m\<rparr>)))\<rparr>
   | MiniCtl_dev \<Rightarrow>
       \<lparr>io_load = (\<lambda>d a n. bnd (ctl_load (md_ctl d) a n) (\<lambda>(fb, b, c). Inr (fb, b, d\<lparr>md_ctl := c\<rparr>))),
        io_store = (\<lambda>d a bs. bnd (ctl_store (md_ctl d) a bs) (\<lambda>(fb, c). Inr (fb, d\<lparr>md_ctl := c\<rparr>)))\<rparr>)"

definition mini_devs_ok :: "mini_devs \<Rightarrow> bool" where
  "mini_devs_ok d \<longleftrightarrow> devs_ok (md_shared d) \<and> mem_wf (md_mem d) \<and> ctl_ok (md_ctl d)"

interpretation mini_fam: device_family "mini_vt behind" mini_devs_ok for behind
proof (unfold_locales, goal_cases)
  case (1 k s a n fb b s')
  then show ?case
    by (cases k) (auto simp: mini_vt_def res_simps mini_devs_ok_def ctl_load_def guard_eq_Inr
        dest: slave.load_wf[OF simple.device] md.load_wf)
next
  case (2 k s a bs fb s')
  then show ?case
    by (cases k) (auto simp: mini_vt_def res_simps mini_devs_ok_def dest: slave.store_wf[OF simple.device] md.store_wf ctl_store_ok)
next
  case (3 k s a n fb bs s')
  then show ?case
    by (cases k) (auto simp: mini_vt_def res_simps mini_devs_ok_def ctl_load_def guard_eq_Inr
        dest: slave.load_length[OF simple.device] md.load_length mem_read_length)
qed

section \<open>Construction\<close>

text \<open>
  \<open>ram\<close> and \<open>mini_ram\<close> are the memories that are allocated, \<open>img\<close> and \<open>prog\<close> the files loaded into them, \<open>junk\<close> the registers of the
  controller, which have no initialiser, \<open>mem0\<close> and \<open>mini0\<close> the core objects before construction. The bus is one object, and
  the cores keep a pointer to it, so all devices are registered first.
\<close>

definition minicpu_bus :: "u8 list \<Rightarrow> u8 list \<Rightarrow> mini_dev addr_bus" where
  "minicpu_bus ram img =
     addDev (addDev (addDev (addDev (addDev (setMem addrbus_new 0x80000000 ram (Some img))
       (Shared_dev Plic_dev) 0xc000000) (Shared_dev Clint_dev) 0x2000000) (Shared_dev Uart_dev) 0x60100000)
       MiniMem_dev 0x180000000) MiniCtl_dev 0x200000000"

definition minicpu_devs :: "u8 list \<Rightarrow> u8 list \<Rightarrow> u8 list \<Rightarrow> mini_devs res" where
  "minicpu_devs mini_ram prog junk =
     bnd (clint_regIntContext (clint_new 2) 0 0) (\<lambda>c.
     bnd (clint_regIntContext c 1 1) (\<lambda>c.
     bnd (plic_regIntContext (plic_new 4 4) 0 (Meip 0)) (\<lambda>p.
     bnd (plic_regIntContext p 1 (Seip 0)) (\<lambda>p.
     bnd (plic_regIntContext p 2 (Loose 2)) (\<lambda>p.
     bnd (plic_regIntContext p 3 (Loose 3)) (\<lambda>p.
       Inr \<lparr>md_shared = \<lparr>clint_dev = c, plic_dev = p, uart_dev = uart_new (1024 * 1024)\<rparr>,
            md_mem = mem_new mini_ram (Some prog), md_ctl = new_MiniCPUMemController junk ()\<rparr>))))))"

type_synonym mini_bus = "mini_dev addr_bus \<times> mini_devs"

text \<open>The main core, the second core and the interrupt lines when the debug server is started.\<close>

definition simple_full_sys_minicpu :: "mini_bus rv64core \<Rightarrow> mini_bus minicore \<Rightarrow> mini_bus \<Rightarrow> irq_store
    \<Rightarrow> (mini_bus rv64core \<times> mini_bus minicore \<times> irq_store) res" where
  "simple_full_sys_minicpu mem0 mini0 bus w =
     (let (core, w) = RV64Core_new mem0 bus 0 0 w in
      bnd (setGPRByIndex 10 0 (writeProgramCounter 0x80000000 core)) (\<lambda>core.
        let (mini, w) = minicpu_new mini0 bus 1 2 w in
        bnd (mc_WriteProgramCounterForAllCtx 0x180000000 mini) (\<lambda>mini. Inr (core, mini, w))))"

lemma minicpu_devs_eq:
  "minicpu_devs mini_ram prog junk = Inr \<lparr>md_shared = boot_devs, md_mem = mem_new mini_ram (Some prog), md_ctl = new_MiniCPUMemController junk ()\<rparr>"
  by (simp add: minicpu_devs_def boot_devs_def plic_regIntContext_def clint_regIntContext_def plic_new_def clint_new_def
      clint_wires_def plic_wires_def guard_def numeral_eq_Suc)

text \<open>The devices in the order of their addresses.\<close>

lemma minicpu_bus_devices:
  "devices (minicpu_bus ram img) = [(0x2000000, Shared_dev Clint_dev), (0xc000000, Shared_dev Plic_dev), (0x60100000, Shared_dev Uart_dev),
     (0x180000000, MiniMem_dev), (0x200000000, MiniCtl_dev)]"
  by (simp add: minicpu_bus_def addDev_def setMem_def addrbus_new_def addr_bus.defs slave_atomic.defs Let_def)

lemma minicpu_bus_mem:
  "memBeginAddr (minicpu_bus ram img) = 0x80000000" "memEndAddr (minicpu_bus ram img) = 0x80000000 + of_nat (length ram)"
  "mainMem (minicpu_bus ram img) \<noteq> None"
  by (simp_all add: minicpu_bus_def addDev_def setMem_def addrbus_new_def addr_bus.defs slave_atomic.defs Let_def)

text \<open>Every context starts at the program, on the same bus.\<close>

lemma all_contexts:
  assumes "length (mc_ctx c) = NR_CTX"
  shows "mc_WriteProgramCounterForAllCtx v c = Inr (c\<lparr>mc_ctx := map (\<lambda>x. x\<lparr>cx_currentProgramCounter := v\<rparr>) (mc_ctx c)\<rparr>)"
proof -
  obtain a b d e where l: "mc_ctx c = [a, b, d, e]"
    using assms by (auto simp: NR_CTX_def length_Suc_conv numeral_eq_Suc)
  have "[0..<NR_CTX] = [0, 1, 2, 3]" by (simp add: NR_CTX_def upt_conv_Cons)
  then show ?thesis using l by (simp add: mc_WriteProgramCounterForAllCtx_def numeral_eq_Suc)
qed

lemma minicpu_sys_starts:
  assumes "length (mc_ctx mini0) = NR_CTX"
  shows "\<exists>core mini w'. simple_full_sys_minicpu mem0 mini0 bus w = Inr (core, mini, w')"
proof -
  have "length (mc_ctx (fst (minicpu_new mini0 bus 1 2 v))) = NR_CTX" for v
    using assms by (simp add: minicpu_new_def mc_reset_def split_beta)
  then show ?thesis
    by (simp add: simple_full_sys_minicpu_def split_beta Let_def all_contexts setGPRByIndex_def guard_def)
qed

text \<open>How a load is routed.\<close>

lemma minicpu_load_map:
  assumes "length ram = 3 * 2 ^ 30"
  shows "addrbus_load (mini_vt behind) (minicpu_bus ram img, d) a n =
     (let b = minicpu_bus ram img;
          dev = (\<lambda>k base. bnd (io_load (mini_vt behind k) d (a - base) n) (\<lambda>(fb, buf, d'). Inr (fb, buf, (b, d')))) in
      if a < 0x2000000 then Inr (FB_DEV_NOT_FOUND, None, (b, d))
      else if a < 0xc000000 then dev (Shared_dev Clint_dev) 0x2000000
      else if a < 0x60100000 then dev (Shared_dev Plic_dev) 0xc000000
      else if a < 0x80000000 then dev (Shared_dev Uart_dev) 0x60100000
      else if a \<le> 0x140000000 then bnd (mem_read (the (mainMem b)) (unat (a - 0x80000000)) (unat n)) (\<lambda>bs. Inr (FB_SUCCESS, Some bs, (b, d)))
      else if a < 0x180000000 then dev (Shared_dev Uart_dev) 0x60100000
      else if a < 0x200000000 then dev MiniMem_dev 0x180000000
      else dev MiniCtl_dev 0x200000000)"
proof -
  have e: "0x80000000 + of_nat (length ram) = (0x140000000 :: u64)" by (simp add: assms)
  obtain m0 where m0: "mainMem (minicpu_bus ram img) = Some m0" using minicpu_bus_mem(3)[of ram img] by blast
  have m: "in_main_mem (minicpu_bus ram img) a = (if 0x80000000 \<le> a \<and> a \<le> 0x140000000 then Some m0 else None)"
    by (simp add: in_main_mem_def minicpu_bus_mem e m0)
  have l: "before_upper_bound a (devices (minicpu_bus ram img)) =
      (if a < 0x2000000 then None else if a < 0xc000000 then Some (0x2000000, Shared_dev Clint_dev)
       else if a < 0x60100000 then Some (0xc000000, Shared_dev Plic_dev)
       else if a < 0x180000000 then Some (0x60100000, Shared_dev Uart_dev)
       else if a < 0x200000000 then Some (0x180000000, MiniMem_dev) else Some (0x200000000, MiniCtl_dev))"
    unfolding minicpu_bus_devices before_upper_bound_Cons before_upper_bound_Nil not_less[symmetric]
    by (auto simp: word_less_nat_alt)
  consider "a < 0x2000000" | "0x2000000 \<le> a" "a < 0xc000000" | "0xc000000 \<le> a" "a < 0x60100000" | "0x60100000 \<le> a" "a < 0x80000000"
    | "0x80000000 \<le> a" "a \<le> 0x140000000" | "0x140000000 < a" "a < 0x180000000" | "0x180000000 \<le> a" "a < 0x200000000" | "0x200000000 \<le> a"
    by (meson linorder_not_less)
  then show ?thesis
    by cases (simp_all add: addrbus_load_def m m0 l Let_def minicpu_bus_mem word_less_nat_alt word_le_nat_alt)
qed

section \<open>Properties\<close>

text \<open>
  C38. The address map of the machine is that of the wiring, and has no holes above the first device: a load goes to the
  memory from 0x80000000 to 0x140000000, the end itself included, and otherwise to the device with the next base
  below its address, with the distance from the base. So an address at which nothing is registered is answered by the neighbour
  below: the upper gigabyte of what the diagram in the source shows as memory of the main core, 0x140000000 to 0x180000000 (the
  code registers three gigabytes, not four), reaches the serial port, where a load can take a byte from the receive queue.
\<close>

theorem minicpu_address_map:
  assumes "length ram = 3 * 2 ^ 30"
  shows "addrbus_load (mini_vt behind) (minicpu_bus ram img, d) a n =
     (let b = minicpu_bus ram img;
          dev = (\<lambda>k base. bnd (io_load (mini_vt behind k) d (a - base) n) (\<lambda>(fb, buf, d'). Inr (fb, buf, (b, d')))) in
      if a < 0x2000000 then Inr (FB_DEV_NOT_FOUND, None, (b, d))
      else if a < 0xc000000 then dev (Shared_dev Clint_dev) 0x2000000
      else if a < 0x60100000 then dev (Shared_dev Plic_dev) 0xc000000
      else if a < 0x80000000 then dev (Shared_dev Uart_dev) 0x60100000
      else if a \<le> 0x140000000 then bnd (mem_read (the (mainMem b)) (unat (a - 0x80000000)) (unat n)) (\<lambda>bs. Inr (FB_SUCCESS, Some bs, (b, d)))
      else if a < 0x180000000 then dev (Shared_dev Uart_dev) 0x60100000
      else if a < 0x200000000 then dev MiniMem_dev 0x180000000
      else dev MiniCtl_dev 0x200000000)"
  by (rule minicpu_load_map [OF assms])

text \<open>A load from the hole takes the byte that was typed.\<close>

definition typed_devs :: mini_devs where
  "typed_devs = \<lparr>md_shared = boot_devs\<lparr>uart_dev := readInput 65 (uart_dev boot_devs)\<rparr>, md_mem = mem_new [] None,
     md_ctl = new_MiniCPUMemController [] ()\<rparr>"

theorem minicpu_address_map_witness:
  "\<exists>d'. addrbus_load (mini_vt (\<lambda>_. [])) (minicpu_bus (replicate (3 * 2 ^ 30) 0) [], typed_devs) 0x150000000 1 =
       Inr (FB_SUCCESS, Some [65], (minicpu_bus (replicate (3 * 2 ^ 30) 0) [], d'))
     \<and> u_rx (uart_dev (md_shared typed_devs)) = [65] \<and> u_rx (uart_dev (md_shared d')) = []"
proof -
  let ?u = "readInput 65 (uart_new 0x100000)"
  have "case uart_load ?u 0xEFF00000 1 of Inr (fb, b, u) \<Rightarrow> fb = FB_SUCCESS \<and> b = Some [65] \<and> u_rx u = [] | Inl _ \<Rightarrow> False" by code_simp
  then obtain u where u: "uart_load ?u 0xEFF00000 1 = Inr (FB_SUCCESS, Some [65], u)" "u_rx u = []"
    by (auto split: sum.split_asm)
  have l: "length (replicate (3 * 2 ^ 30) (0 :: u8)) = 3 * 2 ^ 30" by (rule length_replicate)
  have t: "uart_dev (md_shared typed_devs) = ?u" by (simp add: typed_devs_def boot_devs_def)
  have "addrbus_load (mini_vt (\<lambda>_. [])) (minicpu_bus (replicate (3 * 2 ^ 30) 0) [], typed_devs) 0x150000000 1 =
      Inr (FB_SUCCESS, Some [65], (minicpu_bus (replicate (3 * 2 ^ 30) 0) [], typed_devs\<lparr>md_shared := (md_shared typed_devs)\<lparr>uart_dev := u\<rparr>\<rparr>))"
    unfolding minicpu_address_map [OF l] by (simp add: mini_vt_def dev_vt_def t u(1) Let_def)
  then show ?thesis using u(2) t by (intro exI) (auto simp: readInput_def uart_new_def)
qed

text \<open>
  C9. The second core boots: when the debug server takes over, each of the four contexts, with whatever the core object held
  before, has cleared registers and its program counter at 0x180000000, the core is in machine mode in context 0, and its
  first fetch goes through the memory management unit and the bus to the first four bytes of the program in its own memory. The main core stands at 0x80000000.
\<close>

theorem minicpu_machine_boots:
  assumes "length ram = 3 * 2 ^ 30" and "length mini_ram = 2 ^ 27" and "4 \<le> length prog" and "length (mc_ctx mini0) = NR_CTX"
    and "minicpu_devs mini_ram prog junk = Inr d"
    and "simple_full_sys_minicpu mem0 mini0 (minicpu_bus ram img, d) w = Inr (core, mini, w')"
  shows "length (mc_ctx mini) = NR_CTX \<and> mc_currentCtx mini = 0
     \<and> (\<forall>x \<in> set (mc_ctx mini). cx_currentProgramCounter x = 0x180000000 \<and> cx_GPR x = (\<lambda>_. 0))
     \<and> currentProgramCounter core = 0x80000000
     \<and> (\<exists>s. view mini = Inr s \<and> currentPrivMode s = M_MODE
           \<and> VAddr_InstFetch_MMU_API (addrbus_io (mini_vt behind)) (currentProgramCounter s) (replicate 4 0) s = Inr (VADDR_ACCESS_OK, take 4 prog, s))"
proof -
  let ?bus = "(minicpu_bus ram img, d)"
  let ?c = "fst (minicpu_new mini0 ?bus 1 2 (snd (RV64Core_new mem0 ?bus 0 0 w)))"
  have len: "length (mc_ctx ?c) = NR_CTX" using assms(4) by (simp add: minicpu_new_def mc_reset_def split_beta)
  have mini: "mini = ?c\<lparr>mc_ctx := map (\<lambda>x. x\<lparr>cx_currentProgramCounter := 0x180000000\<rparr>) (mc_ctx ?c)\<rparr>"
    and core: "currentProgramCounter core = 0x80000000"
    using assms(6) unfolding simple_full_sys_minicpu_def
    by (auto simp: split_beta Let_def all_contexts[OF len] setGPRByIndex_def guard_def writeProgramCounter_def bnd_eq_Inr)
  have ctx: "\<forall>x \<in> set (mc_ctx mini). cx_currentProgramCounter x = 0x180000000 \<and> cx_GPR x = (\<lambda>_. 0)"
    unfolding mini by (auto simp: minicpu_new_def mc_reset_def split_beta)
  have m: "mc_currentCtx mini = 0" "length (mc_ctx mini) = 4" using len unfolding mini by (auto simp: minicpu_new_def mc_reset_def split_beta NR_CTX_def)
  then have "mc_ok mini" by (simp add: mc_ok_def NR_CTX_def)
  note v = view_in[OF this]
  have base: "currentPrivMode (mc_base mini) = M_MODE" "subBus (mc_base mini) = ?bus"
    unfolding mini by (simp_all add: minicpu_new_def mc_reset_def split_beta RV64Core_new_def RV64SV39_MMU_new_def reset_def)
  have d: "md_mem d = mem_new mini_ram (Some prog)" using assms(5) by (auto simp: minicpu_devs_eq)
  have ml: "mem_load (md_mem d) 0 4 = Inr (FB_SUCCESS, Some (take 4 prog), md_mem d)"
    using assms(2,3) unfolding d by (simp add: mem_load_def mem_new_def Let_def mem_read_def guard_def min_def)
  have l: "addrbus_load (mini_vt behind) ?bus 0x180000000 4 = Inr (FB_SUCCESS, Some (take 4 prog), ?bus)"
    unfolding minicpu_load_map [OF assms(1)] by (simp add: mini_vt_def ml)
  have pc: "cx_currentProgramCounter (mc_ctx mini ! 0) = 0x180000000" using ctx m(2) by simp
  show ?thesis
    using ctx core v base pc l m
    by (simp add: NR_CTX_def VAddr_InstFetch_MMU_API_def fetch_part_def guard_def doLoad_def addrbus_io_def Let_def)
qed

text \<open>A program of four bytes; the second core object held other values before its construction.\<close>

definition raw_mini :: "mini_bus minicore" where
  "raw_mini = \<lparr>mc_base = zero_core (addrbus_new, typed_devs),
     mc_ctx = replicate 4 \<lparr>cx_GPR = (\<lambda>_. 7), cx_waitingChnBits = 5, cx_currentProgramCounter = 9\<rparr>,
     mc_currentCtx = 3, mc_newCtx = 2, mc_switchCtx = True, mc_ch = 0, mc_out = [], mc_global_tick = 0\<rparr>"

definition small_devs :: mini_devs where
  "small_devs = \<lparr>md_shared = boot_devs, md_mem = mem_new (replicate (2 ^ 27) 0) (Some [0x13, 0, 0, 0]), md_ctl = new_MiniCPUMemController [] ()\<rparr>"

theorem minicpu_machine_boots_witness:
  "\<exists>core mini w'. simple_full_sys_minicpu (zero_core (addrbus_new, typed_devs)) raw_mini (minicpu_bus (replicate (3 * 2 ^ 30) 0) [], small_devs)
         (\<lambda>_. False) = Inr (core, mini, w')
     \<and> (\<exists>s. view mini = Inr s \<and> VAddr_InstFetch_MMU_API (addrbus_io (mini_vt (\<lambda>_. []))) (currentProgramCounter s) (replicate 4 0) s =
            Inr (VADDR_ACCESS_OK, [0x13, 0, 0, 0], s))"
proof -
  have n: "length (mc_ctx raw_mini) = NR_CTX" by (simp add: raw_mini_def NR_CTX_def)
  obtain core mini w' where r: "simple_full_sys_minicpu (zero_core (addrbus_new, typed_devs)) raw_mini
      (minicpu_bus (replicate (3 * 2 ^ 30) 0) [], small_devs) (\<lambda>_. False) = Inr (core, mini, w')"
    using minicpu_sys_starts[OF n] by blast
  have d: "minicpu_devs (replicate (2 ^ 27) 0) [0x13, 0, 0, 0] [] = Inr small_devs" by (simp only: minicpu_devs_eq small_devs_def)
  have l: "length (replicate (3 * 2 ^ 30) (0 :: u8)) = 3 * 2 ^ 30" "length (replicate (2 ^ 27) (0 :: u8)) = 2 ^ 27"
    by (rule length_replicate)+
  have p: "4 \<le> length [0x13, 0, 0, 0 :: u8]" "take 4 [0x13, 0, 0, 0 :: u8] = [0x13, 0, 0, 0]" by simp_all
  show ?thesis using r minicpu_machine_boots [OF l p(1) n d r] unfolding p(2) by blast
qed

end
