(* ===== verification/Spec2Isabelle.thy ===== *)
theory Spec2Isabelle
  imports MemDev AddrBus Clint Plic Alu Sv39 Amo Privilege Step Isolation Abort Decode Debug Uartlite Machine GdbStub MemCtrl Peripherals AxiLite MiniMmu UartRx MiniSys
begin

text \<open>
  A verification development for NextEmu, an emulator of RISC-V systems in C++. Paths are relative to \<open>src/\<close> of the
  repository; \<open>simple\<close> stands for \<open>modules/platform/rvcore_simple\<close> and \<open>minicpu\<close> for \<open>modules/platform/rvcore_minicpu\<close>.

  The program. A machine is a core on a bus. \<open>RV64Core\<close> (\<open>simple/include/RV64Core.h\<close>) is an RV64IMAC core with machine,
  supervisor and user mode, whose memory management unit \<open>RV64SV39_MMU\<close> translates every fetch, load and store and passes
  them to an object of the interface \<open>SlaveIOAtomic_I\<close> (\<open>include/sdk/interface/dev_if.h\<close>). This object is \<open>AddrBus\<close>, which
  holds the main memory and dispatches other addresses to devices of the interface \<open>SlaveIO_I\<close>: the interrupt controllers
  \<open>CLInt\<close> and \<open>PLIC\<close>, the serial port \<open>Uartlite\<close>, memories and the memory controller of the second core. The controllers drive
  the interrupt lines of the core, which \<open>preExec\<close> samples before each instruction. \<open>example/simple_full_sys.cpp\<close> wires these
  and runs the loop: tick every device, step the core. A second core, \<open>minicpu\<close>, shares most of its text with the first,
  has four register contexts and is debugged by \<open>GDBStub\<close> over a socket.

  State and errors. A class is a \<open>record\<close> with the fields of the class, a method is a function that returns the updated
  record. The core's record extends that of its memory management unit, because the C++ object of the unit holds
  references to four fields of the core. Code that may stop the emulator returns \<open>'a res\<close>, that is \<open>crash + 'a\<close>: \<open>AssertFail\<close>
  is a failed assertion, \<open>Undefined\<close> is undefined behaviour (an index out of bounds, a division by zero, an uninitialised
  value that is used), \<open>Exit\<close> is \<open>exit\<close>. An output parameter that a path does not assign is \<open>None\<close>. Machine integers are words
  of their width (\<open>u8\<close> to \<open>u64\<close>), so every wrap-around of the code is one of the model; a union of bit fields is a word with
  named fields (\<open>Structs\<close>). A loop whose end depends on another component is a \<open>partial_function (option)\<close>, with \<open>None\<close> for
  not returning: \<open>run_to_watchpoint\<close> and \<open>Debug_GDBStub\<close> of the debug server, \<open>wait_ready\<close> of the bus adapter; what makes them
  return is proved. Everything else is total, and nothing has fuel but \<open>scan_packet\<close>, whose bound of 8192 characters is the
  \<open>BUFFER_SIZE\<close> of the source, and \<open>recvAndCheck\<close>, whose ten attempts are those of the source.

  The theories, in the order of the program:
  \<^item> \<open>Prelude\<close>: machine integers, \<open>res\<close>, arrays with bounds, bytes of a word, bit fields, \<open>for_each\<close>.
  \<^item> \<open>DevIf\<close>: \<open>include/sdk/interface/dev_if.h\<close> and the interrupt lines. A caller that holds a pointer to a base class takes
    the record of the operations of the object (\<open>slave_io\<close>, \<open>slave_atomic_io\<close>) as an argument.
  \<^item> \<open>MemDev\<close>, \<open>AddrBus\<close>, \<open>Clint\<close>, \<open>Plic\<close>, \<open>Uartlite\<close>: the devices \<open>modules/device/mem\<close>, \<open>include/sdk/base/AddrBus.hpp\<close>,
    \<open>simple/include/CLInt.h\<close> and \<open>PLIC.h\<close>, \<open>modules/device/uartlite\<close>.
  \<^item> \<open>Encoding\<close>, \<open>Structs\<close>, \<open>CoreState\<close>: the headers of \<open>simple/include/misc\<close> and the members of the two classes of the core.
  \<^item> \<open>Alu\<close>, \<open>Mmu\<close>, \<open>Amo\<close>, \<open>Privilege\<close>: \<open>simple/src/rv64_alu.cpp\<close>, \<open>rv64_sv39.cpp\<close>, \<open>rv64_amo.cpp\<close>, \<open>rv64_privilege.cpp\<close> with the
    accesses of \<open>rv64_common.cpp\<close>.
  \<^item> \<open>Exec\<close>, \<open>ExecC\<close>, \<open>Step\<close>: \<open>RV64Core::step\<close> of \<open>simple/src/rv64_exec.cpp\<close>, one definition per case of the switch on the opcode,
    32 and 16 bits, and the frame around them. \<open>Debug\<close>: \<open>rv64_debug.cpp\<close>.
  \<^item> \<open>Machine\<close>: \<open>example/simple_full_sys.cpp\<close>, the machine with the built-in core.
  \<^item> \<open>MiniCpu\<close>: what differs in \<open>minicpu\<close>; the rest of its text is that of the simple core and runs on the current context by
    \<open>on_ctx\<close> or on the shared members by \<open>on_base\<close> (\<open>MiniMmu\<close>).
  \<^item> \<open>ThreadPool\<close>, \<open>MemCtrl\<close>: \<open>include/sdk/base/ThreadPool.h\<close> and \<open>modules/device/minicpu_controller\<close>.
  \<^item> \<open>GdbRsp\<close>, \<open>GdbStub\<close>: \<open>src/gdb_stub\<close> with \<open>include/sdk/base/GDBStub.h\<close>.
  \<^item> \<open>MiniSys\<close>: \<open>example/minicpu_full_sys.cpp\<close>, the machine with both cores up to the start of the debug server. The loop behind
    \<open>Debug_GDBStub\<close> is never reached, since that function does not return; the threads of the controller are those of \<open>MemCtrl\<close>.
  \<^item> \<open>Waveform\<close>, \<open>Peripherals\<close>, \<open>AxiLite\<close>, \<open>UartRx\<close>: \<open>include/sdk/interface/digital_if.h\<close> and the encoder of serial lines; \<open>DummyDev\<close>,
    \<open>SRAMAdapter\<close>, \<open>ClkDrive\<close> and \<open>LogicAnalyzer\<close>; the AXI-Lite adapter; the serial ports around a receiver in Verilog.
  \<^item> \<open>Contract\<close>, \<open>Isolation\<close>, \<open>Abort\<close>, \<open>BusInv\<close>, \<open>Decode\<close>, \<open>Sv39\<close>: no code of their own; contracts, abstract specifications and the
    proofs that the components meet them.

  Interfaces. \<open>slave\<close>, \<open>memory_slave\<close> and \<open>atomic_slave\<close> (\<open>DevIf\<close>) are what a bus relies on; the devices and the bus interpret
  them, and \<open>device_family\<close> (\<open>AddrBus\<close>) makes the bus a slave when its devices are. \<open>bit_struct\<close> is the law of a layout of bit
  fields, interpreted by each union. \<open>instr_contract\<close> (\<open>Contract\<close>) asks for a relation between the state before an instruction
  and its outcome that the building blocks of the two decoders keep, and gives it for every instruction; it is
  interpreted for the invariant of the core (\<open>Step\<close>), for the registers of machine mode and for user mode (\<open>Isolation\<close>),
  for the ways to abort (\<open>Abort\<close>) and for what the core can do to its bus (\<open>BusInv\<close>). \<open>bus_keeps\<close> and its interpretation in
  \<open>Machine\<close> carry an invariant of the devices through a step of the core. \<open>debuggable_core\<close> is what the register commands of
  the debug server need of a core; \<open>minicpu\<close> provides it.

  What is proved. Of the core: the invariant of all reachable states, confinement of user mode, protection of machine
  registers, delegation of traps and their return, the interrupts taken and those that starve, the only way to abort,
  the compressed decoder against tables of the format (\<open>rvc_expand\<close>, whose immediates are lists of bit positions of its own), the immediates and the arithmetic unit against integers. Of the memory
  management unit: the unit with its lookaside buffer refines an abstract walk in memory. Of the machine: the invariant
  of everything the loop reaches, and that an interrupt of a device reaches the core. Of \<open>minicpu\<close>: refinement of the
  simple core, isolation of the registers of its contexts and the memory they share, its
  address map and the state it boots in. Of the devices: losslessness of the serial port, arbitration of the \<open>PLIC\<close>, bounds,
  lookup in the bus. Of the pool and the controller: no task is lost or repeated, and the interleavings in which
  something never happens. Of the debug server: packets, registers, and breakpoints from the packet that sets one to the step that reaches it. Of the signals: what the encoder
  sends is what the receiver and the serial port around it deliver, for 32 cycles for a bit or more. Where the code does not do what it means to, the theorem states what it does.

  Choices. A function that takes its mutex for all it does is one atomic step; where an interleaving matters (\<open>ThreadPool\<close>,
  \<open>MemCtrl\<close>, the input thread of \<open>Uartlite\<close>) the steps are those of the source and a run is any sequence of them. The memory
  of threads is sequentially consistent; a wait for a condition may end without a notification (\<open>Spurious\<close>). The pool unlocks a
  mutex that another thread has locked, which the standard leaves to the platform: \<open>plain\<close> says that a mutex of the platform is a plain flag,
  and what is proved of the pool holds with and without it, where without it the step is undefined. In \<open>MemCtrl\<close> a store of the guest is
  one step, a handler waits \<open>NR_CYCLE\<close> = 88 ticks as in the source, and its loads and stores go to a bus on which the
  controller itself may be a device (\<open>env_own\<close>, which \<open>full_sys_env\<close> gives for \<open>minicpu_full_sys.cpp\<close>). A store to the \<open>PLIC\<close> of
  less than four bytes reads on behind the buffer of the caller; what is there is the parameter \<open>behind\<close> of the machines. In \<open>GdbStub\<close> the input is the list of the pieces that the
  connection delivers, the check sum is tested (\<open>CONFIG_DEBUG_ENABLE\<close> is not defined). The encoder's results hold while its
  64-bit counter of cycles does not wrap. The bus below a core is any object of its interface, except where a property
  names \<open>addrbus_io\<close> or \<open>sys_vt\<close>. The classes that Verilator generates are parameters (\<open>AxiLite\<close>, \<open>UartRx\<close>),
  instantiated with translations of their Verilog: \<open>Top.v\<close> for the adapter, and \<open>UartRx.v\<close> for the receiver, whose counters fit their
  registers (\<open>counters_fit\<close>) and are natural numbers.

  Not modelled: \<open>modules/platform/rvcore_spike\<close> (glue to the simulator Spike, which is not in the repository),
  \<open>include/sdk/base/ByteStreamStub.h\<close> and the calls that open sockets, logging and colours (\<open>include/sdk/console.h\<close>), the
  test drivers, \<open>main.cpp\<close>, the guest application \<open>misc/minicpu_app\<close> and the unreached loop of \<open>example/minicpu_full_sys.cpp\<close>.
\<close>

end
